(* ===== verification/Prelude.thy ===== *)
theory Prelude
  imports Main "HOL-Library.Word"
begin

text \<open>
  What every component shares: the failures a call can end in, the type of effectful
  calls (a function on the state of the world that returns a value or a failure and the new
  world), its combinators with their rules, the loop wrapper for loops that need not end,
  and the theorem collections of the development.
\<close>

named_theorems io_defs \<open>definitions of the effect combinators\<close>
named_theorems io_elims \<open>inversion rules of the effect combinators\<close>
named_theorems keeps_intros \<open>introduction rules: operations that leave a part of the world unchanged\<close>
named_theorems contract_defs \<open>definitions of the hypotheses on code outside the repository\<close>

subsection \<open>Failures and effectful calls\<close>

text \<open>
  \<open>RuntimeError\<close> is \<^verbatim>\<open>std::runtime_error\<close>, \<open>NonRecoverableException\<close> the class of
  \<^verbatim>\<open>util/exceptions/non_recoverable_exception.hh\<close> (both carry the text given to the
  constructor), \<open>OutOfRange\<close> the \<^verbatim>\<open>std::out_of_range\<close> of \<^verbatim>\<open>vector::at\<close>.
  \<open>UndefinedBehaviour\<close> marks an operation the language gives no meaning to (a remainder by
  zero), \<open>Diverges\<close> a call that never returns.
\<close>

datatype failure =
    RuntimeError string
  | NonRecoverableException string
  | OutOfRange
  | UndefinedBehaviour
  | Diverges

type_synonym ('a, 'w) io = "'w \<Rightarrow> (failure + 'a) \<times> 'w"

definition io_return :: "'a \<Rightarrow> ('a, 'w) io" where
  [io_defs]: "io_return x w = (Inr x, w)"

definition io_throw :: "failure \<Rightarrow> ('a, 'w) io" where
  [io_defs]: "io_throw e w = (Inl e, w)"

definition io_bind :: "('a, 'w) io \<Rightarrow> ('a \<Rightarrow> ('b, 'w) io) \<Rightarrow> ('b, 'w) io" where
  [io_defs]: "io_bind m k w =
     (case m w of (Inl e, w') \<Rightarrow> (Inl e, w') | (Inr x, w') \<Rightarrow> k x w')"

text \<open>A call to foreign code that returns a value and never raises.\<close>

definition io_call :: "('w \<Rightarrow> 'a \<times> 'w) \<Rightarrow> ('a, 'w) io" where
  [io_defs]: "io_call f w = (case f w of (x, w') \<Rightarrow> (Inr x, w'))"

text \<open>A call whose result is of no interest.\<close>

definition io_do :: "('w \<Rightarrow> 'w) \<Rightarrow> (unit, 'w) io" where
  [io_defs]: "io_do f w = (Inr (), f w)"

text \<open>Reading a part of the world that a foreign call left behind, such as errno.\<close>

definition io_read :: "('w \<Rightarrow> 'a) \<Rightarrow> ('a, 'w) io" where
  [io_defs]: "io_read f w = (Inr (f w), w)"

text \<open>The value of a loop defined with \<open>partial_function (option)\<close>: not returning is a failure.\<close>

definition io_loop :: "'w \<Rightarrow> ((failure + 'a) \<times> 'w) option \<Rightarrow> (failure + 'a) \<times> 'w" where
  "io_loop w r = (case r of None \<Rightarrow> (Inl Diverges, w) | Some x \<Rightarrow> x)"

text \<open>A foreign call that leaves the part \<open>obs\<close> of the world unchanged.\<close>

definition keeps :: "('w \<Rightarrow> 'o) \<Rightarrow> ('w \<Rightarrow> 'a \<times> 'w) \<Rightarrow> bool" where
  "keeps obs f \<longleftrightarrow> (\<forall>w. obs (snd (f w)) = obs w)"

subsection \<open>Rules\<close>

lemma keepsD: "keeps obs f \<Longrightarrow> f w = (x, w') \<Longrightarrow> obs w' = obs w"
  by (metis keeps_def snd_conv)

text \<open>Composed operations keep what their parts keep.\<close>

lemma keeps_return [keeps_intros]: "keeps obs (io_return x)"
  by (simp add: keeps_def io_return_def)

lemma keeps_throw [keeps_intros]: "keeps obs (io_throw e)"
  by (simp add: keeps_def io_throw_def)

lemma keeps_call [keeps_intros]: "keeps obs f \<Longrightarrow> keeps obs (io_call f)"
  by (simp add: keeps_def io_call_def split: prod.splits) (metis snd_conv)

lemma keeps_do [keeps_intros]: "(\<And>w. obs (f w) = obs w) \<Longrightarrow> keeps obs (io_do f)"
  by (simp add: keeps_def io_do_def)

lemma keeps_bind [keeps_intros]:
  assumes "keeps obs m" and "\<And>x. keeps obs (k x)"
  shows "keeps obs (io_bind m k)"
  using assms by (simp add: keeps_def io_bind_def split: prod.splits sum.splits) (metis snd_conv)

lemma keeps_if [keeps_intros]: "(b \<Longrightarrow> keeps obs f) \<Longrightarrow> (\<not> b \<Longrightarrow> keeps obs g) \<Longrightarrow> keeps obs (if b then f else g)"
  by simp

lemma keeps_option [keeps_intros]:
  "keeps obs f \<Longrightarrow> (\<And>y. keeps obs (g y)) \<Longrightarrow> keeps obs (case x of None \<Rightarrow> f | Some y \<Rightarrow> g y)"
  by (cases x) simp_all

lemma io_return_simp [simp]: "io_return x w = (Inr x, w)"
  by (simp add: io_return_def)

lemma io_throw_simp [simp]: "io_throw e w = (Inl e, w)"
  by (simp add: io_throw_def)

lemma io_read_simp [simp]: "io_read f w = (Inr (f w), w)"
  by (simp add: io_read_def)

lemma io_do_simp [simp]: "io_do f w = (Inr (), f w)"
  by (simp add: io_do_def)

lemma io_bind_do [simp]: "io_bind (io_do f) k w = k () (f w)"
  by (simp add: io_bind_def)

lemma io_call_simp: "f w = (x, w') \<Longrightarrow> io_call f w = (Inr x, w')"
  by (simp add: io_call_def)

lemma io_bind_Inr [simp]: "m w = (Inr x, w') \<Longrightarrow> io_bind m k w = k x w'"
  by (simp add: io_bind_def)

lemma io_bind_Inl [simp]: "m w = (Inl e, w') \<Longrightarrow> io_bind m k w = (Inl e, w')"
  by (simp add: io_bind_def)

lemma io_bind_call: "io_bind (io_call f) k w = (case f w of (x, w') \<Rightarrow> k x w')"
  by (simp add: io_bind_def io_call_def split: prod.splits)

lemma io_bind_eq_Inr:
  "io_bind m k w = (Inr y, w'') \<longleftrightarrow> (\<exists>x w'. m w = (Inr x, w') \<and> k x w' = (Inr y, w''))"
  by (auto simp: io_bind_def split: prod.splits sum.splits)

lemma io_bind_eq_Inl:
  "io_bind m k w = (Inl e, w'') \<longleftrightarrow>
     m w = (Inl e, w'') \<or> (\<exists>x w'. m w = (Inr x, w') \<and> k x w' = (Inl e, w''))"
  by (auto simp: io_bind_def split: prod.splits sum.splits)

lemma io_bind_InrE [io_elims]:
  assumes "io_bind m k w = (Inr y, w'')"
  obtains x w' where "m w = (Inr x, w')" and "k x w' = (Inr y, w'')"
  using assms by (auto simp: io_bind_eq_Inr)

lemma io_call_eq [simp]: "io_call f w = (r, w') \<longleftrightarrow> (\<exists>x. f w = (x, w') \<and> r = Inr x)"
  by (auto simp: io_call_def split: prod.splits)

lemma io_loop_Some [simp]: "io_loop w (Some x) = x"
  by (simp add: io_loop_def)

lemma io_loop_None [simp]: "io_loop w None = (Inl Diverges, w)"
  by (simp add: io_loop_def)

subsection \<open>Lists and options\<close>

lemma take_append_drop_len: "length xs \<le> n \<Longrightarrow> take n (xs @ ys) = xs @ take (n - length xs) ys"
  by simp

lemma concat_map_append_singleton: "concat (map f (xs @ [x])) = concat (map f xs) @ f x"
  by simp

lemma map_upd_same_iff: "(m(k \<mapsto> v)) x = Some y \<longleftrightarrow> (if x = k then y = v else m x = Some y)"
  by auto

end
