(* ===== verification/CxxString.thy ===== *)
theory CxxString
  imports Prelude
begin

text \<open>
  The operations of \<^verbatim>\<open>std::string\<close> and of the C library's number formatting that the
  program uses: \<^verbatim>\<open>find\<close> from a position, \<^verbatim>\<open>substr(0, n)\<close>, \<^verbatim>\<open>erase(0, n)\<close>,
  \<^verbatim>\<open>resize\<close>, the buffer a foreign call writes into, \<^verbatim>\<open>std::to_string\<close>. A string is a
  list of bytes; \<^verbatim>\<open>npos\<close> is \<open>None\<close>.
\<close>

abbreviation NUL :: char where "NUL \<equiv> CHR 0x00"

definition crlf :: string where "crlf = [CHR 0x0D, CHR 0x0A]"

definition lf :: string where "lf = [CHR 0x0A]"

fun starts_with :: "string \<Rightarrow> string \<Rightarrow> bool" where
  "starts_with [] s = True"
| "starts_with (c # cs) [] = False"
| "starts_with (c # cs) (d # ds) = (c = d \<and> starts_with cs ds)"

fun search :: "string \<Rightarrow> string \<Rightarrow> nat option" where
  "search sep [] = (if sep = [] then Some 0 else None)"
| "search sep (c # cs) =
     (if starts_with sep (c # cs) then Some 0 else map_option Suc (search sep cs))"

definition str_find :: "string \<Rightarrow> string \<Rightarrow> nat \<Rightarrow> nat option" where
  "str_find s sep pos =
     (if length s < pos then None else map_option ((+) pos) (search sep (drop pos s)))"

definition substr0 :: "nat \<Rightarrow> string \<Rightarrow> string" where "substr0 n s = take n s"

definition erase0 :: "nat \<Rightarrow> string \<Rightarrow> string" where "erase0 n s = drop n s"

definition str_resize :: "nat \<Rightarrow> string \<Rightarrow> string" where
  "str_resize n s = take n s @ replicate (n - length s) NUL"

text \<open>A buffer after a foreign call wrote \<open>bytes\<close> at its front.\<close>

definition overwrite :: "string \<Rightarrow> string \<Rightarrow> string" where
  "overwrite bytes buf = bytes @ drop (length bytes) buf"

text \<open>Decimal rendering of unsigned and signed integers.\<close>

definition digit :: "nat \<Rightarrow> char" where "digit d = char_of (48 + d)"

fun show_nat :: "nat \<Rightarrow> string" where
  "show_nat n = (if n < 10 then [digit n] else show_nat (n div 10) @ [digit (n mod 10)])"

declare show_nat.simps [simp del]

definition show_int :: "int \<Rightarrow> string" where
  "show_int i = (if i < 0 then CHR ''-'' # show_nat (nat (- i)) else show_nat (nat i))"

subsection \<open>Facts\<close>

lemma starts_with_iff: "starts_with p s \<longleftrightarrow> (\<exists>t. s = p @ t)"
  by (induction p s rule: starts_with.induct) auto

lemma starts_with_take: "starts_with p s \<longleftrightarrow> take (length p) s = p"
  by (metis append_eq_conv_conj starts_with_iff append_take_drop_id)

lemma starts_with_length: "starts_with p s \<Longrightarrow> length p \<le> length s"
  by (induction p s rule: starts_with.induct) auto

lemma search_SomeD:
  "search sep s = Some j \<Longrightarrow>
     starts_with sep (drop j s) \<and> j + length sep \<le> length s \<and> (\<forall>k<j. \<not> starts_with sep (drop k s))"
proof (induction s arbitrary: j)
  case Nil
  then show ?case by (auto split: if_splits)
next
  case (Cons c cs)
  show ?case
  proof (cases "starts_with sep (c # cs)")
    case True
    with Cons.prems have "j = 0" by simp
    moreover from True have "length sep \<le> length (c # cs)"
      by (rule starts_with_length)
    ultimately show ?thesis using True by simp
  next
    case False
    with Cons.prems obtain i where i: "search sep cs = Some i" "j = Suc i" by auto
    with Cons.IH have "starts_with sep (drop i cs)" "i + length sep \<le> length cs"
      "\<forall>k<i. \<not> starts_with sep (drop k cs)" by auto
    with False i show ?thesis by (auto simp: drop_Cons' less_Suc_eq_0_disj)
  qed
qed

lemma search_NoneD: "search sep s = None \<Longrightarrow> \<not> starts_with sep (drop k s)"
proof (induction s arbitrary: k)
  case Nil
  then show ?case by (cases sep) (auto split: if_splits)
next
  case (Cons c cs)
  then show ?case by (cases k) (auto split: if_splits)
qed

lemma str_find_SomeD:
  assumes "str_find s sep i = Some j"
  shows "i \<le> j" and "j + length sep \<le> length s" and "take (length sep) (drop j s) = sep"
    and "\<And>k. i \<le> k \<Longrightarrow> k < j \<Longrightarrow> \<not> starts_with sep (drop k s)"
proof -
  from assms obtain d where d: "search sep (drop i s) = Some d" "j = i + d" and il: "i \<le> length s"
    by (auto simp: str_find_def split: if_splits)
  note sd = search_SomeD [OF d(1)]
  show "i \<le> j" by (simp add: d)
  show "j + length sep \<le> length s" using sd il by (auto simp: d)
  show "take (length sep) (drop j s) = sep"
    using sd by (simp add: d starts_with_take add.commute)
  show "\<not> starts_with sep (drop k s)" if "i \<le> k" "k < j" for k
    using sd that by (auto simp: d dest!: spec [of _ "k - i"])
qed

lemma str_find_split:
  assumes "str_find s sep i = Some j"
  shows "s = take j s @ sep @ drop (j + length sep) s"
proof -
  have "s = take j s @ take (length sep) (drop j s) @ drop (length sep) (drop j s)"
    by (metis append_take_drop_id)
  then show ?thesis using str_find_SomeD(3) [OF assms] by (simp add: add.commute)
qed

lemma str_find_NoneD: "str_find s sep i = None \<Longrightarrow> i \<le> k \<Longrightarrow> k \<le> length s \<Longrightarrow> \<not> starts_with sep (drop k s)"
  using search_NoneD [of sep "drop i s" "k - i"] by (auto simp: str_find_def split: if_splits)

text \<open>The search result is characterised by being the least match at or after the position.\<close>

lemma str_find_eqI:
  assumes "i \<le> j" and "starts_with sep (drop j s)" and "j \<le> length s"
    and "\<And>k. i \<le> k \<Longrightarrow> k < j \<Longrightarrow> \<not> starts_with sep (drop k s)"
  shows "str_find s sep i = Some j"
proof (cases "str_find s sep i")
  case None
  from str_find_NoneD [OF None assms(1,3)] assms(2) show ?thesis by simp
next
  case (Some k)
  note sd = str_find_SomeD [OF Some]
  have "starts_with sep (drop k s)" using sd(3) by (simp add: starts_with_take)
  with assms(4) [of k] sd(1) have "\<not> k < j" by blast
  moreover from sd(4) [of j] assms(1,2) have "\<not> j < k" by blast
  ultimately show ?thesis using Some by simp
qed

lemma str_find_empty: "pos \<le> length s \<Longrightarrow> str_find s [] pos = Some pos"
  by (rule str_find_eqI) auto

lemma str_resize_overwrite [simp]:
  "length bytes = n \<Longrightarrow> str_resize n (overwrite bytes buf) = bytes"
  by (simp add: str_resize_def overwrite_def)

lemma length_str_resize [simp]: "length (str_resize n s) = n"
  by (simp add: str_resize_def min_def)

lemma show_nat_nonempty: "show_nat n \<noteq> []"
  by (subst show_nat.simps) simp

lemma show_nat_length: "n < 10 ^ k \<Longrightarrow> 0 < k \<Longrightarrow> length (show_nat n) \<le> k"
proof (induction k arbitrary: n)
  case 0
  then show ?case by simp
next
  case (Suc k)
  show ?case
  proof (cases "n < 10")
    case True
    then show ?thesis by (subst show_nat.simps) simp
  next
    case False
    with Suc.prems have "0 < k" by (cases k) auto
    moreover from Suc.prems have "n div 10 < 10 ^ k" by auto
    ultimately have "length (show_nat (n div 10)) \<le> k" using Suc.IH by blast
    with False show ?thesis by (subst show_nat.simps) simp
  qed
qed

end
