(* ===== verification/Log.thy ===== *)
theory Log
  imports CxxString
begin

text \<open>
  Logging (\<^verbatim>\<open>util/log.hh\<close>). The global variables of the logger and what was written so far are the
  record \<open>logger\<close>, which is a part of the world the calls of the program act on (theory
  \<open>Os\<close>); a message is the string the formatting of its arguments gave. The service name is
  ASCII, so that its width is its length.
\<close>

subsection \<open>The logger\<close>

datatype stream = Stdout | Stderr | File nat

record logger =
  logging_color :: string
  service_name :: string
  logging_verbose :: bool
  logging_dest :: stream
  written :: "(stream \<times> string) list"

definition ESC :: char where "ESC = CHR 0x1B"

text \<open>The format \<^verbatim>\<open>{:13}\<close> of a string.\<close>

definition pad13 :: "string \<Rightarrow> string" where
  "pad13 s = s @ replicate (13 - length s) (CHR '' '')"

text \<open>A \<^verbatim>\<open>std::string\<close> printed through \<^verbatim>\<open>c_str()\<close> with the format \<^verbatim>\<open>%s\<close> ends at its first zero byte.\<close>

definition c_str :: "string \<Rightarrow> string" where
  "c_str s = takeWhile (\<lambda>c. c \<noteq> NUL) s"

definition fprintf :: "stream \<Rightarrow> string \<Rightarrow> logger \<Rightarrow> logger" where
  "fprintf f s lg = lg\<lparr>written := written lg @ [(f, s)]\<rparr>"

definition log_line :: "logger \<Rightarrow> string \<Rightarrow> string" where
  "log_line lg msg = ([ESC] @ ''['' @ logging_color lg @ ''m'' @ pad13 (service_name lg) @ '': '') @ msg @
     [ESC] @ ''[0m'' @ lf"

definition DBG :: "string \<Rightarrow> logger \<Rightarrow> logger" where
  "DBG msg lg =
     (if \<not> logging_verbose lg then lg else fprintf (logging_dest lg) (c_str (log_line lg msg)) lg)"

definition LOG :: "string \<Rightarrow> logger \<Rightarrow> logger" where
  "LOG msg lg = fprintf (logging_dest lg) (c_str (log_line lg msg)) lg"

definition ERR :: "string \<Rightarrow> logger \<Rightarrow> logger" where
  "ERR msg lg = fprintf Stderr (c_str (service_name lg) @ '': '' @ c_str msg @ lf) lg"

text \<open>A logger with the values the program starts with and nothing written.\<close>

definition init_logger :: logger where
  "init_logger = \<lparr> logging_color = ''0'', service_name = ''(undefined)'', logging_verbose = False,
     logging_dest = Stdout, written = [] \<rparr>"

subsection \<open>The theorems\<close>

text \<open>
  What a message looks like: with names and message free of zero bytes, \<^verbatim>\<open>LOG\<close> writes one line to the
  chosen destination, \<^verbatim>\<open>DBG\<close> writes the same line exactly when logging is verbose, and the message
  stands in the line between the prefix and the code that resets the colour, from where it can be
  cut out again.
\<close>

theorem LOG_line:
  assumes "NUL \<notin> set (logging_color lg)" and "NUL \<notin> set (service_name lg)" and "NUL \<notin> set msg"
  shows "written (LOG msg lg) = written lg @ [(logging_dest lg, log_line lg msg)] \<and>
    DBG msg lg = (if logging_verbose lg then LOG msg lg else lg) \<and>
    take (length msg) (drop (length (logging_color lg) + max 13 (length (service_name lg)) + 5) (log_line lg msg)) = msg"
proof -
  have "NUL \<notin> set (log_line lg msg)" using assms by (simp add: log_line_def ESC_def pad13_def lf_def)
  then have "c_str (log_line lg msg) = log_line lg msg" by (auto simp: c_str_def takeWhile_eq_all_conv)
  moreover have "length ([ESC] @ ''['' @ logging_color lg @ ''m'' @ pad13 (service_name lg) @ '': '') =
      length (logging_color lg) + max 13 (length (service_name lg)) + 5"
    by (simp add: pad13_def max_def)
  then have "take (length msg) (drop (length (logging_color lg) + max 13 (length (service_name lg)) + 5) (log_line lg msg)) = msg"
    unfolding log_line_def by (metis append_eq_conv_conj)
  ultimately show ?thesis by (simp add: LOG_def DBG_def fprintf_def)
qed

theorem LOG_line_witness:
  "written (LOG ''ready'' init_logger) = [(Stdout, log_line init_logger ''ready'')] \<and>
   DBG ''ready'' init_logger = init_logger"
  using LOG_line [of init_logger "''ready''"] by (simp add: init_logger_def)

text \<open>A zero byte in a message cuts the line: the rest of the message, the reset of the colour and the end of the line are lost.\<close>

lemma LOG_zero_byte:
  assumes "NUL \<notin> set (logging_color lg)" and "NUL \<notin> set (service_name lg)" and "NUL \<notin> set a"
  shows "written (LOG (a @ NUL # b) lg) =
    written lg @ [(logging_dest lg, [ESC] @ ''['' @ logging_color lg @ ''m'' @ pad13 (service_name lg) @ '': '' @ a)]"
proof -
  have "takeWhile (\<lambda>c. c \<noteq> NUL) (p @ NUL # q) = p" if "NUL \<notin> set p" for p q
    using that by (induction p) auto
  from this [of "[ESC] @ ''['' @ logging_color lg @ ''m'' @ pad13 (service_name lg) @ '': '' @ a" "b @ [ESC] @ ''[0m'' @ lf"]
  show ?thesis using assms by (simp add: LOG_def fprintf_def c_str_def log_line_def ESC_def pad13_def)
qed

end
