(* ===== verification/Os.thy ===== *)
theory Os
  imports Log
begin

unbundle bit_operations_syntax

text \<open>
  The interface to the operating system's sockets (\<^verbatim>\<open>util/socket.hh\<close>): descriptors, errno,
  and the calls the program makes. The calls are code outside the repository, so they are a
  parameter: a value of the record \<open>os\<close> whose fields are the calls, functions on an
  arbitrary type \<open>'w\<close> of worlds. The global variables of the program's logger are a part of the
  world too, read by \<open>os_logger\<close> and written by \<open>os_set_logger\<close>. Two fields, \<open>os_open\<close> and \<open>os_sent\<close>, are
  called by no definition: they observe the descriptor table and the bytes handed to the
  peer, and the contracts at the end of this theory state the documented behaviour of the
  calls in terms of them.
\<close>

type_synonym SOCKET = "32 word"

definition INVALID_SOCKET :: SOCKET where "INVALID_SOCKET = -1"

definition SOCKET_ERROR :: int where "SOCKET_ERROR = -1"

datatype platform = Posix | Win32

text \<open>The values of errno the program tells apart; every other value is \<open>Errno n\<close>.\<close>

datatype errno = EAGAIN | EINTR | Errno nat

definition WSAEWOULDBLOCK :: int where "WSAEWOULDBLOCK = 10035"

record 'w os =
  os_platform :: platform
  os_errno :: "'w \<Rightarrow> errno"
  os_strerror :: "errno \<Rightarrow> string"
  os_WSAGetLastError :: "'w \<Rightarrow> int"
  os_recv :: "SOCKET \<Rightarrow> nat \<Rightarrow> 'w \<Rightarrow> (int \<times> string) \<times> 'w"
  os_send :: "SOCKET \<Rightarrow> string \<Rightarrow> 'w \<Rightarrow> int \<times> 'w"
  os_close :: "SOCKET \<Rightarrow> 'w \<Rightarrow> int \<times> 'w"
  os_fcntl_getfl :: "SOCKET \<Rightarrow> 'w \<Rightarrow> int \<times> 'w"
  os_fcntl_setfl :: "SOCKET \<Rightarrow> int \<Rightarrow> 'w \<Rightarrow> int \<times> 'w"
  os_ioctl_fionbio :: "SOCKET \<Rightarrow> 'w \<Rightarrow> int \<times> 'w"
  os_O_NONBLOCK :: int
  os_logger :: "'w \<Rightarrow> logger"
  os_set_logger :: "logger \<Rightarrow> 'w \<Rightarrow> 'w"
  os_open :: "'w \<Rightarrow> SOCKET set"
  os_sent :: "'w \<Rightarrow> SOCKET \<Rightarrow> string"

text \<open>\<^verbatim>\<open>throw E(prefix + strerror(errno))\<close>\<close>

definition throw_errno :: "('w, 'z) os_scheme \<Rightarrow> (string \<Rightarrow> failure) \<Rightarrow> string \<Rightarrow> ('a, 'w) io" where
  "throw_errno os E prefix =
     io_bind (io_read (os_errno os)) (\<lambda>e. io_throw (E (prefix @ os_strerror os e)))"

text \<open>A message of the program: one of the functions of \<^verbatim>\<open>util/log.hh\<close> applied to the global logger.\<close>

definition log_with :: "('w, 'z) os_scheme \<Rightarrow> (logger \<Rightarrow> logger) \<Rightarrow> 'w \<Rightarrow> 'w" where
  "log_with os f w = os_set_logger os (f (os_logger os w)) w"

text \<open>\<^verbatim>\<open>close_socket(fd)\<close>, its return value ignored.\<close>

definition close_socket :: "('w, 'z) os_scheme \<Rightarrow> SOCKET \<Rightarrow> 'w \<Rightarrow> 'w" where
  "close_socket os fd w = snd (os_close os fd w)"

definition socket_mark_as_nonblocking :: "('w, 'z) os_scheme \<Rightarrow> SOCKET \<Rightarrow> (unit, 'w) io" where
  "socket_mark_as_nonblocking os fd =
     (case os_platform os of
        Win32 \<Rightarrow>
          io_bind (io_call (os_ioctl_fionbio os fd)) (\<lambda>r.
            if r \<noteq> 0 then io_throw (NonRecoverableException ''error marking socket as non-blocking'')
            else io_return ())
      | Posix \<Rightarrow>
          io_bind (io_call (os_fcntl_getfl os fd)) (\<lambda>flags.
            if flags = -1 then throw_errno os NonRecoverableException ''fcntl: {}''
            else io_bind (io_call (os_fcntl_setfl os fd (flags OR os_O_NONBLOCK os))) (\<lambda>r.
              if r < 0
              then io_throw (NonRecoverableException ''error marking socket as non-blocking'')
              else io_return ())))"

subsection \<open>Documented behaviour of the calls\<close>

text \<open>\<^verbatim>\<open>recv\<close> returns the number of bytes it stored, at most the number asked for.\<close>

definition recv_contract :: "('w, 'z) os_scheme \<Rightarrow> bool" where
  [contract_defs]: "recv_contract os \<longleftrightarrow>
     (\<forall>fd n w r bytes w'. os_recv os fd n w = ((r, bytes), w') \<longrightarrow>
        r \<le> int n \<and> length bytes = nat r)"

text \<open>
  \<^verbatim>\<open>send\<close> hands the peer a prefix of the data and returns its length; a failing call
  (negative result) hands over nothing.
\<close>

definition send_contract :: "('w, 'z) os_scheme \<Rightarrow> bool" where
  [contract_defs]: "send_contract os \<longleftrightarrow>
     (\<forall>fd data w r w'. os_send os fd data w = (r, w') \<longrightarrow>
        r \<le> int (length data) \<and>
        os_sent os w' = (os_sent os w)(fd := os_sent os w fd @ take (nat r) data))"

text \<open>\<^verbatim>\<open>send\<close> of a non-empty buffer on a stream socket never returns zero.\<close>

definition send_progress :: "('w, 'z) os_scheme \<Rightarrow> bool" where
  [contract_defs]: "send_progress os \<longleftrightarrow>
     (\<forall>fd data w. data \<noteq> [] \<longrightarrow> fst (os_send os fd data w) \<noteq> 0)"

text \<open>The calls on an established connection leave the descriptor table alone, closing removes one entry.\<close>

definition fd_table_contract :: "('w, 'z) os_scheme \<Rightarrow> bool" where
  [contract_defs]: "fd_table_contract os \<longleftrightarrow>
     (\<forall>fd n w. os_open os (snd (os_recv os fd n w)) = os_open os w) \<and>
     (\<forall>fd data w. os_open os (snd (os_send os fd data w)) = os_open os w) \<and>
     (\<forall>fd w. os_open os (snd (os_close os fd w)) = os_open os w - {fd}) \<and>
     (\<forall>fd w. os_open os (snd (os_fcntl_getfl os fd w)) = os_open os w) \<and>
     (\<forall>fd fl w. os_open os (snd (os_fcntl_setfl os fd fl w)) = os_open os w) \<and>
     (\<forall>fd w. os_open os (snd (os_ioctl_fionbio os fd w)) = os_open os w) \<and>
     (\<forall>lg w. os_open os (os_set_logger os lg w) = os_open os w)"

text \<open>The logger's variables: what is written is read back.\<close>

definition logger_contract :: "('w, 'z) os_scheme \<Rightarrow> bool" where
  [contract_defs]: "logger_contract os \<longleftrightarrow> (\<forall>lg w. os_logger os (os_set_logger os lg w) = lg)"

subsection \<open>Facts\<close>

lemma throw_errno_simp [simp]:
  "throw_errno os E p w = (Inl (E (p @ os_strerror os (os_errno os w))), w)"
  by (simp add: throw_errno_def)

lemma recv_contractD:
  assumes "recv_contract os" and "os_recv os fd n w = ((r, bytes), w')"
  shows "length bytes = nat r" and "r \<le> int n"
  using assms unfolding recv_contract_def by blast+

lemma close_socket_open:
  "fd_table_contract os \<Longrightarrow> os_open os (close_socket os fd w) = os_open os w - {fd}"
  by (simp add: fd_table_contract_def close_socket_def)

lemma log_open [simp]: "fd_table_contract os \<Longrightarrow> os_open os (log_with os f w) = os_open os w"
  by (simp add: fd_table_contract_def log_with_def)

lemma log_keeps: "(\<And>lg w. obs (os_set_logger os lg w) = obs w) \<Longrightarrow> obs (log_with os f w) = obs w"
  by (simp add: log_with_def)

text \<open>While logging is not verbose, a debug message does nothing but rewrite the variables.\<close>

lemma log_quiet:
  "\<not> logging_verbose (os_logger os w) \<Longrightarrow> log_with os (DBG msg) w = os_set_logger os (os_logger os w) w"
  by (simp add: log_with_def DBG_def)

lemma mark_nonblocking_keeps:
  assumes "keeps obs (os_fcntl_getfl os fd)" and "\<And>fl. keeps obs (os_fcntl_setfl os fd fl)"
    and "keeps obs (os_ioctl_fionbio os fd)" and "socket_mark_as_nonblocking os fd w = (r, w')"
  shows "obs w' = obs w"
  using assms(4) keepsD [OF assms(1)] keepsD [OF assms(2)] keepsD [OF assms(3)]
  by (cases "os_platform os")
    (auto simp: socket_mark_as_nonblocking_def io_bind_call split: prod.splits if_splits)

lemma mark_nonblocking_open:
  assumes "fd_table_contract os" and "socket_mark_as_nonblocking os fd w = (r, w')"
  shows "os_open os w' = os_open os w"
  by (rule mark_nonblocking_keeps [OF _ _ _ assms(2)])
    (use assms(1) in \<open>simp_all add: fd_table_contract_def keeps_def\<close>)

lemma mark_nonblocking_failure:
  "socket_mark_as_nonblocking os fd w = (Inl e, w') \<Longrightarrow> \<exists>m. e = NonRecoverableException m"
  by (cases "os_platform os")
    (auto simp: socket_mark_as_nonblocking_def io_bind_call split: prod.splits if_splits)

text \<open>
  On success the descriptor's flags are the old ones with the non-blocking bit added: every
  other flag is kept.
\<close>

lemma mark_nonblocking_posix:
  assumes "os_platform os = Posix" and "socket_mark_as_nonblocking os fd w = (Inr (), w')"
  obtains flags w1 where "os_fcntl_getfl os fd w = (flags, w1)" and "flags \<noteq> -1"
    and "0 \<le> fst (os_fcntl_setfl os fd (flags OR os_O_NONBLOCK os) w1)"
    and "w' = snd (os_fcntl_setfl os fd (flags OR os_O_NONBLOCK os) w1)"
  using assms
  by (auto simp: socket_mark_as_nonblocking_def io_bind_call split: prod.splits if_splits)

subsection \<open>A concrete environment\<close>

text \<open>
  A world small enough to compute with, which shows that the contracts can hold together:
  scripts of what the next calls return, the descriptor table and the bytes sent. A receive
  with nothing scripted fails with \<open>EAGAIN\<close>, a send with nothing scripted takes all of
  the data.
\<close>

record sim =
  sim_recvs :: "string list"
  sim_sends :: "int list"
  sim_out :: "SOCKET \<Rightarrow> string"
  sim_open :: "SOCKET set"
  sim_errno :: errno
  sim_logger :: logger

definition sim_recv :: "SOCKET \<Rightarrow> nat \<Rightarrow> 'z sim_scheme \<Rightarrow> (int \<times> string) \<times> 'z sim_scheme" where
  "sim_recv fd n w = (case sim_recvs w of
     [] \<Rightarrow> ((-1, ''''), w\<lparr>sim_errno := EAGAIN\<rparr>)
   | b # bs \<Rightarrow> ((int (length (take n b)), take n b),
       w\<lparr>sim_recvs := (if n < length b then drop n b # bs else bs)\<rparr>))"

definition sim_send :: "SOCKET \<Rightarrow> string \<Rightarrow> 'z sim_scheme \<Rightarrow> int \<times> 'z sim_scheme" where
  "sim_send fd data w =
     (let r = (case sim_sends w of [] \<Rightarrow> int (length data)
               | x # _ \<Rightarrow> if x = 0 then -1 else min x (int (length data)))
      in (r, w\<lparr>sim_sends := tl (sim_sends w),
               sim_out := (sim_out w)(fd := sim_out w fd @ take (nat r) data),
               sim_errno := Errno 32\<rparr>))"

definition sim_os :: "('z sim_scheme) os" where
  "sim_os = \<lparr> os_platform = Posix, os_errno = sim_errno, os_strerror = (\<lambda>e. ''error''),
     os_WSAGetLastError = (\<lambda>w. 0), os_recv = sim_recv, os_send = sim_send,
     os_close = (\<lambda>fd w. (0, w\<lparr>sim_open := sim_open w - {fd}\<rparr>)),
     os_fcntl_getfl = (\<lambda>fd w. (2, w)), os_fcntl_setfl = (\<lambda>fd fl w. (0, w)),
     os_ioctl_fionbio = (\<lambda>fd w. (0, w)), os_O_NONBLOCK = 2048,
     os_logger = sim_logger, os_set_logger = (\<lambda>lg w. w\<lparr>sim_logger := lg\<rparr>),
     os_open = sim_open, os_sent = sim_out \<rparr>"

definition sim_world :: sim where
  "sim_world = \<lparr> sim_recvs = [], sim_sends = [], sim_out = (\<lambda>_. ''''), sim_open = {},
     sim_errno = Errno 0, sim_logger = init_logger \<rparr>"

lemma sim_recv_contract: "recv_contract sim_os"
  by (auto simp: recv_contract_def sim_os_def sim_recv_def split: list.splits)

lemma sim_send_contract: "send_contract sim_os"
  by (auto simp: send_contract_def sim_os_def sim_send_def Let_def split: list.splits if_splits)

lemma sim_send_progress: "send_progress sim_os"
  by (auto simp: send_progress_def sim_os_def sim_send_def Let_def min_def split: list.splits)

lemma sim_fd_table_contract: "fd_table_contract sim_os"
  by (auto simp: fd_table_contract_def sim_os_def sim_send_def sim_recv_def Let_def
      split: list.splits)

lemmas sim_contracts = sim_recv_contract sim_send_contract sim_send_progress sim_fd_table_contract

lemma sim_logger_contract: "logger_contract sim_os"
  by (simp add: logger_contract_def sim_os_def)

lemmas sim_eval = sim_os_def sim_world_def sim_recv_def sim_send_def

end
