(* ===== verification/Connection.thy ===== *)
theory Connection
  imports Os
begin

text \<open>
  The server side of a connection: class \<^verbatim>\<open>Connection\<close> (\<^verbatim>\<open>server/connection.hh\<close>) with its
  two subclasses \<^verbatim>\<open>TCPConnection\<close> and \<^verbatim>\<open>SSLConnection\<close>. OpenSSL is code outside the
  repository: the record \<open>openssl\<close> holds its calls. The virtual interface is the locale
  \<open>connection_class\<close>, interpreted for both subclasses.
\<close>

subsection \<open>OpenSSL, a parameter\<close>

type_synonym SSL = nat

type_synonym SSL_CTX = nat

text \<open>
  \<open>ssl_print_errors\<close> is \<^verbatim>\<open>ERR_print_errors_cb\<close> with a callback that raises: the text of
  the first queued error, if there is one. \<open>ssl_sent\<close> observes the plaintext accepted for
  transmission and is called by no definition.
\<close>

record 'w openssl =
  ssl_new :: "SSL_CTX \<Rightarrow> 'w \<Rightarrow> SSL \<times> 'w"
  ssl_set_fd :: "SSL \<Rightarrow> SOCKET \<Rightarrow> 'w \<Rightarrow> int \<times> 'w"
  ssl_accept :: "SSL \<Rightarrow> 'w \<Rightarrow> int \<times> 'w"
  ssl_print_errors :: "'w \<Rightarrow> string option \<times> 'w"
  ssl_read :: "SSL \<Rightarrow> int \<Rightarrow> 'w \<Rightarrow> (int \<times> string) \<times> 'w"
  ssl_write :: "SSL \<Rightarrow> string \<Rightarrow> int \<Rightarrow> 'w \<Rightarrow> int \<times> 'w"
  ssl_shutdown :: "SSL \<Rightarrow> 'w \<Rightarrow> int \<times> 'w"
  ssl_free :: "SSL \<Rightarrow> 'w \<Rightarrow> 'w"
  ssl_sent :: "'w \<Rightarrow> SSL \<Rightarrow> string"

text \<open>The conversion \<^verbatim>\<open>(int) n\<close> of a size: the low 32 bits read as two's complement.\<close>

definition c_int :: "nat \<Rightarrow> int" where
  "c_int n = sint (word_of_nat n :: 32 word)"

subsection \<open>Receiving\<close>

definition RECV_BUF_SZ :: nat where "RECV_BUF_SZ = 16 * 1024"

text \<open>
  What every \<^verbatim>\<open>recv\<close> method does with the result \<open>r\<close> of the system call and the buffer it
  filled.
\<close>

definition recv_result :: "('w, 'z) os_scheme \<Rightarrow> int \<Rightarrow> string \<Rightarrow> (string, 'w) io" where
  "recv_result os r buf =
     (if os_platform os = Win32 \<and> r = SOCKET_ERROR then
        io_bind (io_read (os_WSAGetLastError os)) (\<lambda>err.
          if err = WSAEWOULDBLOCK then io_return ''''
          else io_throw (RuntimeError (''recv error: '' @ show_int err)))
      else if r < 0 then
        io_bind (io_read (os_errno os)) (\<lambda>e.
          if e = EAGAIN then io_return ''''
          else throw_errno os RuntimeError ''recv error: '')
      else if r = 0 then io_return ''''
      else io_return (str_resize (nat r) buf))"

definition TCPConnection_recv :: "('w, 'z) os_scheme \<Rightarrow> SOCKET \<Rightarrow> (string, 'w) io" where
  "TCPConnection_recv os fd =
     io_bind (io_call (os_recv os fd RECV_BUF_SZ)) (\<lambda>(r, bytes).
       recv_result os r (overwrite bytes (replicate RECV_BUF_SZ NUL)))"

definition SSLConnection_recv ::
  "('w, 'z) os_scheme \<Rightarrow> ('w, 'y) openssl_scheme \<Rightarrow> SSL \<Rightarrow> (string, 'w) io" where
  "SSLConnection_recv os sl ssl =
     io_bind (io_call (ssl_read sl ssl (c_int RECV_BUF_SZ))) (\<lambda>(r, bytes).
       recv_result os r (overwrite bytes (replicate RECV_BUF_SZ NUL)))"

subsection \<open>Sending\<close>

text \<open>
  The loop of every \<^verbatim>\<open>send\<close> method: each round passes the whole data from its first byte,
  whatever \<open>pos\<close> is. \<open>call\<close> is the system call on the data, \<open>err\<close> the exception raised
  when it returns a negative value.
\<close>

partial_function (option) send_loop ::
  "('w \<Rightarrow> int \<times> 'w) \<Rightarrow> ('w \<Rightarrow> failure) \<Rightarrow> nat \<Rightarrow> nat \<Rightarrow> 'w \<Rightarrow> ((failure + unit) \<times> 'w) option"
where
  "send_loop call err len pos w =
     (if pos < len then
        (case call w of (r, w') \<Rightarrow>
           if r < 0 then Some (Inl (err w'), w')
           else send_loop call err len (pos + nat r) w')
      else Some (Inr (), w))"

definition send_error :: "('w, 'z) os_scheme \<Rightarrow> 'w \<Rightarrow> failure" where
  "send_error os w = RuntimeError (''send error: '' @ os_strerror os (os_errno os w))"

definition TCPConnection_send :: "('w, 'z) os_scheme \<Rightarrow> SOCKET \<Rightarrow> string \<Rightarrow> (unit, 'w) io" where
  "TCPConnection_send os fd data w =
     io_loop w (send_loop (os_send os fd data) (send_error os) (length data) 0 w)"

definition SSLConnection_send ::
  "('w, 'z) os_scheme \<Rightarrow> ('w, 'y) openssl_scheme \<Rightarrow> SSL \<Rightarrow> string \<Rightarrow> (unit, 'w) io" where
  "SSLConnection_send os sl ssl data w =
     io_loop w (send_loop (ssl_write sl ssl data (c_int (length data))) (send_error os)
       (length data) 0 w)"

subsection \<open>Construction, destruction and dynamic dispatch\<close>

datatype connection =
    TCPConnection SOCKET
  | SSLConnection SOCKET SSL

text \<open>The callback for errors of OpenSSL, the static function \<^verbatim>\<open>err\<close>.\<close>

definition sslconnection_err :: "('w, 'z) os_scheme \<Rightarrow> string \<Rightarrow> ('a, 'w) io" where
  "sslconnection_err os str =
     io_bind (io_do (log_with os (ERR (''ssl server connection: '' @ str)))) (\<lambda>_.
       io_throw (RuntimeError (''ssl server: {}'' @ str)))"

text \<open>
  When the body of the constructor raises, the base class is already constructed and its
  destructor closes the descriptor; the SSL object is not freed.
\<close>

definition SSLConnection_new ::
  "('w, 'z) os_scheme \<Rightarrow> ('w, 'y) openssl_scheme \<Rightarrow> SOCKET \<Rightarrow> SSL_CTX \<Rightarrow> (connection, 'w) io" where
  "SSLConnection_new os sl fd ctx =
     io_bind (io_call (ssl_new sl ctx)) (\<lambda>ssl.
     io_bind (io_call (ssl_set_fd sl ssl fd)) (\<lambda>_.
     io_bind (io_call (ssl_accept sl ssl)) (\<lambda>r.
       if r \<le> 0 then
         io_bind (io_call (ssl_print_errors sl)) (\<lambda>msg. case msg of
           Some str \<Rightarrow> (\<lambda>w. case sslconnection_err os str w of (r, w') \<Rightarrow> (r, close_socket os fd w'))
         | None \<Rightarrow> io_return (SSLConnection fd ssl))
       else io_return (SSLConnection fd ssl))))"

fun connection_fd :: "connection \<Rightarrow> SOCKET" where
  "connection_fd (TCPConnection fd) = fd"
| "connection_fd (SSLConnection fd ssl) = fd"

fun connection_recv ::
  "('w, 'z) os_scheme \<Rightarrow> ('w, 'y) openssl_scheme \<Rightarrow> connection \<Rightarrow> (string, 'w) io" where
  "connection_recv os sl (TCPConnection fd) = TCPConnection_recv os fd"
| "connection_recv os sl (SSLConnection fd ssl) = SSLConnection_recv os sl ssl"

fun connection_send ::
  "('w, 'z) os_scheme \<Rightarrow> ('w, 'y) openssl_scheme \<Rightarrow> connection \<Rightarrow> string \<Rightarrow> (unit, 'w) io" where
  "connection_send os sl (TCPConnection fd) = TCPConnection_send os fd"
| "connection_send os sl (SSLConnection fd ssl) = SSLConnection_send os sl ssl"

text \<open>The destructors: the subclass first (shutdown and free), then \<^verbatim>\<open>~Connection\<close>.\<close>

fun connection_destroy ::
  "('w, 'z) os_scheme \<Rightarrow> ('w, 'y) openssl_scheme \<Rightarrow> connection \<Rightarrow> 'w \<Rightarrow> 'w" where
  "connection_destroy os sl (TCPConnection fd) w = close_socket os fd w"
| "connection_destroy os sl (SSLConnection fd ssl) w =
     close_socket os fd (ssl_free sl ssl (snd (ssl_shutdown sl ssl w)))"

lemma sslconnection_err_simp [simp]:
  "sslconnection_err os str w = (Inl (RuntimeError (''ssl server: {}'' @ str)), log_with os (ERR (''ssl server connection: '' @ str)) w)"
  by (simp add: sslconnection_err_def)

subsection \<open>Documented behaviour of the OpenSSL calls\<close>

definition ssl_read_contract :: "('w, 'y) openssl_scheme \<Rightarrow> bool" where
  [contract_defs]: "ssl_read_contract sl \<longleftrightarrow>
     (\<forall>ssl n w r bytes w'. ssl_read sl ssl n w = ((r, bytes), w') \<longrightarrow>
        r \<le> max 0 n \<and> length bytes = nat r)"

definition ssl_write_contract :: "('w, 'y) openssl_scheme \<Rightarrow> bool" where
  [contract_defs]: "ssl_write_contract sl \<longleftrightarrow>
     (\<forall>ssl data n w r w'. ssl_write sl ssl data n w = (r, w') \<longrightarrow>
        r \<le> max 0 n \<and>
        ssl_sent sl w' = (ssl_sent sl w)(ssl := ssl_sent sl w ssl @ take (nat r) data))"

text \<open>OpenSSL works on its own objects and leaves the descriptor table alone.\<close>

definition ssl_fd_contract :: "('w, 'z) os_scheme \<Rightarrow> ('w, 'y) openssl_scheme \<Rightarrow> bool" where
  [contract_defs]: "ssl_fd_contract os sl \<longleftrightarrow>
     (\<forall>ctx w. os_open os (snd (ssl_new sl ctx w)) = os_open os w) \<and>
     (\<forall>ssl fd w. os_open os (snd (ssl_set_fd sl ssl fd w)) = os_open os w) \<and>
     (\<forall>ssl w. os_open os (snd (ssl_accept sl ssl w)) = os_open os w) \<and>
     (\<forall>w. os_open os (snd (ssl_print_errors sl w)) = os_open os w) \<and>
     (\<forall>ssl n w. os_open os (snd (ssl_read sl ssl n w)) = os_open os w) \<and>
     (\<forall>ssl data n w. os_open os (snd (ssl_write sl ssl data n w)) = os_open os w) \<and>
     (\<forall>ssl w. os_open os (snd (ssl_shutdown sl ssl w)) = os_open os w) \<and>
     (\<forall>ssl w. os_open os (ssl_free sl ssl w) = os_open os w)"

text \<open>The calls on an established connection, without closing it, leave \<open>obs\<close> unchanged.\<close>

definition calls_keep :: "('w, 'z) os_scheme \<Rightarrow> ('w, 'y) openssl_scheme \<Rightarrow> ('w \<Rightarrow> 'o) \<Rightarrow> bool" where
  [contract_defs]: "calls_keep os sl obs \<longleftrightarrow>
     (\<forall>fd n. keeps obs (os_recv os fd n)) \<and> (\<forall>fd d. keeps obs (os_send os fd d)) \<and>
     (\<forall>fd. keeps obs (os_fcntl_getfl os fd)) \<and> (\<forall>fd fl. keeps obs (os_fcntl_setfl os fd fl)) \<and>
     (\<forall>fd. keeps obs (os_ioctl_fionbio os fd)) \<and>
     (\<forall>ctx. keeps obs (ssl_new sl ctx)) \<and> (\<forall>ssl fd. keeps obs (ssl_set_fd sl ssl fd)) \<and>
     (\<forall>ssl. keeps obs (ssl_accept sl ssl)) \<and> keeps obs (ssl_print_errors sl) \<and>
     (\<forall>ssl n. keeps obs (ssl_read sl ssl n)) \<and> (\<forall>ssl d n. keeps obs (ssl_write sl ssl d n)) \<and>
     (\<forall>ssl. keeps obs (ssl_shutdown sl ssl)) \<and> (\<forall>ssl w. obs (ssl_free sl ssl w) = obs w) \<and>
     (\<forall>lg w. obs (os_set_logger os lg w) = obs w)"

lemma calls_keepD:
  assumes "calls_keep os sl obs"
  shows "keeps obs (os_recv os fd n)" "keeps obs (os_send os fd d)" "keeps obs (os_fcntl_getfl os fd)"
    "keeps obs (os_fcntl_setfl os fd fl)" "keeps obs (os_ioctl_fionbio os fd)" "keeps obs (ssl_new sl ctx)"
    "keeps obs (ssl_set_fd sl ssl fd)" "keeps obs (ssl_accept sl ssl)" "keeps obs (ssl_print_errors sl)"
    "keeps obs (ssl_read sl ssl i)" "keeps obs (ssl_write sl ssl d i)" "keeps obs (ssl_shutdown sl ssl)"
    "obs (ssl_free sl ssl w) = obs w" "obs (log_with os f w) = obs w"
  using assms unfolding calls_keep_def log_with_def by auto

lemma calls_keep_open:
  "fd_table_contract os \<Longrightarrow> ssl_fd_contract os sl \<Longrightarrow> calls_keep os sl (os_open os)"
  by (simp add: calls_keep_def fd_table_contract_def ssl_fd_contract_def keeps_def)

subsection \<open>Facts on receiving\<close>

lemma recv_result_cases:
  assumes "recv_result os r buf w = (res, w')"
  shows "w' = w \<and> (res = Inr '''' \<or> (0 < r \<and> res = Inr (str_resize (nat r) buf)) \<or>
           (r < 0 \<and> (\<exists>m. res = Inl (RuntimeError m))))"
  using assms
  by (auto simp: recv_result_def SOCKET_ERROR_def split: if_splits)

lemma recv_result_failure:
  "recv_result os r buf w = (Inl e, w') \<Longrightarrow> \<exists>m. e = RuntimeError m"
  by (drule recv_result_cases) auto

lemma recv_result_data:
  assumes "0 < r" shows "recv_result os r buf w = (Inr (str_resize (nat r) buf), w)"
  using assms by (simp add: recv_result_def SOCKET_ERROR_def)

lemma recv_result_length:
  "recv_result os r buf w = (Inr s, w') \<Longrightarrow> length s \<le> nat r"
  by (drule recv_result_cases) auto

lemma c_int_small: "n < 2 ^ 31 \<Longrightarrow> c_int n = int n"
  using int_word_sint [where x = "int n" and 'a = 32] by (simp add: c_int_def)

text \<open>What a receive that does not raise returns is what the call stored.\<close>

lemma recv_result_bytes:
  assumes "recv_result os r (overwrite b (replicate n NUL)) w = (Inr d, w')" and "length b = nat r" and "r \<le> int n"
  shows "d = b \<and> w' = w"
  using assms by (auto simp: recv_result_def SOCKET_ERROR_def split: if_splits)

lemma c_int_le: "c_int n \<le> int n"
proof (cases "n < 2 ^ 31")
  case True
  then show ?thesis by (simp add: c_int_small)
next
  case False
  with sint_lt [of "word_of_nat n :: 32 word"] show ?thesis by (simp add: c_int_def)
qed

lemma c_int_buf: "c_int RECV_BUF_SZ = int RECV_BUF_SZ"
  by (rule c_int_small) (simp add: RECV_BUF_SZ_def)

subsection \<open>Facts on the send loop\<close>

lemma send_loop_done: "len \<le> pos \<Longrightarrow> send_loop call err len pos w = Some (Inr (), w)"
  by (simp add: send_loop.simps)

lemma send_loop_fail:
  "pos < len \<Longrightarrow> call w = (r, w') \<Longrightarrow> r < 0 \<Longrightarrow>
     send_loop call err len pos w = Some (Inl (err w'), w')"
  by (simp add: send_loop.simps)

lemma send_loop_round:
  "pos < len \<Longrightarrow> call w = (r, w') \<Longrightarrow> 0 \<le> r \<Longrightarrow>
     send_loop call err len pos w = send_loop call err len (pos + nat r) w'"
  by (subst send_loop.simps) simp

text \<open>A call that always makes progress or fails ends the loop.\<close>

lemma send_loop_total:
  assumes "\<And>w. fst (call w) \<noteq> 0"
  shows "\<exists>res. send_loop call err len pos w = Some res"
proof (induction "len - pos" arbitrary: pos w rule: less_induct)
  case less
  obtain r w' where c: "call w = (r, w')" by fastforce
  with assms [of w] have "r \<noteq> 0" by simp
  show ?case
  proof (cases "pos < len")
    case False
    then show ?thesis by (simp add: send_loop_done)
  next
    case True
    show ?thesis
    proof (cases "r < 0")
      case True
      with \<open>pos < len\<close> c show ?thesis by (simp add: send_loop_fail)
    next
      case False
      with \<open>r \<noteq> 0\<close> \<open>pos < len\<close> have "len - (pos + nat r) < len - pos" by simp
      from less.hyps [OF this] show ?thesis
        using False \<open>pos < len\<close> c by (simp add: send_loop_round)
    qed
  qed
qed

text \<open>A call that always returns zero keeps the loop running for ever.\<close>

lemma send_loop_stuck:
  assumes "\<And>w. fst (call w) = 0" and "pos < len"
  shows "send_loop call err len pos w = None"
proof -
  let ?P = "\<lambda>call err len pos w res. (\<forall>w. fst (call w) = 0) \<longrightarrow> \<not> pos < len"
  have "?P call err len pos w res" if ret: "send_loop call err len pos w = Some res" for res
  proof (rule send_loop.raw_induct [where P = ?P, OF _ ret], intro impI notI)
    fix loop call err len pos w res
    assume IH: "\<And>call err len pos w res. loop call err len pos w = Some res \<Longrightarrow>
        (\<forall>w. fst (call w) = 0) \<longrightarrow> \<not> pos < len"
      and eq: "(if pos < len then case call w of (r, w') \<Rightarrow>
          if r < 0 then Some (Inl (err w'), w') else loop call err len (pos + nat r) w'
        else Some (Inr (), w)) = Some res"
      and z: "\<forall>w. fst (call w) = (0::int)" and p: "pos < len"
    obtain w' where "call w = (0, w')" using z by (metis prod.collapse)
    with eq p have "loop call err len pos w' = Some res" by simp
    from IH [OF this] z p show False by simp
  qed
  with assms show ?thesis by (cases "send_loop call err len pos w") auto
qed

lemma send_loop_failure:
  assumes "send_loop call err len pos w = Some (Inl e, w')"
  shows "e = err w'"
proof -
  let ?P = "\<lambda>call err len pos w (res :: (failure + unit) \<times> _). \<forall>e w'. res = (Inl e, w') \<longrightarrow> e = err w'"
  have "?P call err len pos w (Inl e, w')"
    by (rule send_loop.raw_induct [where P = ?P, OF _ assms]) (auto split: if_splits prod.splits)
  then show ?thesis by simp
qed

text \<open>What every call leaves unchanged, the loop leaves unchanged.\<close>

lemma send_loop_frame:
  assumes ret: "send_loop call err len pos w = Some (res, w')"
    and fr: "\<And>w r w'. call w = (r, w') \<Longrightarrow> obs w' = obs w"
  shows "obs w' = obs w"
proof -
  let ?P = "\<lambda>call' err len pos w (res :: (failure + unit) \<times> _). call' = call \<longrightarrow> obs (snd res) = obs w"
  have "?P call err len pos w (res, w')"
    by (rule send_loop.raw_induct [where P = ?P, OF _ ret]) (auto dest: fr split: if_splits prod.splits)
  then show ?thesis by simp
qed

text \<open>A loop whose call takes everything sends once.\<close>

lemma send_loop_full:
  assumes "send_loop call err len 0 w = Some (Inr (), w')" and "0 < len"
    and "\<And>r w'. call w = (r, w') \<Longrightarrow> 0 \<le> r \<Longrightarrow> r = int len"
  shows "call w = (int len, w')"
proof -
  obtain r w1 where c: "call w = (r, w1)" by fastforce
  show ?thesis
  proof (cases "r < 0")
    case True
    with assms(1,2) c show ?thesis by (simp add: send_loop_fail)
  next
    case False
    then have "r = int len" using assms(3) [OF c] by simp
    with assms(1,2) c show ?thesis by (simp add: send_loop_round send_loop_done)
  qed
qed

lemma send_loop_grows:
  assumes ret: "send_loop call err len pos w = Some (Inr (), w')"
    and gr: "\<And>w r w'. call w = (r, w') \<Longrightarrow> 0 \<le> r \<Longrightarrow> sz w + nat r \<le> (sz w' :: nat)"
  shows "sz w + (len - pos) \<le> sz w'"
proof -
  let ?P = "\<lambda>call' err len pos w (res :: (failure + unit) \<times> _). call' = call \<longrightarrow>
     (\<forall>w'. res = (Inr (), w') \<longrightarrow> sz w + (len - pos) \<le> sz w')"
  have "?P call err len pos w (Inr (), w')"
  proof (rule send_loop.raw_induct [where P = ?P, OF _ ret], intro impI allI)
    fix loop call' err len pos w res w'
    assume IH: "\<And>call err len pos w res. loop call err len pos w = Some res \<Longrightarrow> ?P call err len pos w res"
      and eq: "(if pos < len then case call' w of (r, w') \<Rightarrow>
            if r < 0 then Some (Inl (err w'), w') else loop call' err len (pos + nat r) w'
          else Some (Inr (), w)) = Some res"
      and [simp]: "call' = call" "res = (Inr (), w')"
    obtain r w1 where c: "call w = (r, w1)" by fastforce
    show "sz w + (len - pos) \<le> sz w'"
    proof (cases "pos < len")
      case False
      with eq show ?thesis by simp
    next
      case True
      with eq c have r: "0 \<le> r" and "loop call err len (pos + nat r) w1 = Some res" by (auto split: if_splits)
      from IH [OF this(2)] have "sz w1 + (len - (pos + nat r)) \<le> sz w'" by simp
      with gr [OF c r] show ?thesis by linarith
    qed
  qed
  then show ?thesis by simp
qed

text \<open>
  What a successful run hands over: one prefix of the data per round, the rounds stopping as
  soon as the sum of the prefix lengths reaches the length of the data.
\<close>

definition rounds_deliver :: "('w \<Rightarrow> string) \<Rightarrow> string \<Rightarrow> nat \<Rightarrow> nat \<Rightarrow> 'w \<Rightarrow> 'w \<Rightarrow> nat list \<Rightarrow> bool" where
  "rounds_deliver sent data len pos w w' rs \<longleftrightarrow>
     sent w' = sent w @ concat (map (\<lambda>r. take r data) rs) \<and> len \<le> pos + sum_list rs \<and>
     (rs \<noteq> [] \<longrightarrow> pos + sum_list (butlast rs) < len)"

lemma rounds_deliver_Cons:
  "rounds_deliver sent data len (pos + r) w1 w' rs \<Longrightarrow> sent w1 = sent w @ take r data \<Longrightarrow> pos < len \<Longrightarrow>
     rounds_deliver sent data len pos w w' (r # rs)"
  by (auto simp: rounds_deliver_def add.assoc)

lemma send_loop_delivers:
  assumes ret: "send_loop call err len pos w = Some (Inr (), w')"
    and del: "\<And>w r w'. call w = (r, w') \<Longrightarrow> sent w' = sent w @ take (nat r) data"
  shows "\<exists>rs. rounds_deliver sent data len pos w w' rs"
proof -
  let ?P = "\<lambda>call' err len pos w (res :: (failure + unit) \<times> _). call' = call \<longrightarrow>
     (\<forall>w'. res = (Inr (), w') \<longrightarrow> (\<exists>rs. rounds_deliver sent data len pos w w' rs))"
  have "?P call err len pos w (Inr (), w')"
  proof (rule send_loop.raw_induct [where P = ?P, OF _ ret], intro impI allI)
    fix loop call' err len pos w res w'
    assume IH: "\<And>call err len pos w res. loop call err len pos w = Some res \<Longrightarrow> ?P call err len pos w res"
      and eq: "(if pos < len then case call' w of (r, w') \<Rightarrow>
            if r < 0 then Some (Inl (err w'), w') else loop call' err len (pos + nat r) w'
          else Some (Inr (), w)) = Some res"
      and [simp]: "call' = call" "res = (Inr (), w')"
    obtain r w1 where c: "call w = (r, w1)" by fastforce
    consider "\<not> pos < len" | "pos < len" "r < 0" | "pos < len" "0 \<le> r" by linarith
    then show "\<exists>rs. rounds_deliver sent data len pos w w' rs"
    proof cases
      case 1
      with eq show ?thesis by (auto simp: rounds_deliver_def intro: exI [of _ "[]"])
    next
      case 2
      with eq c show ?thesis by auto
    next
      case 3
      with eq c have "loop call err len (pos + nat r) w1 = Some res" by simp
      from IH [OF this] obtain rs where "rounds_deliver sent data len (pos + nat r) w1 w' rs" by auto
      then show ?thesis using del [OF c] 3 by (blast intro: rounds_deliver_Cons)
    qed
  qed
  then show ?thesis by simp
qed

subsection \<open>The interface of class Connection\<close>

text \<open>
  What \<^verbatim>\<open>Session\<close> and its subclasses rely on. \<open>contract\<close> is the hypothesis on the
  foreign calls below the subclass.
\<close>

locale connection_class =
  fixes recv :: "'c \<Rightarrow> (string, 'w) io"
    and send :: "'c \<Rightarrow> string \<Rightarrow> (unit, 'w) io"
    and contract :: bool
  assumes recv_failure: "recv c w = (Inl e, w') \<Longrightarrow> \<exists>m. e = RuntimeError m"
    and recv_bound: "contract \<Longrightarrow> recv c w = (Inr s, w') \<Longrightarrow> length s \<le> RECV_BUF_SZ"
    and send_empty: "send c '''' w = (Inr (), w)"
    and send_failure: "send c d w = (Inl e, w') \<Longrightarrow> e = Diverges \<or> (\<exists>m. e = RuntimeError m)"

lemma io_loop_send_failure:
  assumes "io_loop w (send_loop call (send_error os) len pos w) = (Inl e, w')"
  shows "e = Diverges \<or> (\<exists>m. e = RuntimeError m)"
  using assms
  by (auto simp: io_loop_def send_error_def dest: send_loop_failure split: option.splits)

lemma TCPConnection_recv_eq:
  "os_recv os fd RECV_BUF_SZ w = ((r, bytes), w') \<Longrightarrow>
     TCPConnection_recv os fd w =
       recv_result os r (overwrite bytes (replicate RECV_BUF_SZ NUL)) w'"
  by (simp add: TCPConnection_recv_def io_bind_call)

lemma SSLConnection_recv_eq:
  "ssl_read sl ssl (c_int RECV_BUF_SZ) w = ((r, bytes), w') \<Longrightarrow>
     SSLConnection_recv os sl ssl w =
       recv_result os r (overwrite bytes (replicate RECV_BUF_SZ NUL)) w'"
  by (simp add: SSLConnection_recv_def io_bind_call)

interpretation tcp: connection_class "TCPConnection_recv os" "TCPConnection_send os"
  "recv_contract os" for os :: "('w, 'z) os_scheme"
proof unfold_locales
  fix c w e w' and s d :: string
  obtain r bytes w1 where r: "os_recv os c RECV_BUF_SZ w = ((r, bytes), w1)"
    by (metis prod.exhaust)
  note eq = TCPConnection_recv_eq [OF r]
  show "\<exists>m. e = RuntimeError m" if "TCPConnection_recv os c w = (Inl e, w')"
    using that unfolding eq by (rule recv_result_failure)
  show "length s \<le> RECV_BUF_SZ"
    if "recv_contract os" and "TCPConnection_recv os c w = (Inr s, w')"
    using that r recv_result_length unfolding eq recv_contract_def by fastforce
  show "TCPConnection_send os c '''' w = (Inr (), w)"
    by (simp add: TCPConnection_send_def send_loop_done)
  show "e = Diverges \<or> (\<exists>m. e = RuntimeError m)" if "TCPConnection_send os c d w = (Inl e, w')"
    using that unfolding TCPConnection_send_def by (rule io_loop_send_failure)
qed

interpretation ssl: connection_class "SSLConnection_recv os sl" "SSLConnection_send os sl"
  "ssl_read_contract sl" for os :: "('w, 'z) os_scheme" and sl :: "('w, 'y) openssl_scheme"
proof unfold_locales
  fix c w e w' and s d :: string
  obtain r bytes w1 where r: "ssl_read sl c (c_int RECV_BUF_SZ) w = ((r, bytes), w1)"
    by (metis prod.exhaust)
  note eq = SSLConnection_recv_eq [OF r]
  show "\<exists>m. e = RuntimeError m" if "SSLConnection_recv os sl c w = (Inl e, w')"
    using that unfolding eq by (rule recv_result_failure)
  show "length s \<le> RECV_BUF_SZ"
    if "ssl_read_contract sl" and "SSLConnection_recv os sl c w = (Inr s, w')"
    using that r recv_result_length unfolding eq ssl_read_contract_def c_int_buf by fastforce
  show "SSLConnection_send os sl c '''' w = (Inr (), w)"
    by (simp add: SSLConnection_send_def send_loop_done)
  show "e = Diverges \<or> (\<exists>m. e = RuntimeError m)" if "SSLConnection_send os sl c d w = (Inl e, w')"
    using that unfolding SSLConnection_send_def by (rule io_loop_send_failure)
qed

text \<open>The dynamically dispatched calls satisfy the interface because both subclasses do.\<close>

interpretation conn: connection_class "connection_recv os sl" "connection_send os sl"
  "recv_contract os \<and> ssl_read_contract sl"
  for os :: "('w, 'z) os_scheme" and sl :: "('w, 'y) openssl_scheme"
proof unfold_locales
  fix c w e w' and s d :: string
  show "\<exists>m. e = RuntimeError m" if "connection_recv os sl c w = (Inl e, w')"
    using that by (cases c) (auto dest: tcp.recv_failure ssl.recv_failure)
  show "length s \<le> RECV_BUF_SZ"
    if "recv_contract os \<and> ssl_read_contract sl" and "connection_recv os sl c w = (Inr s, w')"
    using that by (cases c) (auto dest: tcp.recv_bound ssl.recv_bound)
  show "connection_send os sl c '''' w = (Inr (), w)"
    by (cases c) (simp_all add: tcp.send_empty ssl.send_empty)
  show "e = Diverges \<or> (\<exists>m. e = RuntimeError m)" if "connection_send os sl c d w = (Inl e, w')"
    using that by (cases c) (auto dest: tcp.send_failure ssl.send_failure)
qed

lemma send_contract_sent:
  "send_contract os \<Longrightarrow> os_send os fd data w = (r, w') \<Longrightarrow>
     os_sent os w' = (os_sent os w)(fd := os_sent os w fd @ take (nat r) data)"
  by (simp add: send_contract_def)

lemma ssl_fd_contractD:
  assumes "ssl_fd_contract os sl"
  shows "ssl_new sl ctx w = (s, w') \<Longrightarrow> os_open os w' = os_open os w"
    and "ssl_set_fd sl ssl fd w = (r, w') \<Longrightarrow> os_open os w' = os_open os w"
    and "ssl_accept sl ssl w = (r, w') \<Longrightarrow> os_open os w' = os_open os w"
    and "ssl_print_errors sl w = (m, w') \<Longrightarrow> os_open os w' = os_open os w"
    and "ssl_read sl ssl n w = (rb, w') \<Longrightarrow> os_open os w' = os_open os w"
    and "ssl_write sl ssl data n w = (r, w') \<Longrightarrow> os_open os w' = os_open os w"
    and "os_open os (snd (ssl_shutdown sl ssl w)) = os_open os w"
    and "os_open os (ssl_free sl ssl w) = os_open os w"
  using assms unfolding ssl_fd_contract_def by (metis snd_conv)+

text \<open>
  Parts of the world that receiving and sending leave alone. The session's iteration leaves
  them alone too, which the sessions prove once for every such part \<open>obs\<close>.
\<close>

locale connection_frame = connection_class recv send contract
  for recv :: "'c \<Rightarrow> (string, 'w) io" and send :: "'c \<Rightarrow> string \<Rightarrow> (unit, 'w) io" and contract :: bool +
  fixes obs :: "'w \<Rightarrow> 'o" and frame :: bool
  assumes recv_frame: "frame \<Longrightarrow> recv c w = (r, w') \<Longrightarrow> obs w' = obs w"
    and send_frame: "frame \<Longrightarrow> send c d w = (q, w') \<Longrightarrow> obs w' = obs w"

lemma recv_result_world: "recv_result os r buf w = (res, w') \<Longrightarrow> w' = w"
  by (drule recv_result_cases) simp

lemma io_loop_send_frame:
  assumes "io_loop w (send_loop call err len pos w) = (res, w')"
    and "\<And>w r w'. call w = (r, w') \<Longrightarrow> obs w' = obs w"
  shows "obs w' = obs w"
  using assms(1) send_loop_frame [of call err len pos w _ _ obs, OF _ assms(2)]
  by (cases "send_loop call err len pos w") auto

interpretation conn_obs: connection_frame "connection_recv os sl" "connection_send os sl"
  "recv_contract os \<and> ssl_read_contract sl" obs "calls_keep os sl obs"
  for os :: "('w, 'z) os_scheme" and sl :: "('w, 'y) openssl_scheme" and obs :: "'w \<Rightarrow> 'o"
proof unfold_locales
  fix c w r q w' and d :: string
  assume k: "calls_keep os sl obs"
  show "obs w' = obs w" if "connection_recv os sl c w = (r, w')"
    using that keepsD [OF calls_keepD(1) [OF k]] keepsD [OF calls_keepD(10) [OF k]]
    by (cases c) (fastforce simp: TCPConnection_recv_def SSLConnection_recv_def io_bind_call
        dest: recv_result_world split: prod.splits)+
  show "obs w' = obs w" if "connection_send os sl c d w = (q, w')"
    using that keepsD [OF calls_keepD(2) [OF k]] keepsD [OF calls_keepD(11) [OF k]]
    by (cases c) (auto simp: TCPConnection_send_def SSLConnection_send_def elim!: io_loop_send_frame)
qed

lemma connection_destroy_open:
  assumes "fd_table_contract os" and "ssl_fd_contract os sl"
  shows "os_open os (connection_destroy os sl c w) = os_open os w - {connection_fd c}"
  using assms by (cases c) (simp_all add: close_socket_open ssl_fd_contractD)

lemma SSLConnection_new_open:
  assumes "fd_table_contract os" and "ssl_fd_contract os sl"
    and "SSLConnection_new os sl fd ctx w = (res, w')"
  shows "case res of
      Inr c \<Rightarrow> connection_fd c = fd \<and> os_open os w' = os_open os w
    | Inl e \<Rightarrow> (\<exists>str. e = RuntimeError (''ssl server: {}'' @ str)) \<and> os_open os w' = os_open os w - {fd}"
  using assms(3) close_socket_open [OF assms(1)] ssl_fd_contractD [OF assms(2)]
  by (auto simp: SSLConnection_new_def sslconnection_err_def io_bind_call assms(1) split: prod.splits if_splits option.splits)

subsection \<open>Properties\<close>

text \<open>
  On POSIX, \<^verbatim>\<open>TCPConnection::recv\<close> returns exactly the bytes the system call stored,
  the empty string when there are none (would block, or end of stream), and raises the
  \<^verbatim>\<open>recv error\<close> exception in the one remaining case, a failure other than \<open>EAGAIN\<close>.
\<close>

theorem TCPConnection_recv_outcome:
  assumes "os_platform os = Posix" and "recv_contract os"
    and "os_recv os fd RECV_BUF_SZ w = ((r, bytes), w')"
  shows "TCPConnection_recv os fd w =
    (if r < 0 \<and> os_errno os w' \<noteq> EAGAIN
     then Inl (RuntimeError (''recv error: '' @ os_strerror os (os_errno os w')))
     else Inr bytes, w')"
proof -
  have "length bytes = nat r" using assms(2,3) by (rule recv_contractD)
  then show ?thesis using assms(1) TCPConnection_recv_eq [OF assms(3)]
    by (auto simp: recv_result_def)
qed

theorem TCPConnection_recv_outcome_witness:
  "TCPConnection_recv sim_os 7 (sim_world\<lparr>sim_recvs := [''hello'']\<rparr>) = (Inr ''hello'', sim_world) \<and>
   fst (TCPConnection_recv sim_os 7 sim_world) = Inr ''''"
proof -
  let ?w = "sim_world\<lparr>sim_recvs := [''hello'']\<rparr>"
  have p: "os_platform sim_os = Posix" by (simp add: sim_os_def)
  have "os_recv sim_os 7 RECV_BUF_SZ ?w = ((5, ''hello''), sim_world)"
    by (simp add: sim_eval RECV_BUF_SZ_def)
  note a = TCPConnection_recv_outcome [OF p sim_recv_contract this]
  have "os_recv sim_os 7 RECV_BUF_SZ sim_world = ((-1, ''''), sim_world\<lparr>sim_errno := EAGAIN\<rparr>)"
    by (simp add: sim_eval)
  note b = TCPConnection_recv_outcome [OF p sim_recv_contract this]
  show ?thesis using a b by (simp add: sim_os_def)
qed

text \<open>
  When every send call either fails or takes at least one byte, \<^verbatim>\<open>TCPConnection::send\<close>
  returns (normally or with an exception) for every string: its loop ends.
\<close>

theorem TCPConnection_send_returns:
  assumes "send_progress os"
  shows "fst (TCPConnection_send os fd data w) \<noteq> Inl Diverges"
proof (cases "data = []")
  case True
  then show ?thesis by (simp add: tcp.send_empty)
next
  case False
  with assms have "fst (os_send os fd data v) \<noteq> 0" for v by (simp add: send_progress_def)
  then obtain res where
    res: "send_loop (os_send os fd data) (send_error os) (length data) 0 w = Some res"
    using send_loop_total [of "os_send os fd data"] by blast
  then show ?thesis
    by (cases res) (fastforce simp: TCPConnection_send_def send_error_def dest: send_loop_failure)
qed

theorem TCPConnection_send_returns_witness:
  "fst (TCPConnection_send sim_os 7 ''hello'' sim_world) \<noteq> Inl Diverges"
  by (rule TCPConnection_send_returns [OF sim_send_progress])

text \<open>
  When the first send call takes the whole string, \<^verbatim>\<open>TCPConnection::send\<close> succeeds after
  that one call and the peer is handed exactly the string, on this connection only.
\<close>

theorem TCPConnection_send_exact:
  assumes "send_contract os" and "data \<noteq> []" and "os_send os fd data w = (int (length data), w')"
  shows "TCPConnection_send os fd data w = (Inr (), w') \<and>
    os_sent os w' = (os_sent os w)(fd := os_sent os w fd @ data)"
proof -
  have "send_loop (os_send os fd data) (send_error os) (length data) 0 w = Some (Inr (), w')"
    using assms(2) send_loop_round [where call = "os_send os fd data", OF _ assms(3)] by (simp add: send_loop_done)
  then show ?thesis using send_contract_sent [OF assms(1,3)]
    by (simp add: TCPConnection_send_def)
qed

theorem TCPConnection_send_exact_witness:
  "sim_out (snd (TCPConnection_send sim_os 7 ''hello'' sim_world)) 7 = ''hello''"
proof -
  have call: "os_send sim_os 7 ''hello'' sim_world
      = (int (length ''hello''), snd (sim_send 7 ''hello'' sim_world))"
    by (simp add: sim_eval)
  show ?thesis using TCPConnection_send_exact [OF sim_send_contract _ call]
    by (simp add: sim_eval)
qed

text \<open>
  In general a successful \<^verbatim>\<open>TCPConnection::send\<close> hands over one prefix of the string per
  call, every call starting again at the first byte; it stops with the call at which the
  prefix lengths first sum up to the length of the string.
\<close>

theorem TCPConnection_send_delivers:
  assumes "send_contract os" and "TCPConnection_send os fd data w = (Inr (), w')"
  shows "\<exists>rs. os_sent os w' fd = os_sent os w fd @ concat (map (\<lambda>r. take r data) rs) \<and>
    length data \<le> sum_list rs \<and> (rs \<noteq> [] \<longrightarrow> sum_list (butlast rs) < length data)"
proof -
  from assms(2) have "send_loop (os_send os fd data) (send_error os) (length data) 0 w = Some (Inr (), w')"
    by (auto simp: TCPConnection_send_def io_loop_def split: option.splits)
  from send_loop_delivers [OF this, of "\<lambda>w. os_sent os w fd" data] show ?thesis
    using send_contract_sent [OF assms(1)] by (auto simp: rounds_deliver_def)
qed

theorem TCPConnection_send_delivers_witness:
  "\<exists>rs. sim_out (snd (TCPConnection_send sim_os 7 ''hello'' (sim_world\<lparr>sim_sends := [2, 2]\<rparr>))) 7
     = concat (map (\<lambda>r. take r ''hello'') rs) \<and> 5 \<le> sum_list rs"
proof -
  let ?w = "sim_world\<lparr>sim_sends := [2, 2]\<rparr>"
  have "fst (TCPConnection_send sim_os 7 ''hello'' ?w) = Inr ()"
    by (simp add: TCPConnection_send_def send_loop.simps sim_eval)
  then have run: "TCPConnection_send sim_os 7 ''hello'' ?w
      = (Inr (), snd (TCPConnection_send sim_os 7 ''hello'' ?w))" by (metis prod.collapse)
  have "os_sent sim_os = (sim_out :: sim \<Rightarrow> _)" "sim_out ?w 7 = ''''" by (simp_all add: sim_eval)
  with TCPConnection_send_delivers [OF sim_send_contract run] show ?thesis by auto
qed

text \<open>
  C37. A short first write is not continued but repeated from the start: when the first call
  takes \<open>r\<close> bytes of a longer string and the next one takes everything, the call succeeds
  and the peer has received the first \<open>r\<close> bytes twice, so not the string.
\<close>

theorem TCPConnection_send_short_write:
  assumes "send_contract os"
    and "os_send os fd data w = (r, w1)" and "0 < r" and "r < int (length data)"
    and "os_send os fd data w1 = (int (length data), w2)"
  shows "TCPConnection_send os fd data w = (Inr (), w2) \<and>
    os_sent os w2 fd = os_sent os w fd @ take (nat r) data @ data \<and>
    os_sent os w2 fd \<noteq> os_sent os w fd @ data"
proof -
  from assms(3,4) have l: "0 < length data" "nat r < length data" by auto
  have "send_loop (os_send os fd data) (send_error os) (length data) 0 w = Some (Inr (), w2)"
    using send_loop_round [where call = "os_send os fd data", OF l(1) assms(2)]
      send_loop_round [where call = "os_send os fd data", OF l(2) assms(5)] assms(3)
    by (simp add: send_loop_done)
  moreover have "os_sent os w2 fd = os_sent os w fd @ take (nat r) data @ data"
    using send_contract_sent [OF assms(1,2)] send_contract_sent [OF assms(1,5)] by simp
  moreover from assms(3,4) have "take (nat r) data \<noteq> []" by auto
  ultimately show ?thesis by (simp add: TCPConnection_send_def)
qed

theorem TCPConnection_send_short_write_witness:
  "sim_out (snd (TCPConnection_send sim_os 7 ''hello'' (sim_world\<lparr>sim_sends := [2]\<rparr>))) 7
     = ''hehello''"
proof -
  let ?w = "sim_world\<lparr>sim_sends := [2]\<rparr>"
  let ?w1 = "snd (sim_send 7 ''hello'' ?w)" and ?d = "''hello''"
  have a: "os_send sim_os 7 ?d ?w = (2, ?w1)" by (simp add: sim_eval)
  have b: "os_send sim_os 7 ?d ?w1 = (int (length ?d), snd (sim_send 7 ?d ?w1))"
    by (simp add: sim_eval)
  show ?thesis using TCPConnection_send_short_write [OF sim_send_contract a _ _ b]
    by (simp add: sim_eval)
qed

text \<open>
  \<^verbatim>\<open>SSLConnection::send\<close> only leaves its loop on a negative result or on progress: while
  \<^verbatim>\<open>SSL_write\<close> returns zero, its documented result for an unsuccessful write, the call
  never returns.
\<close>

theorem SSLConnection_send_zero_diverges:
  assumes "data \<noteq> []" and "\<And>v. fst (ssl_write sl ssl data (c_int (length data)) v) = 0"
  shows "fst (SSLConnection_send os sl ssl data w) = Inl Diverges"
  using assms by (simp add: SSLConnection_send_def send_loop_stuck)

definition sim_ssl :: "('z sim_scheme) openssl" where
  "sim_ssl = \<lparr> ssl_new = (\<lambda>ctx w. (1, w)), ssl_set_fd = (\<lambda>ssl fd w. (1, w)),
     ssl_accept = (\<lambda>ssl w. (if sim_recvs w = [] then -1 else 1, w)),
     ssl_print_errors = (\<lambda>w. (if sim_errno w = Errno 71 then Some ''bad handshake'' else None, w)),
     ssl_read = (\<lambda>ssl n w. sim_recv (word_of_nat ssl) (nat n) w),
     ssl_write = (\<lambda>ssl data n w. (0, w)),
     ssl_shutdown = (\<lambda>ssl w. (1, w)), ssl_free = (\<lambda>ssl w. w), ssl_sent = (\<lambda>w ssl. '''') \<rparr>"

theorem SSLConnection_send_zero_diverges_witness:
  "fst (SSLConnection_send sim_os sim_ssl 1 ''hello'' sim_world) = Inl Diverges"
  by (rule SSLConnection_send_zero_diverges) (simp_all add: sim_ssl_def)

text \<open>
  Constructing an \<^verbatim>\<open>SSLConnection\<close> never leaks the accepted descriptor: either there is a
  connection object that owns it, or the constructor raised the \<^verbatim>\<open>ssl server\<close> error and the
  descriptor is closed.
\<close>

theorem SSLConnection_new_owns_or_closes:
  assumes "fd_table_contract os" and "ssl_fd_contract os sl"
    and "SSLConnection_new os sl fd ctx w = (res, w')"
  shows "case res of
      Inr c \<Rightarrow> connection_fd c = fd \<and> os_open os w' = os_open os w
    | Inl e \<Rightarrow> (\<exists>str. e = RuntimeError (''ssl server: {}'' @ str)) \<and> os_open os w' = os_open os w - {fd}"
  using assms by (rule SSLConnection_new_open)

lemma sim_ssl_fd_contract: "ssl_fd_contract sim_os sim_ssl"
  by (auto simp: ssl_fd_contract_def sim_ssl_def sim_os_def sim_recv_def split: list.splits)

theorem SSLConnection_new_owns_or_closes_witness:
  "sim_open (snd (SSLConnection_new sim_os sim_ssl 7 2
     (sim_world\<lparr>sim_open := {3, 7}, sim_errno := Errno 71\<rparr>))) = {3}"
proof -
  let ?w = "sim_world\<lparr>sim_open := {3, 7}, sim_errno := Errno 71\<rparr>"
  have run: "SSLConnection_new sim_os sim_ssl 7 2 ?w
      = (Inl (RuntimeError (''ssl server: {}'' @ ''bad handshake'')), ?w\<lparr>sim_open := {3},
        sim_logger := ERR (''ssl server connection: '' @ ''bad handshake'') (sim_logger ?w)\<rparr>)"
    by (simp add: SSLConnection_new_def sslconnection_err_def log_with_def io_bind_call sim_ssl_def sim_eval close_socket_def
        insert_Diff_if)
  from SSLConnection_new_owns_or_closes [OF sim_fd_table_contract sim_ssl_fd_contract run]
  show ?thesis by (simp add: run insert_Diff_if)
qed

text \<open>
  Destroying a connection of either class closes its own descriptor and no other.
\<close>

theorem connection_destroy_closes:
  assumes "fd_table_contract os" and "ssl_fd_contract os sl"
  shows "os_open os (connection_destroy os sl c w) = os_open os w - {connection_fd c}"
  using assms by (rule connection_destroy_open)

theorem connection_destroy_closes_witness:
  "sim_open (connection_destroy sim_os sim_ssl (SSLConnection 7 1) (sim_world\<lparr>sim_open := {3, 7}\<rparr>)) = {3}"
proof -
  have "os_open sim_os = (sim_open :: sim \<Rightarrow> _)" by (simp add: sim_os_def)
  with connection_destroy_closes [OF sim_fd_table_contract sim_ssl_fd_contract,
      of "SSLConnection 7 1" "sim_world\<lparr>sim_open := {3, 7}\<rparr>"]
  show ?thesis by (simp add: insert_Diff_if)
qed

end
