(* ===== verification/Session.thy ===== *)
theory Session
  imports Connection
begin

text \<open>
  Sessions: the base class \<^verbatim>\<open>Session\<close> (\<^verbatim>\<open>protocol/session.cc\<close>), the line oriented
  \<^verbatim>\<open>LineSession\<close> (\<^verbatim>\<open>protocol/linesession.cc\<close>), the protocols that create them and the
  echo protocols of the demos, the load test and the unit tests. The connection's virtual
  methods are passed as functions, as the code calls them through a base pointer; the
  virtual method \<^verbatim>\<open>process\<close> is a function from the request to the response.
\<close>

subsection \<open>Class Session\<close>

definition Session_iteration ::
  "(string, 'w) io \<Rightarrow> (string \<Rightarrow> (unit, 'w) io) \<Rightarrow> (string \<Rightarrow> string) \<Rightarrow> (unit, 'w) io" where
  "Session_iteration recv send process =
     io_bind recv (\<lambda>request.
       if request \<noteq> '''' then send (process request) else io_return ())"

subsection \<open>Class LineSession\<close>

record line_session =
  separator :: string
  separator_len :: nat
  include_separator :: bool
  buffer :: string

definition LineSession_new :: "bool \<Rightarrow> string \<Rightarrow> line_session" where
  "LineSession_new incl sep =
     \<lparr> separator = sep, separator_len = length sep, include_separator = incl, buffer = '''' \<rparr>"

text \<open>The default arguments of the constructor.\<close>

definition LineSession_default :: line_session where
  "LineSession_default = LineSession_new True crlf"

text \<open>
  The endless loop of \<^verbatim>\<open>LineSession::iteration\<close>: the search starts at \<open>i\<close>, the position
  where the previous separator was found, although the text before it has been erased.
\<close>

partial_function (option) line_loop ::
  "(string \<Rightarrow> string) \<Rightarrow> line_session \<Rightarrow> nat \<Rightarrow> string \<Rightarrow> (string \<times> line_session) option"
where
  "line_loop process ls i response =
     (case str_find (buffer ls) (separator ls) i of
        Some j \<Rightarrow>
          line_loop process
            (ls\<lparr>buffer := erase0 (j + separator_len ls) (buffer ls)\<rparr>) j
            (response @ process (substr0 (j + (if include_separator ls then separator_len ls else 0))
               (buffer ls)))
      | None \<Rightarrow> Some (response, ls))"

text \<open>The part of an iteration between receiving and sending.\<close>

definition LineSession_feed ::
  "(string \<Rightarrow> string) \<Rightarrow> line_session \<Rightarrow> string \<Rightarrow> (string \<times> line_session) option" where
  "LineSession_feed process ls chunk = line_loop process (ls\<lparr>buffer := buffer ls @ chunk\<rparr>) 0 ''''"

definition LineSession_iteration ::
  "(string, 'w) io \<Rightarrow> (string \<Rightarrow> (unit, 'w) io) \<Rightarrow> (string \<Rightarrow> string) \<Rightarrow> line_session \<Rightarrow>
     'w \<Rightarrow> (failure + unit) \<times> line_session \<times> 'w" where
  "LineSession_iteration recv send process ls w =
     (case recv w of
        (Inl e, w1) \<Rightarrow> (Inl e, ls, w1)
      | (Inr chunk, w1) \<Rightarrow>
          (case LineSession_feed process ls chunk of
             None \<Rightarrow> (Inl Diverges, ls\<lparr>buffer := buffer ls @ chunk\<rparr>, w1)
           | Some (response, ls') \<Rightarrow>
               (case send response w1 of (r, w2) \<Rightarrow> (r, ls', w2))))"

subsection \<open>Session objects and protocols\<close>

datatype session =
    PlainSession connection "string \<Rightarrow> string"
  | LineSession connection "string \<Rightarrow> string" line_session

fun session_connection :: "session \<Rightarrow> connection" where
  "session_connection (PlainSession c p) = c"
| "session_connection (LineSession c p ls) = c"

definition session_fd :: "session \<Rightarrow> SOCKET" where
  "session_fd s = connection_fd (session_connection s)"

fun session_iteration ::
  "('w, 'z) os_scheme \<Rightarrow> ('w, 'y) openssl_scheme \<Rightarrow> session \<Rightarrow> 'w \<Rightarrow> (failure + unit) \<times> session \<times> 'w"
where
  "session_iteration os sl (PlainSession c p) w =
     (case Session_iteration (connection_recv os sl c) (connection_send os sl c) p w of
        (r, w') \<Rightarrow> (r, PlainSession c p, w'))"
| "session_iteration os sl (LineSession c p ls) w =
     (case LineSession_iteration (connection_recv os sl c) (connection_send os sl c) p ls w of
        (r, ls', w') \<Rightarrow> (r, LineSession c p ls', w'))"

text \<open>The destructor destroys the connection the session owns.\<close>

definition session_destroy ::
  "('w, 'z) os_scheme \<Rightarrow> ('w, 'y) openssl_scheme \<Rightarrow> session \<Rightarrow> 'w \<Rightarrow> 'w" where
  "session_destroy os sl s w = connection_destroy os sl (session_connection s) w"

text \<open>\<^verbatim>\<open>demo/echo.cc\<close> and \<^verbatim>\<open>main.cc\<close>: lines without their CR LF, framed by bars.\<close>

definition bars :: "string \<Rightarrow> string" where
  "bars data = ''|'' @ data @ ''|'' @ crlf"

definition EchoProtocol_create_session :: "connection \<Rightarrow> session" where
  "EchoProtocol_create_session c = LineSession c bars (LineSession_new False crlf)"

text \<open>\<^verbatim>\<open>demo/echossl.cc\<close>: the same with LF as the separator.\<close>

definition EchoSSLProtocol_create_session :: "connection \<Rightarrow> session" where
  "EchoSSLProtocol_create_session c = LineSession c bars (LineSession_new False lf)"

text \<open>\<^verbatim>\<open>loadtest/server.cc\<close>: lines with their LF, unchanged.\<close>

definition LoadTestProtocol_create_session :: "connection \<Rightarrow> session" where
  "LoadTestProtocol_create_session c = LineSession c (\<lambda>data. data) (LineSession_new True lf)"

text \<open>\<^verbatim>\<open>tests/tcpserver.cc\<close>, \<^verbatim>\<open>tests/sslserver.cc\<close>: whatever arrives, unchanged.\<close>

definition TestProtocol_create_session :: "connection \<Rightarrow> session" where
  "TestProtocol_create_session c = PlainSession c (\<lambda>data. data)"

subsection \<open>The intended framing\<close>

text \<open>
  The reference the loop is compared with: cut the text at every separator, from left to
  right. \<open>frames sep s\<close> is the list of complete lines, without the separators, and the
  incomplete rest.
\<close>

function frames :: "string \<Rightarrow> string \<Rightarrow> string list \<times> string" where
  "frames sep s =
     (if sep = '''' then ([], s)
      else case str_find s sep 0 of
        None \<Rightarrow> ([], s)
      | Some i \<Rightarrow> (case frames sep (drop (i + length sep) s) of (ls, rest) \<Rightarrow> (take i s # ls, rest)))"
  by pat_completeness auto
termination
proof (relation "measure (\<lambda>(sep, s). length s)")
  fix sep s :: string and i
  assume "sep \<noteq> ''''" and f: "str_find s sep 0 = Some i"
  then have "0 < length sep" by simp
  with str_find_SomeD(2) [OF f] have "length s - (i + length sep) < length s" by linarith
  then show "((sep, drop (i + length sep) s), sep, s) \<in> measure (\<lambda>(sep, s). length s)" by simp
qed simp

declare frames.simps [simp del]

text \<open>The text a list of complete lines stands for, and the responses to it.\<close>

definition unlines :: "string \<Rightarrow> string list \<Rightarrow> string" where
  "unlines sep fs = concat (map (\<lambda>f. f @ sep) fs)"

definition responses :: "(string \<Rightarrow> string) \<Rightarrow> line_session \<Rightarrow> string list \<Rightarrow> string" where
  "responses process ls fs =
     concat (map (\<lambda>f. process (f @ (if include_separator ls then separator ls else ''''))) fs)"

text \<open>The constructor's invariant: the cached length is the separator's.\<close>

definition line_ok :: "line_session \<Rightarrow> bool" where
  "line_ok ls \<longleftrightarrow> separator_len ls = length (separator ls)"

text \<open>Feeding one chunk after another, as successive iterations do.\<close>

fun LineSession_feeds ::
  "(string \<Rightarrow> string) \<Rightarrow> line_session \<Rightarrow> string list \<Rightarrow> (string \<times> line_session) option" where
  "LineSession_feeds process ls [] = Some ('''', ls)"
| "LineSession_feeds process ls (c # cs) =
     (case LineSession_feed process ls c of
        None \<Rightarrow> None
      | Some (r, ls') \<Rightarrow> map_option (\<lambda>(rs, ls''). (r @ rs, ls'')) (LineSession_feeds process ls' cs))"

subsection \<open>Facts on the framing loop\<close>

lemma line_loop_stop:
  "str_find (buffer ls) (separator ls) i = None \<Longrightarrow> line_loop process ls i response = Some (response, ls)"
  by (simp add: line_loop.simps)

text \<open>One round: the line before the separator found is answered and removed.\<close>

lemma process_cut:
  assumes "str_find (buffer ls) (separator ls) i = Some j" and "line_ok ls"
  shows "process (substr0 (j + (if include_separator ls then separator_len ls else 0)) (buffer ls))
    = responses process ls [take j (buffer ls)]"
proof -
  have "take (j + length (separator ls)) (buffer ls) = take j (buffer ls) @ separator ls"
    using str_find_SomeD(3) [OF assms(1)] by (simp add: take_add)
  then show ?thesis using assms(2) by (simp add: line_ok_def substr0_def responses_def)
qed

lemma line_loop_cut:
  assumes "str_find (buffer ls) (separator ls) i = Some j" and "line_ok ls"
  shows "line_loop process ls i response =
    line_loop process (ls\<lparr>buffer := drop (j + length (separator ls)) (buffer ls)\<rparr>) j
      (response @ responses process ls [take j (buffer ls)])"
  using assms(1,2)
  by (subst line_loop.simps) (simp add: process_cut [OF assms] erase0_def, simp add: line_ok_def)

lemma responses_append: "responses process ls (fs @ gs) = responses process ls fs @ responses process ls gs"
  by (simp add: responses_def)

lemma responses_Cons: "responses process ls (f # fs) = responses process ls [f] @ responses process ls fs"
  by (simp add: responses_def)

lemma responses_buffer [simp]: "responses process (ls\<lparr>buffer := b\<rparr>) fs = responses process ls fs"
  by (simp add: responses_def)

lemma line_ok_buffer [simp]: "line_ok (ls\<lparr>buffer := b\<rparr>) = line_ok ls"
  by (simp add: line_ok_def)

lemma line_ok_new [simp]: "line_ok (LineSession_new incl sep)"
  by (simp add: line_ok_def LineSession_new_def)

lemma unlines_simps [simp]:
  "unlines sep [] = ''''" "unlines sep (f # fs) = f @ sep @ unlines sep fs"
  "unlines sep (fs @ gs) = unlines sep fs @ unlines sep gs"
  by (simp_all add: unlines_def)

lemma line_loop_total:
  assumes "line_ok ls" and "separator ls \<noteq> ''''"
  shows "\<exists>res. line_loop process ls i response = Some res"
  using assms
proof (induction "length (buffer ls)" arbitrary: ls i response rule: less_induct)
  case less
  show ?case
  proof (cases "str_find (buffer ls) (separator ls) i")
    case None
    then show ?thesis by (simp add: line_loop_stop)
  next
    case (Some j)
    let ?ls = "ls\<lparr>buffer := drop (j + length (separator ls)) (buffer ls)\<rparr>"
    from less.prems have "0 < length (separator ls)" by simp
    with str_find_SomeD(2) [OF Some]
    have "length (buffer ls) - (j + length (separator ls)) < length (buffer ls)" by linarith
    then have "length (buffer ?ls) < length (buffer ls)" by simp
    from less.hyps [OF this] less.prems show ?thesis
      by (simp add: line_loop_cut [OF Some])
  qed
qed

text \<open>
  What a run of the loop does to the text: it splits off complete lines in order, answers
  each of them once, and keeps the rest.
\<close>

definition splits_off ::
  "(string \<Rightarrow> string) \<Rightarrow> line_session \<Rightarrow> string \<Rightarrow> string \<Rightarrow> line_session \<Rightarrow> string list \<Rightarrow> bool" where
  "splits_off process ls text resp ls' fs \<longleftrightarrow>
     (\<exists>rest. text = unlines (separator ls) fs @ rest \<and> resp = responses process ls fs \<and>
        ls' = ls\<lparr>buffer := rest\<rparr>)"

lemma splits_off_Nil: "splits_off process ls (buffer ls) [] ls []"
  by (auto simp: splits_off_def responses_def)

lemma splits_off_Cons:
  assumes "splits_off process ls (drop (j + length (separator ls)) s) resp ls' fs"
    and "str_find s (separator ls) i = Some j"
  shows "splits_off process ls s (responses process ls [take j s] @ resp) ls' (take j s # fs)"
  using assms str_find_split [OF assms(2)]
  by (auto simp: splits_off_def responses_Cons [of _ _ _ fs])

lemma line_loop_splits:
  assumes "line_loop process ls i response = Some (response', ls')" and "line_ok ls"
  shows "\<exists>resp fs. response' = response @ resp \<and> splits_off process ls (buffer ls) resp ls' fs"
proof -
  let ?P = "\<lambda>process ls i response res. line_ok ls \<longrightarrow>
     (\<exists>resp fs. fst res = response @ resp \<and> splits_off process ls (buffer ls) resp (snd res) fs)"
  have "?P process ls i response (response', ls')"
  proof (rule line_loop.raw_induct [where P = ?P, OF _ assms(1)], rule impI)
    fix loop process ls i response res
    assume IH: "\<And>process ls i response res. loop process ls i response = Some res \<Longrightarrow>
        ?P process ls i response res"
      and eq: "(case str_find (buffer ls) (separator ls) i of
          Some j \<Rightarrow> loop process (ls\<lparr>buffer := erase0 (j + separator_len ls) (buffer ls)\<rparr>) j
            (response @ process (substr0 (j + (if include_separator ls then separator_len ls else 0)) (buffer ls)))
        | None \<Rightarrow> Some (response, ls)) = Some res"
      and ok: "line_ok ls"
    show "\<exists>resp fs. fst res = response @ resp \<and> splits_off process ls (buffer ls) resp (snd res) fs"
    proof (cases "str_find (buffer ls) (separator ls) i")
      case None
      with eq splits_off_Nil [of process ls] show ?thesis by fastforce
    next
      case (Some j)
      with eq ok have "loop process (ls\<lparr>buffer := drop (j + length (separator ls)) (buffer ls)\<rparr>) j
          (response @ responses process ls [take j (buffer ls)]) = Some res"
        by (simp add: process_cut [OF Some ok] erase0_def) (simp add: line_ok_def)
      from IH [OF this] ok obtain resp fs where
        "fst res = response @ responses process ls [take j (buffer ls)] @ resp"
        "splits_off process ls (drop (j + length (separator ls)) (buffer ls)) resp (snd res) fs"
        by (auto simp: splits_off_def)
      with splits_off_Cons [OF _ Some] show ?thesis by blast
    qed
  qed
  with assms(2) show ?thesis by simp
qed

text \<open>An empty separator is found at once and for ever.\<close>

lemma line_loop_empty_separator:
  assumes "separator ls = ''''" and "separator_len ls = 0"
  shows "line_loop process ls 0 response = None"
proof -
  let ?P = "\<lambda>process ls i response res. separator ls = '''' \<and> separator_len ls = 0 \<longrightarrow> i \<noteq> (0::nat)"
  have "?P process ls 0 response res" if ret: "line_loop process ls 0 response = Some res" for res
  proof (rule line_loop.raw_induct [where P = ?P, OF _ ret], intro impI notI)
    fix loop process ls i response res
    assume IH: "\<And>process ls i response res. loop process ls i response = Some res \<Longrightarrow>
        ?P process ls i response res"
      and eq: "(case str_find (buffer ls) (separator ls) i of
          Some j \<Rightarrow> loop process (ls\<lparr>buffer := erase0 (j + separator_len ls) (buffer ls)\<rparr>) j
            (response @ process (substr0 (j + (if include_separator ls then separator_len ls else 0)) (buffer ls)))
        | None \<Rightarrow> Some (response, ls)) = Some res"
      and sep: "separator ls = '''' \<and> separator_len ls = 0" and i: "i = 0"
    from eq sep i have "loop process ls 0 (response @ process '''') = Some res"
      by (simp add: str_find_empty erase0_def substr0_def cong: if_cong)
    from IH [OF this] sep show False by simp
  qed
  with assms show ?thesis by (cases "line_loop process ls 0 response") auto
qed

lemma str_find_later:
  "str_find s sep 0 = Some j \<Longrightarrow> i \<le> j \<Longrightarrow> str_find s sep i = Some j"
proof (rule str_find_eqI)
  assume "str_find s sep 0 = Some j"
  note f = str_find_SomeD [OF this]
  show "starts_with sep (drop j s)" using f(3) by (simp add: starts_with_take)
  show "j \<le> length s" using f(2) by simp
  show "\<not> starts_with sep (drop k s)" if "k < j" for k using f(4) [of k] that by simp
qed

lemma str_find_none_later: "str_find s sep 0 = None \<Longrightarrow> str_find s sep i = None"
proof (rule ccontr)
  assume n: "str_find s sep 0 = None" and "str_find s sep i \<noteq> None"
  then obtain j where "str_find s sep i = Some j" by auto
  note f = str_find_SomeD [OF this]
  from str_find_NoneD [OF n, of j] f(2,3) show False by (simp add: starts_with_take)
qed

text \<open>Inversion of the reference framing.\<close>

lemma frames_Nil: "frames sep s = ([], rest) \<Longrightarrow> sep \<noteq> '''' \<Longrightarrow> str_find s sep 0 = None \<and> rest = s"
  by (subst (asm) frames.simps) (auto split: option.splits prod.splits)

lemma frames_Cons:
  assumes "frames sep s = (f # fs, rest)" and "sep \<noteq> ''''"
  shows "str_find s sep 0 = Some (length f)" and "s = f @ sep @ drop (length f + length sep) s"
    and "frames sep (drop (length f + length sep) s) = (fs, rest)"
proof -
  from assms obtain i where i: "str_find s sep 0 = Some i"
    and f: "f = take i s" and fs: "frames sep (drop (i + length sep) s) = (fs, rest)"
    by (subst (asm) frames.simps) (auto split: option.splits prod.splits)
  from str_find_SomeD(2) [OF i] f have l: "length f = i" by simp
  show "str_find s sep 0 = Some (length f)" "frames sep (drop (length f + length sep) s) = (fs, rest)"
    using i fs l by simp_all
  show "s = f @ sep @ drop (length f + length sep) s"
    using str_find_split [OF i] l f by simp
qed

lemma frames_unlines: "frames sep s = (fs, rest) \<Longrightarrow> sep \<noteq> '''' \<Longrightarrow> s = unlines sep fs @ rest"
proof (induction fs arbitrary: s)
  case Nil
  then show ?case using frames_Nil [of sep s rest] by simp
next
  case (Cons f fs)
  from frames_Cons [OF Cons.prems] Cons.IH Cons.prems(2) show ?case by fastforce
qed

text \<open>
  Where the lines of the text get no shorter, the stale start position does no harm and the
  loop computes the reference framing.
\<close>

lemma line_loop_frames:
  assumes "frames (separator ls) (buffer ls) = (fs, rest)" and "separator ls \<noteq> ''''" and "line_ok ls"
    and "sorted (map length fs)" and "\<forall>f \<in> set fs. i \<le> length f"
  shows "line_loop process ls i response =
    Some (response @ responses process ls fs, ls\<lparr>buffer := rest\<rparr>)"
  using assms
proof (induction fs arbitrary: ls i response)
  case Nil
  then have "str_find (buffer ls) (separator ls) i = None" "rest = buffer ls"
    using frames_Nil str_find_none_later by metis+
  then show ?case by (simp add: line_loop_stop responses_def)
next
  case (Cons f fs)
  note fc = frames_Cons [OF Cons.prems(1,2)]
  from Cons.prems(5) have i: "str_find (buffer ls) (separator ls) i = Some (length f)"
    by (intro str_find_later [OF fc(1)]) simp
  have f: "take (length f) (buffer ls) = f"
    by (subst fc(2)) simp
  let ?ls = "ls\<lparr>buffer := drop (length f + length (separator ls)) (buffer ls)\<rparr>"
  have "line_loop process ?ls (length f) (response @ responses process ls [f]) =
      Some ((response @ responses process ls [f]) @ responses process ?ls fs, ?ls\<lparr>buffer := rest\<rparr>)"
    by (rule Cons.IH) (use fc(3) Cons.prems in auto)
  then show ?case
    using line_loop_cut [OF i Cons.prems(3)] f responses_Cons [of process ls f fs] by simp
qed

lemma str_find_suffix_none:
  assumes "length s < i + length sep" and "sep \<noteq> ''''" shows "str_find s sep i = None"
proof (rule ccontr)
  assume "str_find s sep i \<noteq> None"
  then obtain j where "str_find s sep i = Some j" by auto
  from str_find_SomeD(1,2) [OF this] assms show False by simp
qed

lemma LineSession_feed_splits:
  assumes "LineSession_feed process ls chunk = Some (resp, ls')" and "line_ok ls"
  shows "\<exists>fs. splits_off process ls (buffer ls @ chunk) resp ls' fs"
  using line_loop_splits [OF assms(1) [unfolded LineSession_feed_def]] assms(2)
  by (auto simp: splits_off_def)

lemma splits_off_append:
  assumes "splits_off process ls (t @ c) r ls1 fs" and "splits_off process ls1 (buffer ls1 @ cs) rs ls2 gs"
  shows "splits_off process ls (t @ c @ cs) (r @ rs) ls2 (fs @ gs)"
  using assms by (auto simp: splits_off_def responses_append) (metis append.assoc)

lemma LineSession_feeds_splits:
  assumes "LineSession_feeds process ls chunks = Some (resp, ls')" and "line_ok ls"
  shows "\<exists>fs. splits_off process ls (buffer ls @ concat chunks) resp ls' fs"
  using assms
proof (induction chunks arbitrary: ls resp)
  case Nil
  then show ?case using splits_off_Nil by fastforce
next
  case (Cons c cs)
  from Cons.prems(1) obtain r ls1 rs where a: "LineSession_feed process ls c = Some (r, ls1)"
    and b: "LineSession_feeds process ls1 cs = Some (rs, ls')" and resp: "resp = r @ rs"
    by (auto split: option.splits)
  from LineSession_feed_splits [OF a Cons.prems(2)]
  obtain fs where fs: "splits_off process ls (buffer ls @ c) r ls1 fs" by blast
  then have "line_ok ls1" using Cons.prems(2) by (auto simp: splits_off_def)
  from Cons.IH [OF b this] obtain gs where "splits_off process ls1 (buffer ls1 @ concat cs) rs ls' gs"
    by blast
  from splits_off_append [OF fs this] show ?case by (auto simp: resp)
qed

lemma LineSession_feeds_total:
  assumes "line_ok ls" and "separator ls \<noteq> ''''"
  shows "\<exists>res. LineSession_feeds process ls chunks = Some res"
  using assms
proof (induction chunks arbitrary: ls)
  case Nil
  then show ?case by simp
next
  case (Cons c cs)
  obtain r ls1 where a: "LineSession_feed process ls c = Some (r, ls1)"
    using line_loop_total [of "ls\<lparr>buffer := buffer ls @ c\<rparr>"] Cons.prems
    by (fastforce simp: LineSession_feed_def)
  from LineSession_feed_splits [OF a Cons.prems(1)] Cons.prems
  have "line_ok ls1" "separator ls1 \<noteq> ''''" by (auto simp: splits_off_def)
  from Cons.IH [OF this] a show ?case by auto
qed

text \<open>A proper prefix of a single line contains no separator.\<close>

lemma single_line_prefix:
  assumes "frames sep (t @ u) = ([f], '''')" and "sep \<noteq> ''''" and "u \<noteq> ''''"
  shows "str_find t sep 0 = None"
proof (rule ccontr)
  assume "str_find t sep 0 \<noteq> None"
  then obtain j where "str_find t sep 0 = Some j" by auto
  note j = str_find_SomeD [OF this]
  note fr = frames_Cons [OF assms(1,2)] frames_unlines [OF assms(1,2)]
  have "starts_with sep (drop j (t @ u))" using j(2,3) by (simp add: starts_with_take)
  moreover from fr(4) have "length t + length u = length f + length sep"
    by (metis append_Nil2 length_append unlines_simps(1,2))
  then have "j < length f" using j(2) assms(3) by (cases u) auto
  ultimately show False using str_find_SomeD(4) [OF fr(1), of j] by simp
qed

lemma LineSession_feeds_idle:
  assumes "str_find (buffer ls) (separator ls) 0 = None" and "concat chunks = ''''"
  shows "LineSession_feeds process ls chunks = Some ('''', ls)"
  using assms by (induction chunks) (simp_all add: LineSession_feed_def line_loop_stop)

lemma LineSession_feeds_single_line:
  assumes "frames (separator ls) (buffer ls @ concat chunks) = ([f], '''')" and "separator ls \<noteq> ''''"
    and "line_ok ls" and "concat chunks \<noteq> ''''"
  shows "LineSession_feeds process ls chunks =
    Some (responses process ls [f], ls\<lparr>buffer := ''''\<rparr>)"
  using assms
proof (induction chunks arbitrary: ls)
  case Nil
  then show ?case by simp
next
  case (Cons c cs)
  let ?ls = "ls\<lparr>buffer := buffer ls @ c\<rparr>"
  show ?case
  proof (cases "concat cs = ''''")
    case True
    with Cons.prems(1) have fr: "frames (separator ?ls) (buffer ?ls) = ([f], '''')" by simp
    have "LineSession_feed process ls c = Some (responses process ls [f], ls\<lparr>buffer := ''''\<rparr>)"
      using line_loop_frames [OF fr, of 0] Cons.prems by (simp add: LineSession_feed_def)
    moreover have "str_find '''' (separator ls) 0 = None"
      using Cons.prems(2) by (simp add: str_find_def)
    ultimately show ?thesis using True by (simp add: LineSession_feeds_idle)
  next
    case False
    with Cons.prems single_line_prefix [of "separator ls" "buffer ls @ c" "concat cs" f]
    have "str_find (buffer ls @ c) (separator ls) 0 = None" by simp
    then have "LineSession_feed process ls c = Some ('''', ?ls)"
      by (simp add: LineSession_feed_def line_loop_stop)
    with Cons.IH [of ?ls] Cons.prems False show ?thesis by simp
  qed
qed

subsection \<open>Sessions over any connection class\<close>

context connection_class
begin

lemma idle_iteration:
  "recv c w = (Inr '''', w1) \<Longrightarrow> Session_iteration (recv c) (send c) p w = (Inr (), w1)"
  by (simp add: Session_iteration_def)

lemma iteration_failure:
  assumes "Session_iteration (recv c) (send c) p w = (Inl e, w')"
  shows "e = Diverges \<or> (\<exists>m. e = RuntimeError m)"
  using assms
  by (auto simp: Session_iteration_def io_bind_eq_Inl split: if_splits
      dest: recv_failure send_failure)

lemma line_idle_iteration:
  assumes "recv c w = (Inr '''', w1)" and "str_find (buffer ls) (separator ls) 0 = None"
  shows "LineSession_iteration (recv c) (send c) p ls w = (Inr (), ls, w1)"
  using assms
  by (simp add: LineSession_iteration_def LineSession_feed_def line_loop_stop send_empty)

lemma line_iteration_failure:
  assumes "LineSession_iteration (recv c) (send c) p ls w = (Inl e, ls', w')"
  shows "e = Diverges \<or> (\<exists>m. e = RuntimeError m)"
  using assms
  by (auto simp: LineSession_iteration_def dest: recv_failure send_failure
      split: prod.splits sum.splits option.splits)

text \<open>One iteration reads once, so the buffer grows by one receive buffer at most.\<close>

lemma line_buffer_bound:
  assumes contract and "line_ok ls"
    and "LineSession_iteration (recv c) (send c) p ls w = (r, ls', w')"
  shows "length (buffer ls') \<le> length (buffer ls) + RECV_BUF_SZ \<and> line_ok ls'"
proof -
  obtain x w1 where rv: "recv c w = (x, w1)" by fastforce
  show ?thesis
  proof (cases x)
    case (Inl e)
    with assms rv show ?thesis by (simp add: LineSession_iteration_def)
  next
    case (Inr chunk)
    with rv recv_bound [OF assms(1)] have b: "length chunk \<le> RECV_BUF_SZ" by simp
    show ?thesis
    proof (cases "LineSession_feed p ls chunk")
      case None
      with assms(2,3) rv Inr b show ?thesis by (auto simp: LineSession_iteration_def)
    next
      case (Some y)
      with assms(3) rv Inr obtain resp where "LineSession_feed p ls chunk = Some (resp, ls')"
        by (cases y) (auto simp: LineSession_iteration_def split: prod.splits)
      from LineSession_feed_splits [OF this assms(2)] b assms(2) show ?thesis
        by (auto simp: splits_off_def dest!: arg_cong [of "_ @ _" _ length])
    qed
  qed
qed

end

context connection_frame
begin

lemma iteration_frame:
  assumes "frame" and "Session_iteration (recv c) (send c) process w = (r, w')"
  shows "obs w' = obs w"
  using assms(2)
  by (auto simp: Session_iteration_def io_bind_def split: prod.splits sum.splits if_splits)
    (metis recv_frame [OF assms(1)] send_frame [OF assms(1)])+

lemma line_iteration_frame:
  assumes "frame" and "LineSession_iteration (recv c) (send c) process ls w = (r, ls', w')"
  shows "obs w' = obs w"
  using assms(2)
  by (auto simp: LineSession_iteration_def split: prod.splits sum.splits option.splits)
    (metis recv_frame [OF assms(1)] send_frame [OF assms(1)])+

end

lemma session_iteration_keeps:
  assumes "calls_keep os sl obs" and "session_iteration os sl s w = (r, s', w')"
  shows "obs w' = obs w"
  using assms(2) conn_obs.iteration_frame [OF assms(1)] conn_obs.line_iteration_frame [OF assms(1)]
  by (cases s) (auto split: prod.splits)

lemmas session_iteration_open = session_iteration_keeps [OF calls_keep_open]

subsection \<open>Properties\<close>

text \<open>
  C23. With a non-empty separator, the endless loop of \<^verbatim>\<open>LineSession::iteration\<close> ends on every
  buffer and every chunk of input, for any \<^verbatim>\<open>process\<close>.
\<close>

theorem LineSession_feed_returns:
  assumes "line_ok ls" and "separator ls \<noteq> ''''"
  shows "\<exists>res. LineSession_feed process ls chunk = Some res"
  using assms line_loop_total [of "ls\<lparr>buffer := buffer ls @ chunk\<rparr>"]
  by (simp add: LineSession_feed_def)

theorem LineSession_feed_returns_witness:
  "\<exists>res. LineSession_feed bars (LineSession_new False crlf) (''hi'' @ crlf) = Some res"
  by (rule LineSession_feed_returns) (simp_all add: LineSession_new_def crlf_def line_ok_def)

text \<open>
  With an empty separator the first iteration never returns, whatever is received, even
  nothing.
\<close>

theorem LineSession_empty_separator_diverges:
  assumes "recv w = (Inr chunk, w1)"
  shows "fst (LineSession_iteration recv send process (LineSession_new incl '''') w) = Inl Diverges"
  using assms line_loop_empty_separator
  by (simp add: LineSession_iteration_def LineSession_feed_def LineSession_new_def)

theorem LineSession_empty_separator_diverges_witness:
  "fst (LineSession_iteration (TCPConnection_recv sim_os 7) (TCPConnection_send sim_os 7) bars
     (LineSession_new True '''') sim_world) = Inl Diverges"
proof -
  have "TCPConnection_recv sim_os 7 sim_world = (Inr '''', sim_world\<lparr>sim_errno := EAGAIN\<rparr>)"
    by (simp add: TCPConnection_recv_def io_bind_call recv_result_def sim_eval SOCKET_ERROR_def)
  then show ?thesis by (rule LineSession_empty_separator_diverges)
qed

text \<open>
  C7. However the input is cut into chunks, a line session loses, duplicates and reorders
  nothing: all the bytes received are the answered lines with their separators, in order,
  followed by what is still buffered, and the output is the concatenation of the responses
  to exactly those lines.
\<close>

theorem LineSession_conserves_stream:
  assumes "LineSession_feeds process ls chunks = Some (resp, ls')" and "line_ok ls"
  shows "\<exists>fs. buffer ls @ concat chunks = unlines (separator ls) fs @ buffer ls' \<and>
    resp = concat (map (\<lambda>f. process (f @ (if include_separator ls then separator ls else ''''))) fs) \<and>
    separator ls' = separator ls \<and> include_separator ls' = include_separator ls \<and> line_ok ls'"
  using LineSession_feeds_splits [OF assms] assms(2)
  by (auto simp: splits_off_def responses_def)

theorem LineSession_conserves_stream_witness:
  "\<exists>fs ls'. ''ab'' @ lf @ ''c'' = unlines lf fs @ buffer ls' \<and>
     LineSession_feeds bars (LineSession_new False lf) [''a'', ''b'' @ lf @ ''c'']
       = Some (concat (map bars fs), ls')"
proof -
  let ?ls = "LineSession_new False lf" and ?cs = "[''a'', ''b'' @ lf @ ''c'']"
  have "line_ok ?ls" "separator ?ls \<noteq> ''''" by (simp_all add: LineSession_new_def lf_def line_ok_def)
  then obtain resp ls' where run: "LineSession_feeds bars ?ls ?cs = Some (resp, ls')"
    using LineSession_feeds_total [of ?ls bars ?cs] by auto
  from LineSession_conserves_stream [OF run \<open>line_ok ?ls\<close>] run show ?thesis
    by (auto simp: LineSession_new_def)
qed

text \<open>
  C8. On input whose complete lines get no shorter (in particular on a single line), one
  iteration computes the intended framing: every complete line is answered, in order, and
  only the incomplete rest stays in the buffer.
\<close>

theorem LineSession_feed_frames:
  assumes "frames (separator ls) (buffer ls @ chunk) = (fs, rest)" and "separator ls \<noteq> ''''"
    and "line_ok ls" and "sorted (map length fs)"
  shows "LineSession_feed process ls chunk = Some (responses process ls fs, ls\<lparr>buffer := rest\<rparr>)"
  using line_loop_frames [of "ls\<lparr>buffer := buffer ls @ chunk\<rparr>" fs rest 0] assms
  by (simp add: LineSession_feed_def)

lemma frames_example: "frames lf (''a'' @ lf @ ''bc'' @ lf @ ''d'') = ([''a'', ''bc''], ''d'')"
  by (simp add: frames.simps str_find_def lf_def)

theorem LineSession_feed_frames_witness:
  "LineSession_feed bars (LineSession_new False lf) (''a'' @ lf @ ''bc'' @ lf @ ''d'')
     = Some (bars ''a'' @ bars ''bc'', (LineSession_new False lf)\<lparr>buffer := ''d''\<rparr>)"
proof -
  let ?ls = "LineSession_new False lf"
  have "frames (separator ?ls) (buffer ?ls @ (''a'' @ lf @ ''bc'' @ lf @ ''d'')) = ([''a'', ''bc''], ''d'')"
    using frames_example by (simp add: LineSession_new_def)
  from LineSession_feed_frames [OF this, of bars] show ?thesis
    by (simp add: responses_def) (simp add: LineSession_new_def lf_def line_ok_def)
qed

text \<open>
  C35. A complete line that follows a longer one in the same input is not answered: two lines
  arrive together, the second shorter than the first, and the iteration answers the first
  only and leaves the second, complete with its separator, in the buffer.
\<close>

theorem LineSession_short_line_delayed:
  assumes "frames (separator ls) (buffer ls @ chunk) = ([f, g], '''')" and "separator ls \<noteq> ''''"
    and "line_ok ls" and "length g < length f"
  shows "LineSession_feed process ls chunk =
    Some (responses process ls [f], ls\<lparr>buffer := g @ separator ls\<rparr>)"
proof -
  let ?ls = "ls\<lparr>buffer := buffer ls @ chunk\<rparr>" and ?n = "length (separator ls)"
  note fc = frames_Cons [OF assms(1,2)]
  have rest: "drop (length f + ?n) (buffer ls @ chunk) = g @ separator ls"
    using frames_unlines [OF fc(3) assms(2)] by simp
  have "str_find (g @ separator ls) (separator ls) (length f) = None"
    using assms(2,4) by (intro str_find_suffix_none) auto
  moreover have "take (length f) (buffer ls @ chunk) = f" by (subst fc(2)) simp
  ultimately show ?thesis
    using line_loop_cut [of ?ls 0 "length f" process "''''"] fc(1) assms(3) rest
    by (simp add: LineSession_feed_def line_loop_stop)
qed

theorem LineSession_short_line_delayed_witness:
  "LineSession_feed bars (LineSession_new False crlf) (''hello'' @ crlf @ ''hi'' @ crlf)
     = Some (bars ''hello'', (LineSession_new False crlf)\<lparr>buffer := ''hi'' @ crlf\<rparr>)"
proof -
  let ?ls = "LineSession_new False crlf"
  have "frames (separator ?ls) (buffer ?ls @ (''hello'' @ crlf @ ''hi'' @ crlf)) = ([''hello'', ''hi''], '''')"
    by (simp add: frames.simps str_find_def LineSession_new_def crlf_def)
  from LineSession_short_line_delayed [OF this, of bars] show ?thesis
    by (simp add: responses_def) (simp add: LineSession_new_def crlf_def line_ok_def)
qed

text \<open>
  Two lines can even be answered as one: when a short line follows a longer one and a
  third line reaches past the stale position, the second and third lines are passed to
  \<^verbatim>\<open>process\<close> together, with the separator between them as data.
\<close>

theorem LineSession_lines_merged:
  assumes "frames (separator ls) (buffer ls @ chunk) = ([f, g, h], '''')" and "separator ls \<noteq> ''''"
    and "line_ok ls" and "length g + length (separator ls) \<le> length f"
    and "length f \<le> length g + length (separator ls) + length h"
  shows "LineSession_feed process ls chunk =
    Some (responses process ls [f, g @ separator ls @ h], ls\<lparr>buffer := ''''\<rparr>)"
proof -
  let ?sep = "separator ls"
  let ?n = "length ?sep" and ?m = "length g + length ?sep + length h"
  let ?ls = "ls\<lparr>buffer := buffer ls @ chunk\<rparr>" and ?ls1 = "ls\<lparr>buffer := g @ ?sep @ h @ ?sep\<rparr>"
  note fc = frames_Cons [OF assms(1,2)]
  have rest: "drop (length f + ?n) (buffer ls @ chunk) = g @ ?sep @ h @ ?sep"
    using frames_unlines [OF fc(3) assms(2)] by simp
  note gc = frames_Cons [OF fc(3) assms(2)]
  have "frames ?sep (h @ ?sep) = ([h], '''')" using gc(3) [unfolded rest] by simp
  from frames_Cons(1) [OF this assms(2)] have h: "str_find (h @ ?sep) ?sep 0 = Some (length h)" .
  have cut: "str_find (g @ ?sep @ h @ ?sep) ?sep (length f) = Some ?m"
  proof (rule str_find_eqI)
    show "\<not> starts_with ?sep (drop k (g @ ?sep @ h @ ?sep))" if "length f \<le> k" "k < ?m" for k
      using str_find_SomeD(4) [OF h, of "k - (length g + ?n)"] that assms(4) by simp
  qed (use assms(5) in \<open>simp_all add: starts_with_iff\<close>)
  have "take (length f) (buffer ls @ chunk) = f" by (subst fc(2)) simp
  moreover have "take ?m (g @ ?sep @ h @ ?sep) = g @ ?sep @ h" "drop (?m + ?n) (g @ ?sep @ h @ ?sep) = ''''"
    by simp_all
  moreover have "str_find '''' ?sep ?m = None" using assms(2) by (simp add: str_find_def)
  ultimately show ?thesis
    using line_loop_cut [of ?ls 0 "length f" process "''''"] line_loop_cut [of ?ls1 "length f" ?m process]
      fc(1) cut assms(3) rest responses_Cons [of process ls f "[g @ ?sep @ h]"]
    by (simp add: LineSession_feed_def line_loop_stop)
qed

theorem LineSession_lines_merged_witness:
  "LineSession_feed bars (LineSession_new False lf) (''abc'' @ lf @ ''d'' @ lf @ ''efg'' @ lf)
     = Some (bars ''abc'' @ bars (''d'' @ lf @ ''efg''), LineSession_new False lf)"
proof -
  let ?ls = "LineSession_new False lf"
  have "frames (separator ?ls) (buffer ?ls @ (''abc'' @ lf @ ''d'' @ lf @ ''efg'' @ lf))
      = ([''abc'', ''d'', ''efg''], '''')"
    by (simp add: frames.simps str_find_def LineSession_new_def lf_def)
  from LineSession_lines_merged [OF this, of bars] show ?thesis
    by (simp add: responses_def) (simp add: LineSession_new_def lf_def line_ok_def)
qed

text \<open>
  The protocol of the load test's server echoes exactly: for every chunking of any input,
  the session answers, and the output followed by the buffered rest is the input.
\<close>

theorem LoadTest_echo_exact:
  "\<exists>resp ls'. LineSession_feeds (\<lambda>data. data) (LineSession_new True lf) chunks = Some (resp, ls') \<and>
     resp @ buffer ls' = concat chunks"
proof -
  let ?ls = "LineSession_new True lf"
  have "separator ?ls \<noteq> ''''" by (simp add: LineSession_new_def lf_def)
  then obtain resp ls' where run: "LineSession_feeds (\<lambda>d. d) ?ls chunks = Some (resp, ls')"
    using LineSession_feeds_total [of ?ls] by fastforce
  from LineSession_feeds_splits [OF this] obtain fs where
    fs: "splits_off (\<lambda>d. d) ?ls (buffer ?ls @ concat chunks) resp ls' fs" by auto
  then have "resp @ buffer ls' = concat chunks"
    by (auto simp: splits_off_def responses_def LineSession_new_def unlines_def)
  with run show ?thesis by blast
qed

text \<open>
  A request that is one line is answered once and completely, however it is split into
  chunks: the response is \<^verbatim>\<open>process\<close> of the line and the buffer is empty again.
\<close>

theorem LineSession_one_line_any_chunking:
  assumes "concat chunks = f @ sep" and "frames sep (f @ sep) = ([f], '''')" and "sep \<noteq> ''''"
  shows "LineSession_feeds process (LineSession_new incl sep) chunks =
    Some (process (f @ (if incl then sep else '''')), LineSession_new incl sep)"
proof -
  let ?ls = "LineSession_new incl sep"
  have "frames (separator ?ls) (buffer ?ls @ concat chunks) = ([f], '''')"
    using assms by (simp add: LineSession_new_def)
  from LineSession_feeds_single_line [OF this, of process] assms(1,3) show ?thesis
    by (simp add: LineSession_new_def responses_def line_ok_def)
qed

theorem LineSession_one_line_any_chunking_witness:
  "LineSession_feeds bars (LineSession_new False crlf) [''he'', '''', ''llo'' @ [CHR 0x0D], [CHR 0x0A]]
     = Some (bars ''hello'', LineSession_new False crlf)"
  using LineSession_one_line_any_chunking
    [of "[''he'', '''', ''llo'' @ [CHR 0x0D], [CHR 0x0A]]" "''hello''" crlf bars False]
  by (simp add: crlf_def frames.simps str_find_def)

text \<open>
  Calling a session without anything to read is harmless: when nothing is received and no
  complete line is buffered, the iteration succeeds, leaves the session as it is, and the
  world as the receive left it (nothing is sent).
\<close>

theorem session_iteration_idle:
  assumes "connection_recv os sl (session_connection s) w = (Inr '''', w1)"
    and "\<And>c p ls. s = LineSession c p ls \<Longrightarrow> str_find (buffer ls) (separator ls) 0 = None"
  shows "session_iteration os sl s w = (Inr (), s, w1)"
  using assms by (cases s) (simp_all add: conn.idle_iteration conn.line_idle_iteration)

theorem session_iteration_idle_witness:
  "fst (snd (session_iteration sim_os sim_ssl (EchoProtocol_create_session (TCPConnection 7)) sim_world))
     = EchoProtocol_create_session (TCPConnection 7)"
proof -
  let ?s = "EchoProtocol_create_session (TCPConnection 7)"
  have "connection_recv sim_os sim_ssl (session_connection ?s) sim_world
      = (Inr '''', sim_world\<lparr>sim_errno := EAGAIN\<rparr>)"
    by (simp add: EchoProtocol_create_session_def TCPConnection_recv_def io_bind_call
        recv_result_def sim_eval SOCKET_ERROR_def)
  from session_iteration_idle [OF this] show ?thesis
    by (simp add: EchoProtocol_create_session_def LineSession_new_def str_find_def crlf_def)
qed

text \<open>An iteration changes nothing of a line session but its buffer.\<close>

lemma line_loop_buffer:
  assumes "line_loop process ls i response = Some (resp, ls')"
  shows "\<exists>b. ls' = ls\<lparr>buffer := b\<rparr>"
proof -
  let ?P = "\<lambda>process ls i response (p :: string \<times> line_session). \<exists>b. snd p = ls\<lparr>buffer := b\<rparr>"
  have "?P process ls i response (resp, ls')"
  proof (rule line_loop.raw_induct [where P = ?P, OF _ assms])
    fix loop process ls i response p
    assume IH: "\<And>process ls i response p. loop process ls i response = Some p \<Longrightarrow> ?P process ls i response p"
      and eq: "(case str_find (buffer ls) (separator ls) i of
          Some j \<Rightarrow> loop process (ls\<lparr>buffer := erase0 (j + separator_len ls) (buffer ls)\<rparr>) j
            (response @ process (substr0 (j + (if include_separator ls then separator_len ls else 0)) (buffer ls)))
        | None \<Rightarrow> Some (response, ls)) = Some p"
    show "?P process ls i response p"
    proof (cases "str_find (buffer ls) (separator ls) i")
      case None
      with eq show ?thesis by (intro exI [of _ "buffer ls"]) auto
    next
      case (Some j)
      with eq IH show ?thesis by fastforce
    qed
  qed
  then show ?thesis by simp
qed

lemma line_iteration_buffer:
  assumes "LineSession_iteration recv send process ls w = (r, ls', w')"
  shows "\<exists>b. ls' = ls\<lparr>buffer := b\<rparr>"
proof -
  have "\<exists>b. ls = ls\<lparr>buffer := b\<rparr>" by (intro exI [of _ "buffer ls"]) simp
  then show ?thesis using assms line_loop_buffer
    by (fastforce simp: LineSession_iteration_def LineSession_feed_def split: prod.splits sum.splits option.splits)
qed



text \<open>
  Each iteration of a line session reads at most one receive buffer of 16384 bytes, so the
  buffered text grows by no more than that.
\<close>

theorem session_buffer_bound:
  assumes "recv_contract os" and "ssl_read_contract sl" and "line_ok ls"
    and "session_iteration os sl (LineSession c p ls) w = (r, s', w')"
  shows "\<exists>ls'. s' = LineSession c p ls' \<and> length (buffer ls') \<le> length (buffer ls) + 16384"
proof -
  obtain ls' where run: "LineSession_iteration (connection_recv os sl c) (connection_send os sl c) p ls w
      = (r, ls', w')" and s': "s' = LineSession c p ls'"
    using assms(4) by (auto split: prod.splits)
  from conn.line_buffer_bound [OF _ assms(3) run] assms(1,2) s' show ?thesis
    by (simp add: RECV_BUF_SZ_def)
qed

lemma sim_ssl_read_contract: "ssl_read_contract sim_ssl"
  by (auto simp: ssl_read_contract_def sim_ssl_def sim_recv_def split: list.splits)

theorem session_buffer_bound_witness:
  "\<exists>ls'. fst (snd (session_iteration sim_os sim_ssl (EchoProtocol_create_session (TCPConnection 7))
     (sim_world\<lparr>sim_recvs := [''hello'']\<rparr>))) = LineSession (TCPConnection 7) bars ls' \<and>
     length (buffer ls') \<le> 16384"
proof -
  obtain r s' w' where run: "session_iteration sim_os sim_ssl
      (LineSession (TCPConnection 7) bars (LineSession_new False crlf))
      (sim_world\<lparr>sim_recvs := [''hello'']\<rparr>) = (r, s', w')"
    by (metis prod.exhaust)
  have "buffer (LineSession_new False crlf) = ''''" by (simp add: LineSession_new_def)
  with session_buffer_bound [OF sim_recv_contract sim_ssl_read_contract line_ok_new run]
  show ?thesis unfolding EchoProtocol_create_session_def run by simp
qed

end
