(* ===== verification/Threads.thy ===== *)
theory Threads
  imports Session
begin

text \<open>
  The threads that own the sessions (\<^verbatim>\<open>thread/\<close>): \<^verbatim>\<open>ThreadSingle\<close> runs a session in the
  caller, \<^verbatim>\<open>ThreadMulti\<close> queues the descriptor for its worker, \<^verbatim>\<open>ThreadManager\<close> routes by
  the descriptor's remainder. All operations of a \<^verbatim>\<open>ThreadMulti\<close> hold its mutex from
  beginning to end, and so does the worker from the end of its wait to the end of the
  iteration; only its test of the stop token is outside. So the operations, the test and
  the locked section are the atomic steps of the relation \<open>tm_step\<close>, and every
  interleaving of the producers with the worker is a run of that relation.
\<close>

subsection \<open>The session interface the threads use\<close>

record ('s, 'w) session_vtable =
  vt_fd :: "'s \<Rightarrow> SOCKET"
  vt_iteration :: "'s \<Rightarrow> 'w \<Rightarrow> (failure + unit) \<times> 's \<times> 'w"
  vt_destroy :: "'s \<Rightarrow> 'w \<Rightarrow> 'w"

definition Session_vtable ::
  "('w, 'z) os_scheme \<Rightarrow> ('w, 'y) openssl_scheme \<Rightarrow> (session, 'w) session_vtable" where
  "Session_vtable os sl = \<lparr> vt_fd = session_fd, vt_iteration = session_iteration os sl,
     vt_destroy = session_destroy os sl \<rparr>"

text \<open>
  The operations on \<^verbatim>\<open>std::unordered_map<SOCKET, std::unique_ptr<Session>>\<close>: assigning to
  a key or erasing it destroys the session stored there before.
\<close>

type_synonym 's session_map = "SOCKET \<rightharpoonup> 's"

definition drop_session :: "('s, 'w) session_vtable \<Rightarrow> 's option \<Rightarrow> 'w \<Rightarrow> 'w" where
  "drop_session vt old w = (case old of None \<Rightarrow> w | Some s \<Rightarrow> vt_destroy vt s w)"

definition sessions_iterate ::
  "('s, 'w) session_vtable \<Rightarrow> SOCKET \<Rightarrow> 's session_map \<Rightarrow> 'w \<Rightarrow> (failure + unit) \<times> 's session_map \<times> 'w" where
  "sessions_iterate vt fd m w =
     (case m fd of
        None \<Rightarrow> (Inr (), m, w)
      | Some s \<Rightarrow> (case vt_iteration vt s w of (r, s', w') \<Rightarrow> (r, m(fd \<mapsto> s'), w')))"

subsection \<open>Class ThreadSingle\<close>

record 's thread_single =
  ts_sessions :: "'s session_map"

definition ThreadSingle_new :: "'s thread_single" where
  "ThreadSingle_new = \<lparr> ts_sessions = Map.empty \<rparr>"

definition ThreadSingle_add_session ::
  "('s, 'w) session_vtable \<Rightarrow> 's \<Rightarrow> 's thread_single \<Rightarrow> 'w \<Rightarrow> 's thread_single \<times> 'w" where
  "ThreadSingle_add_session vt s t w =
     (t\<lparr>ts_sessions := (ts_sessions t)(vt_fd vt s \<mapsto> s)\<rparr>,
      drop_session vt (ts_sessions t (vt_fd vt s)) w)"

definition ThreadSingle_remove_session ::
  "('s, 'w) session_vtable \<Rightarrow> SOCKET \<Rightarrow> 's thread_single \<Rightarrow> 'w \<Rightarrow> 's thread_single \<times> 'w" where
  "ThreadSingle_remove_session vt fd t w =
     (t\<lparr>ts_sessions := (ts_sessions t)(fd := None)\<rparr>, drop_session vt (ts_sessions t fd) w)"

definition ThreadSingle_data_available ::
  "('s, 'w) session_vtable \<Rightarrow> SOCKET \<Rightarrow> 's thread_single \<Rightarrow> 'w \<Rightarrow> (failure + unit) \<times> 's thread_single \<times> 'w" where
  "ThreadSingle_data_available vt fd t w =
     (case sessions_iterate vt fd (ts_sessions t) w of (r, m, w') \<Rightarrow> (r, t\<lparr>ts_sessions := m\<rparr>, w'))"

subsection \<open>Class ThreadMulti\<close>

text \<open>
  The worker is about to test the stop token (\<open>AtTest\<close>), waits for the condition variable
  (\<open>AtWait\<close>) or has left its loop (\<open>Exited\<close>).
\<close>

datatype worker_position = AtTest | AtWait | Exited

record 's thread_multi =
  tm_sessions :: "'s session_map"
  tm_queue :: "SOCKET list"
  stop_requested :: bool
  worker :: worker_position
  finished :: bool

definition ThreadMulti_new :: "'s thread_multi" where
  "ThreadMulti_new = \<lparr> tm_sessions = Map.empty, tm_queue = [], stop_requested = False,
     worker = AtTest, finished = False \<rparr>"

definition ThreadMulti_add_session ::
  "('s, 'w) session_vtable \<Rightarrow> 's \<Rightarrow> 's thread_multi \<Rightarrow> 'w \<Rightarrow> 's thread_multi \<times> 'w" where
  "ThreadMulti_add_session vt s t w =
     (t\<lparr>tm_sessions := (tm_sessions t)(vt_fd vt s \<mapsto> s)\<rparr>,
      drop_session vt (tm_sessions t (vt_fd vt s)) w)"

definition ThreadMulti_remove_session ::
  "('s, 'w) session_vtable \<Rightarrow> SOCKET \<Rightarrow> 's thread_multi \<Rightarrow> 'w \<Rightarrow> 's thread_multi \<times> 'w" where
  "ThreadMulti_remove_session vt fd t w =
     (t\<lparr>tm_sessions := (tm_sessions t)(fd := None)\<rparr>, drop_session vt (tm_sessions t fd) w)"

definition ThreadMulti_data_available :: "SOCKET \<Rightarrow> 's thread_multi \<Rightarrow> 's thread_multi" where
  "ThreadMulti_data_available fd t = t\<lparr>tm_queue := tm_queue t @ [fd]\<rparr>"

text \<open>
  The two halves of a round of the worker's loop: the test of the stop token, and what it
  does with the mutex held after the wait. The wait ends by a notification or after 10 ms, so
  the second half can run at any time; with an empty queue it does nothing. An exception that
  leaves the thread function ends the whole program.
\<close>

definition ThreadMulti_test :: "'s thread_multi \<Rightarrow> 's thread_multi" where
  "ThreadMulti_test t =
     (if stop_requested t then t\<lparr>worker := Exited, finished := True\<rparr> else t\<lparr>worker := AtWait\<rparr>)"

definition ThreadMulti_wake ::
  "('s, 'w) session_vtable \<Rightarrow> 's thread_multi \<Rightarrow> 'w \<Rightarrow> (failure + unit) \<times> 's thread_multi \<times> 'w" where
  "ThreadMulti_wake vt t w =
     (case tm_queue t of
        [] \<Rightarrow> (Inr (), t\<lparr>worker := AtTest\<rparr>, w)
      | fd # q \<Rightarrow>
          (case sessions_iterate vt fd (tm_sessions t) w of
             (r, m, w') \<Rightarrow> (r, t\<lparr>tm_sessions := m, tm_queue := q, worker := AtTest\<rparr>, w')))"

definition ThreadMulti_request_stop :: "'s thread_multi \<Rightarrow> 's thread_multi" where
  "ThreadMulti_request_stop t = t\<lparr>stop_requested := True\<rparr>"

text \<open>
  Destruction: \<^verbatim>\<open>~ThreadMulti\<close> requests the stop, and the destructor of the \<^verbatim>\<open>jthread\<close> joins
  the worker, which finishes the round it is in. Then the map destroys its sessions, in the
  unspecified order \<open>order\<close> of an unordered map.
\<close>

definition ThreadMulti_join ::
  "('s, 'w) session_vtable \<Rightarrow> 's thread_multi \<Rightarrow> 'w \<Rightarrow> (failure + unit) \<times> 's thread_multi \<times> 'w" where
  "ThreadMulti_join vt t w =
     (case worker t of
        Exited \<Rightarrow> (Inr (), t, w)
      | AtTest \<Rightarrow> (Inr (), ThreadMulti_test t, w)
      | AtWait \<Rightarrow>
          (case ThreadMulti_wake vt t w of (r, t', w') \<Rightarrow>
             (r, if r = Inr () then ThreadMulti_test t' else t', w')))"

fun destroy_sessions :: "('s, 'w) session_vtable \<Rightarrow> SOCKET list \<Rightarrow> 's session_map \<Rightarrow> 'w \<Rightarrow> 'w" where
  "destroy_sessions vt [] m w = w"
| "destroy_sessions vt (fd # order) m w = destroy_sessions vt order m (drop_session vt (m fd) w)"

definition ThreadMulti_destroy ::
  "('s, 'w) session_vtable \<Rightarrow> SOCKET list \<Rightarrow> 's thread_multi \<Rightarrow> 'w \<Rightarrow> (failure + unit) \<times> 'w" where
  "ThreadMulti_destroy vt order t w =
     (case ThreadMulti_join vt (ThreadMulti_request_stop t) w of
        (Inl e, t', w') \<Rightarrow> (Inl e, w')
      | (Inr _, t', w') \<Rightarrow> (Inr (), destroy_sessions vt order (tm_sessions t') w'))"

subsection \<open>Class Thread: dynamic dispatch\<close>

datatype 's thread = Single "'s thread_single" | Multi "'s thread_multi"

fun thread_sessions :: "'s thread \<Rightarrow> 's session_map" where
  "thread_sessions (Single t) = ts_sessions t"
| "thread_sessions (Multi t) = tm_sessions t"

fun thread_add_session ::
  "('s, 'w) session_vtable \<Rightarrow> 's \<Rightarrow> 's thread \<Rightarrow> 'w \<Rightarrow> 's thread \<times> 'w" where
  "thread_add_session vt s (Single t) w = map_prod Single id (ThreadSingle_add_session vt s t w)"
| "thread_add_session vt s (Multi t) w = map_prod Multi id (ThreadMulti_add_session vt s t w)"

fun thread_remove_session ::
  "('s, 'w) session_vtable \<Rightarrow> SOCKET \<Rightarrow> 's thread \<Rightarrow> 'w \<Rightarrow> 's thread \<times> 'w" where
  "thread_remove_session vt fd (Single t) w = map_prod Single id (ThreadSingle_remove_session vt fd t w)"
| "thread_remove_session vt fd (Multi t) w = map_prod Multi id (ThreadMulti_remove_session vt fd t w)"

fun thread_data_available ::
  "('s, 'w) session_vtable \<Rightarrow> SOCKET \<Rightarrow> 's thread \<Rightarrow> 'w \<Rightarrow> (failure + unit) \<times> 's thread \<times> 'w" where
  "thread_data_available vt fd (Single t) w =
     (case ThreadSingle_data_available vt fd t w of (r, t', w') \<Rightarrow> (r, Single t', w'))"
| "thread_data_available vt fd (Multi t) w = (Inr (), Multi (ThreadMulti_data_available fd t), w)"

subsection \<open>Class ThreadManager\<close>

datatype thread_count = Threads_Single | Threads int

fun ThreadManager_new :: "thread_count \<Rightarrow> 's thread list" where
  "ThreadManager_new (Threads n) = replicate (nat n) (Multi ThreadMulti_new)"
| "ThreadManager_new Threads_Single = [Single ThreadSingle_new]"

text \<open>
  \<^verbatim>\<open>fd % threads_.size()\<close>: the descriptor is converted to the 64-bit unsigned type of the
  size; a remainder by zero has no meaning.
\<close>

definition thread_index :: "SOCKET \<Rightarrow> nat \<Rightarrow> failure + nat" where
  "thread_index fd n =
     (if n = 0 then Inl UndefinedBehaviour
      else Inr (unat ((scast fd :: 64 word) mod word_of_nat n)))"

text \<open>\<^verbatim>\<open>threads_.at(fd % threads_.size())->f(...)\<close>\<close>

definition at_thread ::
  "SOCKET \<Rightarrow> ('t \<Rightarrow> 'w \<Rightarrow> (failure + unit) \<times> 't \<times> 'w) \<Rightarrow> 't list \<Rightarrow> 'w \<Rightarrow> (failure + unit) \<times> 't list \<times> 'w" where
  "at_thread fd f ts w =
     (case thread_index fd (length ts) of
        Inl e \<Rightarrow> (Inl e, ts, w)
      | Inr i \<Rightarrow>
          if i < length ts
          then (case f (ts ! i) w of (r, t', w') \<Rightarrow> (r, ts[i := t'], w'))
          else (Inl OutOfRange, ts, w))"

definition ThreadManager_add_session ::
  "('s, 'w) session_vtable \<Rightarrow> 's \<Rightarrow> 's thread list \<Rightarrow> 'w \<Rightarrow> (failure + unit) \<times> 's thread list \<times> 'w" where
  "ThreadManager_add_session vt s =
     at_thread (vt_fd vt s) (\<lambda>t w. (Inr (), thread_add_session vt s t w))"

definition ThreadManager_remove_session ::
  "('s, 'w) session_vtable \<Rightarrow> SOCKET \<Rightarrow> 's thread list \<Rightarrow> 'w \<Rightarrow> (failure + unit) \<times> 's thread list \<times> 'w" where
  "ThreadManager_remove_session vt fd =
     at_thread fd (\<lambda>t w. (Inr (), thread_remove_session vt fd t w))"

definition ThreadManager_data_available ::
  "('s, 'w) session_vtable \<Rightarrow> SOCKET \<Rightarrow> 's thread list \<Rightarrow> 'w \<Rightarrow> (failure + unit) \<times> 's thread list \<times> 'w" where
  "ThreadManager_data_available vt fd = at_thread fd (thread_data_available vt fd)"

subsection \<open>Runs\<close>

text \<open>The atomic steps on a \<^verbatim>\<open>ThreadMulti\<close>; the worker's locked section records the descriptor it served.\<close>

datatype 's tm_action = Add 's | Remove SOCKET | Notify SOCKET | Stop | Test | Wake "SOCKET option"

inductive tm_step ::
  "('s, 'w) session_vtable \<Rightarrow> 's thread_multi \<times> 'w \<Rightarrow> 's tm_action \<Rightarrow> 's thread_multi \<times> 'w \<Rightarrow> bool"
  for vt where
  add: "tm_step vt (t, w) (Add s) (ThreadMulti_add_session vt s t w)"
| remove: "tm_step vt (t, w) (Remove fd) (ThreadMulti_remove_session vt fd t w)"
| notify: "tm_step vt (t, w) (Notify fd) (ThreadMulti_data_available fd t, w)"
| stop: "tm_step vt (t, w) Stop (ThreadMulti_request_stop t, w)"
| test: "worker t = AtTest \<Longrightarrow> tm_step vt (t, w) Test (ThreadMulti_test t, w)"
| serve: "worker t = AtWait \<Longrightarrow> tm_queue t = fd # q \<Longrightarrow>
     ThreadMulti_wake vt t w = (Inr (), t', w') \<Longrightarrow> tm_step vt (t, w) (Wake (Some fd)) (t', w')"
| idle: "worker t = AtWait \<Longrightarrow> tm_queue t = [] \<Longrightarrow>
     ThreadMulti_wake vt t w = (Inr (), t', w') \<Longrightarrow> tm_step vt (t, w) (Wake None) (t', w')"

inductive tm_run ::
  "('s, 'w) session_vtable \<Rightarrow> 's thread_multi \<times> 'w \<Rightarrow> 's tm_action list \<Rightarrow> 's thread_multi \<times> 'w \<Rightarrow> bool"
  for vt where
  run_nil: "tm_run vt x [] x"
| run_cons: "tm_step vt x a y \<Longrightarrow> tm_run vt y acts z \<Longrightarrow> tm_run vt x (a # acts) z"

inductive_cases tm_step_cases: "tm_step vt (t, w) a (t', w')"

fun notified :: "'s tm_action list \<Rightarrow> SOCKET list" where
  "notified [] = []"
| "notified (Notify fd # acts) = fd # notified acts"
| "notified (a # acts) = notified acts"

fun served :: "'s tm_action list \<Rightarrow> SOCKET list" where
  "served [] = []"
| "served (Wake (Some fd) # acts) = fd # served acts"
| "served (a # acts) = served acts"

fun worker_steps :: "'s tm_action list \<Rightarrow> nat" where
  "worker_steps [] = 0"
| "worker_steps (Test # acts) = Suc (worker_steps acts)"
| "worker_steps (Wake x # acts) = Suc (worker_steps acts)"
| "worker_steps (a # acts) = worker_steps acts"

text \<open>A number of rounds of the worker, and the calls a \<^verbatim>\<open>ThreadSingle\<close> would have received.\<close>

fun ThreadMulti_rounds ::
  "('s, 'w) session_vtable \<Rightarrow> nat \<Rightarrow> 's thread_multi \<Rightarrow> 'w \<Rightarrow> (failure + unit) \<times> 's thread_multi \<times> 'w" where
  "ThreadMulti_rounds vt 0 t w = (Inr (), t, w)"
| "ThreadMulti_rounds vt (Suc n) t w =
     (case ThreadMulti_wake vt (ThreadMulti_test t) w of
        (Inl e, t', w') \<Rightarrow> (Inl e, t', w')
      | (Inr _, t', w') \<Rightarrow> ThreadMulti_rounds vt n t' w')"

fun ThreadSingle_calls ::
  "('s, 'w) session_vtable \<Rightarrow> SOCKET list \<Rightarrow> 's thread_single \<Rightarrow> 'w \<Rightarrow> (failure + unit) \<times> 's thread_single \<times> 'w" where
  "ThreadSingle_calls vt [] t w = (Inr (), t, w)"
| "ThreadSingle_calls vt (fd # fds) t w =
     (case ThreadSingle_data_available vt fd t w of
        (Inl e, t', w') \<Rightarrow> (Inl e, t', w')
      | (Inr _, t', w') \<Rightarrow> ThreadSingle_calls vt fds t' w')"

subsection \<open>Invariants\<close>

text \<open>Every session is stored under its own descriptor.\<close>

definition keys_ok :: "('s, 'w) session_vtable \<Rightarrow> 's session_map \<Rightarrow> bool" where
  "keys_ok vt m \<longleftrightarrow> (\<forall>fd s. m fd = Some s \<longrightarrow> vt_fd vt s = fd)"

text \<open>Every session of thread \<open>i\<close> has a descriptor that is routed to thread \<open>i\<close>.\<close>

definition routed :: "('t \<Rightarrow> 's session_map) \<Rightarrow> 't list \<Rightarrow> bool" where
  "routed sess ts \<longleftrightarrow>
     (\<forall>i < length ts. \<forall>fd \<in> dom (sess (ts ! i)). thread_index fd (length ts) = Inr i)"

text \<open>The session the manager finds for a descriptor.\<close>

definition manager_lookup :: "('t \<Rightarrow> 's session_map) \<Rightarrow> 't list \<Rightarrow> SOCKET \<Rightarrow> 's option" where
  "manager_lookup sess ts fd =
     (case thread_index fd (length ts) of Inl e \<Rightarrow> None | Inr i \<Rightarrow> sess (ts ! i) fd)"

text \<open>A manager with at least one thread; the bound is that of \<^verbatim>\<open>size_t\<close>.\<close>

definition manager_ok :: "'t list \<Rightarrow> bool" where
  "manager_ok ts \<longleftrightarrow> 0 < length ts \<and> length ts < 2 ^ 64"

text \<open>What every operation of the manager keeps: the number of threads, the routing, the keys.\<close>

definition manager_inv ::
  "('s, 'w) session_vtable \<Rightarrow> ('t \<Rightarrow> 's session_map) \<Rightarrow> 't list \<Rightarrow> bool" where
  "manager_inv vt sess ts \<longleftrightarrow>
     manager_ok ts \<and> routed sess ts \<and> (\<forall>t \<in> set ts. keys_ok vt (sess t))"

subsection \<open>Routing\<close>

lemma thread_index_mod:
  assumes "0 < n" and "n < 2 ^ 64"
  shows "thread_index fd n = Inr (unat (scast fd :: 64 word) mod n)"
  using assms by (simp add: thread_index_def unat_mod unat_of_nat)

lemma thread_index_bound: "0 < n \<Longrightarrow> n < 2 ^ 64 \<Longrightarrow> \<exists>i < n. thread_index fd n = Inr i"
  by (simp add: thread_index_mod)

lemma at_thread_eq:
  assumes "manager_ok ts"
  obtains i where "i < length ts" and "thread_index fd (length ts) = Inr i"
    and "at_thread fd f ts w = (case f (ts ! i) w of (r, t', w') \<Rightarrow> (r, ts[i := t'], w'))"
proof -
  from assms obtain i where "i < length ts" "thread_index fd (length ts) = Inr i"
    using thread_index_bound [of "length ts" fd] by (auto simp: manager_ok_def)
  then show ?thesis by (intro that) (simp_all add: at_thread_def)
qed

lemma manager_ok_update [simp]: "manager_ok (ts[i := t]) = manager_ok ts"
  by (simp add: manager_ok_def)

text \<open>Replacing the thread a descriptor is routed to, when only that descriptor's entry changes.\<close>

lemma manager_lookup_update:
  assumes "i < length ts" and "thread_index fd (length ts) = Inr i"
    and "sess t' = (sess (ts ! i))(fd := x)"
  shows "manager_lookup sess (ts[i := t']) = (manager_lookup sess ts)(fd := x)"
  using assms
  by (auto simp: manager_lookup_def fun_eq_iff nth_list_update split: sum.splits)

text \<open>Replacing a thread by one with the same sessions.\<close>

lemma manager_lookup_same:
  assumes "i < length ts" and "sess t' = sess (ts ! i)"
  shows "manager_lookup sess (ts[i := t']) = manager_lookup sess ts"
proof
  fix f
  show "manager_lookup sess (ts[i := t']) f = manager_lookup sess ts f"
    using assms by (cases "thread_index f (length ts)") (auto simp: manager_lookup_def nth_list_update)
qed

lemma routed_update:
  assumes "routed sess ts" and "thread_index fd (length ts) = Inr i"
    and "dom (sess t') \<subseteq> insert fd (dom (sess (ts ! i)))"
  shows "routed sess (ts[i := t'])"
  unfolding routed_def length_list_update
proof (intro allI impI ballI)
  fix j x
  assume j: "j < length ts" and x: "x \<in> dom (sess (ts[i := t'] ! j))"
  show "thread_index x (length ts) = Inr j"
  proof (cases "j = i")
    case True
    with x j assms(3) have "x = fd \<or> x \<in> dom (sess (ts ! i))" by auto
    with assms(1,2) j True show ?thesis by (auto simp: routed_def)
  next
    case False
    with x j assms(1) show ?thesis by (simp add: routed_def)
  qed
qed

lemma keys_ok_upd: "keys_ok vt m \<Longrightarrow> vt_fd vt s = fd \<Longrightarrow> keys_ok vt (m(fd \<mapsto> s))"
  by (simp add: keys_ok_def)

lemma keys_ok_del: "keys_ok vt m \<Longrightarrow> keys_ok vt (m(fd := None))"
  by (simp add: keys_ok_def)

lemma keys_ok_empty [simp]: "keys_ok vt Map.empty"
  by (simp add: keys_ok_def)

subsection \<open>The interface of class Session towards the threads\<close>

locale session_class =
  fixes vt :: "('s, 'w) session_vtable"
  assumes iteration_fd: "vt_iteration vt s w = (r, s', w') \<Longrightarrow> vt_fd vt s' = vt_fd vt s"
begin

lemma iterate_keys:
  assumes "sessions_iterate vt fd m w = (r, m', w')"
  shows "dom m' = dom m" and "x \<noteq> fd \<Longrightarrow> m' x = m x" and "keys_ok vt m \<Longrightarrow> keys_ok vt m'"
  using assms
  by (auto simp: sessions_iterate_def keys_ok_def dest: iteration_fd split: option.splits prod.splits if_splits)

lemma iterate_upd:
  assumes "sessions_iterate vt fd m w = (r, m', w')"
  shows "m' = m(fd := m' fd)"
  using iterate_keys(2) [OF assms] by auto

end

subsection \<open>The interface of class Thread\<close>

text \<open>
  What \<^verbatim>\<open>ThreadManager\<close> relies on: a thread's sessions form a map that the operations update
  at one key, a replaced or removed session is destroyed, a notification adds and removes
  no session.
\<close>

locale thread_class = session_class vt for vt :: "('s, 'w) session_vtable" +
  fixes sessions :: "'t \<Rightarrow> 's session_map"
    and add_session :: "'s \<Rightarrow> 't \<Rightarrow> 'w \<Rightarrow> 't \<times> 'w"
    and remove_session :: "SOCKET \<Rightarrow> 't \<Rightarrow> 'w \<Rightarrow> 't \<times> 'w"
    and data_available :: "SOCKET \<Rightarrow> 't \<Rightarrow> 'w \<Rightarrow> (failure + unit) \<times> 't \<times> 'w"
  assumes add_law: "add_session s t w = (t', w') \<Longrightarrow>
      sessions t' = (sessions t)(vt_fd vt s \<mapsto> s) \<and>
      w' = drop_session vt (sessions t (vt_fd vt s)) w"
    and remove_law: "remove_session fd t w = (t', w') \<Longrightarrow>
      sessions t' = (sessions t)(fd := None) \<and> w' = drop_session vt (sessions t fd) w"
    and data_law: "data_available fd t w = (r, t', w') \<Longrightarrow>
      sessions t' = (sessions t)(fd := sessions t' fd) \<and> dom (sessions t') = dom (sessions t) \<and>
      (keys_ok vt (sessions t) \<longrightarrow> keys_ok vt (sessions t'))"
begin

lemma manager_inv_update:
  assumes "manager_inv vt sessions ts" and "thread_index fd (length ts) = Inr i"
    and "dom (sessions t') \<subseteq> insert fd (dom (sessions (ts ! i)))" and "keys_ok vt (sessions t')"
  shows "manager_inv vt sessions (ts[i := t'])"
  using assms routed_update [of sessions ts fd i t'] set_update_subset_insert [of ts i t']
  by (auto simp: manager_inv_def)

lemma manager_add:
  assumes "manager_ok ts"
    and "at_thread (vt_fd vt s) (\<lambda>t w. (Inr (), add_session s t w)) ts w = (r, ts', w')"
  shows "r = Inr ()" and "length ts' = length ts"
    and "manager_lookup sessions ts' = (manager_lookup sessions ts)(vt_fd vt s \<mapsto> s)"
    and "w' = drop_session vt (manager_lookup sessions ts (vt_fd vt s)) w"
    and "manager_inv vt sessions ts \<Longrightarrow> manager_inv vt sessions ts'"
proof -
  obtain i where i: "i < length ts" "thread_index (vt_fd vt s) (length ts) = Inr i"
    and eq: "at_thread (vt_fd vt s) (\<lambda>t w. (Inr (), add_session s t w)) ts w =
      (case (\<lambda>t w. (Inr (), add_session s t w)) (ts ! i) w of (r, t', w') \<Rightarrow> (r, ts[i := t'], w'))"
    by (rule at_thread_eq [OF assms(1), where fd = "vt_fd vt s" and f = "\<lambda>t w. (Inr (), add_session s t w)" and w = w]) blast
  obtain t1 w1 where t1: "add_session s (ts ! i) w = (t1, w1)" by fastforce
  note law = add_law [OF t1]
  from assms(2) t1 have res: "r = Inr ()" "ts' = ts[i := t1]" "w' = w1" by (simp_all add: eq)
  show "r = Inr ()" "length ts' = length ts" using res by simp_all
  show "manager_lookup sessions ts' = (manager_lookup sessions ts)(vt_fd vt s \<mapsto> s)"
    using manager_lookup_update [OF i conjunct1 [OF law]] by (simp add: res)
  show "w' = drop_session vt (manager_lookup sessions ts (vt_fd vt s)) w"
    using law i by (simp add: res manager_lookup_def)
  assume inv: "manager_inv vt sessions ts"
  then have "keys_ok vt (sessions (ts ! i))" using i(1) by (simp add: manager_inv_def)
  with manager_inv_update [OF inv i(2)] law show "manager_inv vt sessions ts'"
    by (simp add: res keys_ok_upd subset_insertI)
qed

lemma manager_remove:
  assumes "manager_ok ts"
    and "at_thread fd (\<lambda>t w. (Inr (), remove_session fd t w)) ts w = (r, ts', w')"
  shows "r = Inr ()" and "length ts' = length ts"
    and "manager_lookup sessions ts' = (manager_lookup sessions ts)(fd := None)"
    and "w' = drop_session vt (manager_lookup sessions ts fd) w"
    and "manager_inv vt sessions ts \<Longrightarrow> manager_inv vt sessions ts'"
proof -
  obtain i where i: "i < length ts" "thread_index fd (length ts) = Inr i"
    and eq: "at_thread fd (\<lambda>t w. (Inr (), remove_session fd t w)) ts w =
      (case (\<lambda>t w. (Inr (), remove_session fd t w)) (ts ! i) w of (r, t', w') \<Rightarrow> (r, ts[i := t'], w'))"
    by (rule at_thread_eq [OF assms(1), where fd = "fd" and f = "\<lambda>t w. (Inr (), remove_session fd t w)" and w = w]) blast
  obtain t1 w1 where t1: "remove_session fd (ts ! i) w = (t1, w1)" by fastforce
  note law = remove_law [OF t1]
  from assms(2) t1 have res: "r = Inr ()" "ts' = ts[i := t1]" "w' = w1" by (simp_all add: eq)
  show "r = Inr ()" "length ts' = length ts" using res by simp_all
  show "manager_lookup sessions ts' = (manager_lookup sessions ts)(fd := None)"
    using manager_lookup_update [OF i conjunct1 [OF law]] by (simp add: res)
  show "w' = drop_session vt (manager_lookup sessions ts fd) w"
    using law i by (simp add: res manager_lookup_def)
  assume inv: "manager_inv vt sessions ts"
  then have "keys_ok vt (sessions (ts ! i))" using i(1) by (simp add: manager_inv_def)
  with manager_inv_update [OF inv i(2), of t1] law show "manager_inv vt sessions ts'"
    by (auto simp: res keys_ok_del)
qed

lemma manager_data:
  assumes "manager_ok ts" and "at_thread fd (data_available fd) ts w = (r, ts', w')"
  shows "length ts' = length ts"
    and "dom (manager_lookup sessions ts') = dom (manager_lookup sessions ts)"
    and "x \<noteq> fd \<Longrightarrow> manager_lookup sessions ts' x = manager_lookup sessions ts x"
    and "manager_inv vt sessions ts \<Longrightarrow> manager_inv vt sessions ts'"
proof -
  obtain i where i: "i < length ts" "thread_index fd (length ts) = Inr i"
    and eq: "at_thread fd (data_available fd) ts w =
      (case (data_available fd) (ts ! i) w of (r, t', w') \<Rightarrow> (r, ts[i := t'], w'))"
    by (rule at_thread_eq [OF assms(1), where fd = "fd" and f = "data_available fd" and w = w]) blast
  obtain r1 t1 w1 where t1: "data_available fd (ts ! i) w = (r1, t1, w1)" by (metis prod.exhaust)
  note law = data_law [OF t1]
  from assms(2) t1 have res: "r = r1" "ts' = ts[i := t1]" "w' = w1" by (simp_all add: eq)
  have upd: "manager_lookup sessions ts' = (manager_lookup sessions ts)(fd := sessions t1 fd)"
    using manager_lookup_update [OF i, of sessions t1] law by (simp add: res)
  have "manager_lookup sessions ts fd = sessions (ts ! i) fd" using i by (simp add: manager_lookup_def)
  with law have "sessions t1 fd = None \<longleftrightarrow> manager_lookup sessions ts fd = None" by (metis domIff)
  with upd show "dom (manager_lookup sessions ts') = dom (manager_lookup sessions ts)"
    by (auto simp: dom_def)
  show "length ts' = length ts" using res by simp
  show "x \<noteq> fd \<Longrightarrow> manager_lookup sessions ts' x = manager_lookup sessions ts x" by (simp add: upd)
  assume inv: "manager_inv vt sessions ts"
  then have "keys_ok vt (sessions (ts ! i))" using i(1) by (simp add: manager_inv_def)
  with manager_inv_update [OF inv i(2), of t1] law show "manager_inv vt sessions ts'" by (auto simp: res)
qed

end

subsection \<open>Both thread classes implement the interface\<close>

sublocale session_class \<subseteq> single: thread_class vt ts_sessions
  "ThreadSingle_add_session vt" "ThreadSingle_remove_session vt" "ThreadSingle_data_available vt"
proof unfold_locales
  fix s t w t' w' fd r
  show "ts_sessions t' = (ts_sessions t)(vt_fd vt s \<mapsto> s) \<and>
      w' = drop_session vt (ts_sessions t (vt_fd vt s)) w"
    if "ThreadSingle_add_session vt s t w = (t', w')"
    using that by (auto simp: ThreadSingle_add_session_def)
  show "ts_sessions t' = (ts_sessions t)(fd := None) \<and> w' = drop_session vt (ts_sessions t fd) w"
    if "ThreadSingle_remove_session vt fd t w = (t', w')"
    using that by (auto simp: ThreadSingle_remove_session_def)
  show "ts_sessions t' = (ts_sessions t)(fd := ts_sessions t' fd) \<and>
      dom (ts_sessions t') = dom (ts_sessions t) \<and>
      (keys_ok vt (ts_sessions t) \<longrightarrow> keys_ok vt (ts_sessions t'))"
    if "ThreadSingle_data_available vt fd t w = (r, t', w')"
  proof -
    from that obtain m where m: "sessions_iterate vt fd (ts_sessions t) w = (r, m, w')"
      and t': "ts_sessions t' = m"
      by (auto simp: ThreadSingle_data_available_def split: prod.splits)
    from iterate_upd [OF m] iterate_keys [OF m] show ?thesis by (auto simp: t')
  qed
qed

sublocale session_class \<subseteq> multi: thread_class vt tm_sessions
  "ThreadMulti_add_session vt" "ThreadMulti_remove_session vt"
  "\<lambda>fd t w. (Inr (), ThreadMulti_data_available fd t, w)"
  by unfold_locales
    (auto simp: ThreadMulti_add_session_def ThreadMulti_remove_session_def
      ThreadMulti_data_available_def)

sublocale session_class \<subseteq> dyn: thread_class vt thread_sessions
  "thread_add_session vt" "thread_remove_session vt" "thread_data_available vt"
proof unfold_locales
  fix s t w t' w' fd r
  show "thread_sessions t' = (thread_sessions t)(vt_fd vt s \<mapsto> s) \<and>
      w' = drop_session vt (thread_sessions t (vt_fd vt s)) w"
    if "thread_add_session vt s t w = (t', w')"
    using that by (cases t) (auto simp: map_prod_def dest!: single.add_law multi.add_law split: prod.splits)
  show "thread_sessions t' = (thread_sessions t)(fd := None) \<and>
      w' = drop_session vt (thread_sessions t fd) w"
    if "thread_remove_session vt fd t w = (t', w')"
    using that by (cases t) (auto simp: map_prod_def dest!: single.remove_law multi.remove_law split: prod.splits)
  show "thread_sessions t' = (thread_sessions t)(fd := thread_sessions t' fd) \<and>
      dom (thread_sessions t') = dom (thread_sessions t) \<and>
      (keys_ok vt (thread_sessions t) \<longrightarrow> keys_ok vt (thread_sessions t'))"
    if "thread_data_available vt fd t w = (r, t', w')"
  proof (cases t)
    case (Single u)
    with that obtain u' where "ThreadSingle_data_available vt fd u w = (r, u', w')" "t' = Single u'"
      by (auto split: prod.splits)
    with single.data_law Single show ?thesis by fastforce
  next
    case (Multi u)
    with that show ?thesis by (auto simp: ThreadMulti_data_available_def)
  qed
qed

lemma Session_vtable_simps [simp]:
  "vt_fd (Session_vtable os sl) = session_fd"
  "vt_iteration (Session_vtable os sl) = session_iteration os sl"
  "vt_destroy (Session_vtable os sl) = session_destroy os sl"
  by (simp_all add: Session_vtable_def)

lemma session_iteration_connection:
  "session_iteration os sl s w = (r, s', w') \<Longrightarrow> session_connection s' = session_connection s"
  by (cases s) (auto split: prod.splits)

interpretation sess: session_class "Session_vtable os sl"
  for os :: "('w, 'z) os_scheme" and sl :: "('w, 'y) openssl_scheme"
  by unfold_locales (simp add: session_fd_def session_iteration_connection)

subsection \<open>Runs of a ThreadMulti\<close>

lemmas ThreadMulti_defs = ThreadMulti_add_session_def ThreadMulti_remove_session_def
  ThreadMulti_data_available_def ThreadMulti_request_stop_def ThreadMulti_test_def ThreadMulti_wake_def

lemma tm_step_queue:
  assumes "tm_step vt (t, w) a (t', w')"
  shows "tm_queue t @ notified [a] = served [a] @ tm_queue t'"
  using assms
  by (auto elim!: tm_step_cases simp: ThreadMulti_defs split: prod.splits if_splits)

text \<open>The steps a worker has left once the stop is requested.\<close>

definition stop_fuel :: "'s thread_multi \<Rightarrow> nat" where
  "stop_fuel t = (case worker t of AtWait \<Rightarrow> 2 | AtTest \<Rightarrow> 1 | Exited \<Rightarrow> 0)"

lemma tm_step_stop:
  assumes "tm_step vt (t, w) a (t', w')" and "stop_requested t"
  shows "stop_requested t' \<and> worker_steps [a] + stop_fuel t' = stop_fuel t \<and>
    length (served [a]) + (if worker t' = AtWait then 1 else 0) = (if worker t = AtWait \<and> a \<noteq> Wake None then 1 else 0)"
  using assms
  by (auto elim!: tm_step_cases simp: ThreadMulti_defs stop_fuel_def split: prod.splits if_splits)

lemma notified_Cons: "notified (a # acts) = notified [a] @ notified acts"
  by (cases a) simp_all

lemma served_Cons: "served (a # acts) = served [a] @ served acts"
  by (cases "[a]" rule: served.cases) simp_all

lemma tm_run_queue:
  assumes "tm_run vt (t, w) acts (t', w')"
  shows "tm_queue t @ notified acts = served acts @ tm_queue t'"
  using assms
proof (induction "(t, w)" acts "(t', w')" arbitrary: t w rule: tm_run.induct)
  case run_nil
  then show ?case by simp
next
  case (run_cons a y acts)
  obtain t1 w1 where y: "y = (t1, w1)" by fastforce
  from tm_step_queue(1) [OF run_cons.hyps(1) [unfolded y]] run_cons.hyps(3) [OF y]
  show ?case
    by (subst notified_Cons, subst served_Cons) (metis append.assoc)
qed

lemma worker_steps_Cons: "worker_steps (a # acts) = worker_steps [a] + worker_steps acts"
  by (cases a) simp_all

lemma tm_run_stopping:
  assumes "tm_run vt (t, w) acts (t', w')" and "stop_requested t"
  shows "stop_requested t' \<and> worker_steps acts + stop_fuel t' = stop_fuel t \<and>
    length (served acts) \<le> (if worker t = AtWait then 1 else 0)"
  using assms
proof (induction "(t, w)" acts "(t', w')" arbitrary: t w rule: tm_run.induct)
  case run_nil
  then show ?case by simp
next
  case (run_cons a y acts)
  obtain t1 w1 where y: "y = (t1, w1)" by fastforce
  from tm_step_stop [OF run_cons.hyps(1) [unfolded y] run_cons.prems] run_cons.hyps(3) [OF y]
  show ?case
    by (subst served_Cons, subst worker_steps_Cons) (auto split: if_splits)
qed

context session_class
begin

lemma tm_step_keys:
  assumes "tm_step vt (t, w) a (t', w')" and "keys_ok vt (tm_sessions t)"
  shows "keys_ok vt (tm_sessions t')"
  using assms
  by (auto elim!: tm_step_cases
      simp: ThreadMulti_defs keys_ok_upd keys_ok_del
      split: prod.splits if_splits) (metis iterate_keys(3))

lemma tm_run_keys:
  assumes "tm_run vt (t, w) acts (t', w')" and "keys_ok vt (tm_sessions t)"
  shows "keys_ok vt (tm_sessions t')"
  using assms
proof (induction "(t, w)" acts "(t', w')" arbitrary: t w rule: tm_run.induct)
  case run_nil
  then show ?case by simp
next
  case (run_cons a y acts)
  obtain t1 w1 where y: "y = (t1, w1)" by fastforce
  from tm_step_keys [OF run_cons.hyps(1) [unfolded y] run_cons.prems] run_cons.hyps(3) [OF y]
  show ?case by simp
qed

end

text \<open>The worker catching up with its queue does what direct calls would have done.\<close>

lemma ThreadMulti_rounds_calls:
  assumes "\<not> stop_requested t" and "tm_queue t = fds" and "tm_sessions t = ts_sessions u"
    and "ThreadMulti_rounds vt (length fds) t w = (r, t', w')"
    and "ThreadSingle_calls vt fds u w = (r2, u', w2')"
  shows "r = r2 \<and> tm_sessions t' = ts_sessions u' \<and> w' = w2' \<and> (r = Inr () \<longrightarrow> tm_queue t' = [])"
  using assms
proof (induction fds arbitrary: t u w)
  case Nil
  then show ?case by simp
next
  case (Cons fd fds)
  obtain r1 m w1 where it: "sessions_iterate vt fd (ts_sessions u) w = (r1, m, w1)"
    by (metis prod.exhaust)
  let ?t = "(ThreadMulti_test t)\<lparr>tm_sessions := m, tm_queue := fds, worker := AtTest\<rparr>"
  have round: "ThreadMulti_wake vt (ThreadMulti_test t) w = (r1, ?t, w1)"
    using Cons.prems(1-3) it by (simp add: ThreadMulti_defs)
  have call: "ThreadSingle_data_available vt fd u w = (r1, u\<lparr>ts_sessions := m\<rparr>, w1)"
    using it by (simp add: ThreadSingle_data_available_def)
  show ?case
  proof (cases r1)
    case (Inl e)
    with Cons.prems(4,5) round call show ?thesis by auto
  next
    case (Inr x)
    with Cons.prems(4,5) round call
    have "ThreadMulti_rounds vt (length fds) ?t w1 = (r, t', w')"
      "ThreadSingle_calls vt fds (u\<lparr>ts_sessions := m\<rparr>) w1 = (r2, u', w2')" by simp_all
    from Cons.IH [OF _ _ _ this] Cons.prems(1) show ?thesis by (simp add: ThreadMulti_test_def)
  qed
qed

subsection \<open>Properties\<close>

lemma manager_inv_new:
  assumes "c = Threads_Single \<or> (\<exists>n. c = Threads n \<and> 0 < n \<and> n < 2 ^ 31)"
  shows "manager_inv vt thread_sessions (ThreadManager_new c)"
  using assms
  by (auto simp: manager_inv_def manager_ok_def routed_def ThreadMulti_new_def ThreadSingle_new_def)

lemma manager_lookup_new:
  assumes "manager_ok (ThreadManager_new c :: 's thread list)"
  shows "manager_lookup thread_sessions (ThreadManager_new c :: 's thread list) fd = None"
proof -
  let ?ts = "ThreadManager_new c :: 's thread list"
  from assms obtain i where i: "i < length ?ts" "thread_index fd (length ?ts) = Inr i"
    using thread_index_bound [of "length ?ts" fd] by (auto simp: manager_ok_def)
  have "thread_sessions t = Map.empty" if "t \<in> set ?ts" for t
    using that by (cases c) (auto simp: ThreadMulti_new_def ThreadSingle_new_def)
  with i show ?thesis by (simp add: manager_lookup_def)
qed

lemma unat_scast_socket:
  assumes "0 \<le> sint (fd :: SOCKET)" shows "unat (scast fd :: 64 word) = nat (sint fd)"
proof -
  have l: "sint fd < 2 ^ 31" using sint_lt [of fd] by simp
  have "uint (scast fd :: 64 word) = sint fd mod 2 ^ 64"
    unfolding scast_eq by (subst uint_word_of_int) simp
  also have "\<dots> = sint fd" using assms l by (intro mod_pos_pos_trivial) auto
  finally show ?thesis by (simp add: unat_eq_nat_uint)
qed

text \<open>
  For a valid (non-negative) descriptor and any positive number of threads, the session's
  thread is the descriptor modulo the number of threads, so \<^verbatim>\<open>threads_.at\<close> is always called
  with an index in range.
\<close>

theorem thread_index_valid:
  assumes "0 \<le> sint fd" and "0 < n" and "n < 2 ^ 64"
  shows "thread_index fd n = Inr (nat (sint fd) mod n) \<and> nat (sint fd) mod n < n"
  using assms unat_scast_socket [of fd] by (simp add: thread_index_mod)

theorem thread_index_valid_witness: "thread_index 7 2 = Inr 1"
  using thread_index_valid [of 7 2] by simp

text \<open>
  A server asked for zero or a negative number of worker threads has no thread at all, and
  the first operation of its thread manager, whichever it is, computes a remainder by zero.
\<close>

theorem ThreadManager_no_threads:
  assumes "n \<le> 0"
  shows "fst (ThreadManager_add_session vt s (ThreadManager_new (Threads n)) w) = Inl UndefinedBehaviour \<and>
    fst (ThreadManager_remove_session vt fd (ThreadManager_new (Threads n)) w) = Inl UndefinedBehaviour \<and>
    fst (ThreadManager_data_available vt fd (ThreadManager_new (Threads n)) w) = Inl UndefinedBehaviour"
  using assms
  by (simp add: ThreadManager_add_session_def ThreadManager_remove_session_def
      ThreadManager_data_available_def at_thread_def thread_index_def)

abbreviation sim_vt :: "(session, sim) session_vtable" where
  "sim_vt \<equiv> Session_vtable sim_os sim_ssl"

abbreviation sim_session :: "SOCKET \<Rightarrow> session" where
  "sim_session fd \<equiv> TestProtocol_create_session (TCPConnection fd)"

theorem ThreadManager_no_threads_witness:
  "fst (ThreadManager_add_session sim_vt (sim_session 7) (ThreadManager_new (Threads 0)) sim_world)
     = Inl UndefinedBehaviour"
  using ThreadManager_no_threads [of 0 sim_vt "sim_session 7" sim_world 7] by simp

text \<open>
  C22. \<^verbatim>\<open>ThreadManager::add_session\<close> stores the session where the manager will look for it: its
  descriptor is found again as this session, no other descriptor's session changes, a
  session stored there before is destroyed, and the invariant (sessions under their own
  descriptors, in the thread their descriptor is routed to) is kept.
\<close>

theorem ThreadManager_add_lookup:
  assumes "manager_inv (Session_vtable os sl) thread_sessions ts"
    and "ThreadManager_add_session (Session_vtable os sl) s ts w = (r, ts', w')"
  shows "r = Inr () \<and>
    manager_lookup thread_sessions ts' = (manager_lookup thread_sessions ts)(session_fd s \<mapsto> s) \<and>
    w' = drop_session (Session_vtable os sl) (manager_lookup thread_sessions ts (session_fd s)) w \<and>
    manager_inv (Session_vtable os sl) thread_sessions ts'"
  using assms sess.dyn.manager_add [of ts os sl s w r ts' w']
  by (simp add: ThreadManager_add_session_def manager_inv_def)

lemma sim_manager_inv: "manager_inv vt thread_sessions (ThreadManager_new (Threads 2))"
  by (rule manager_inv_new) simp

lemma session_fd_sim [simp]: "session_fd (sim_session fd) = fd"
  by (simp add: session_fd_def TestProtocol_create_session_def)

theorem ThreadManager_add_lookup_witness:
  "manager_lookup thread_sessions
     (fst (snd (ThreadManager_add_session sim_vt (sim_session 7) (ThreadManager_new (Threads 2)) sim_world))) 7
   = Some (sim_session 7)"
proof -
  obtain r ts' w' where run: "ThreadManager_add_session sim_vt (sim_session 7)
      (ThreadManager_new (Threads 2)) sim_world = (r, ts', w')" by (metis prod.exhaust)
  from ThreadManager_add_lookup [OF sim_manager_inv run] show ?thesis unfolding run by simp
qed

text \<open>
  \<^verbatim>\<open>ThreadManager::remove_session\<close> removes and destroys the session of the descriptor if
  there is one, changes no other session and keeps the invariant; removing an unknown
  descriptor changes nothing in the world.
\<close>

theorem ThreadManager_remove_lookup:
  assumes "manager_inv (Session_vtable os sl) thread_sessions ts"
    and "ThreadManager_remove_session (Session_vtable os sl) fd ts w = (r, ts', w')"
  shows "r = Inr () \<and>
    manager_lookup thread_sessions ts' = (manager_lookup thread_sessions ts)(fd := None) \<and>
    w' = (case manager_lookup thread_sessions ts fd of
        None \<Rightarrow> w | Some s \<Rightarrow> connection_destroy os sl (session_connection s) w) \<and>
    manager_inv (Session_vtable os sl) thread_sessions ts'"
  using assms sess.dyn.manager_remove [of ts fd os sl w r ts' w']
  by (auto simp: ThreadManager_remove_session_def manager_inv_def drop_session_def session_destroy_def
      split: option.splits)

theorem ThreadManager_remove_lookup_witness:
  "snd (snd (ThreadManager_remove_session sim_vt 7 (ThreadManager_new (Threads 2)) sim_world)) = sim_world"
proof -
  obtain r ts' w' where run: "ThreadManager_remove_session sim_vt 7
      (ThreadManager_new (Threads 2)) sim_world = (r, ts', w')" by (metis prod.exhaust)
  have "manager_lookup thread_sessions (ThreadManager_new (Threads 2) :: session thread list) 7 = None"
    by (rule manager_lookup_new) (simp add: manager_ok_def)
  with ThreadManager_remove_lookup [OF sim_manager_inv run] show ?thesis
    unfolding run by (simp del: ThreadManager_new.simps)
qed

text \<open>
  \<^verbatim>\<open>ThreadManager::data_available\<close> neither adds nor removes a session, touches no session
  but the one of the descriptor it is called for, and keeps the invariant, whether or not the
  iteration raises.
\<close>

theorem ThreadManager_data_frame:
  assumes "manager_inv (Session_vtable os sl) thread_sessions ts"
    and "ThreadManager_data_available (Session_vtable os sl) fd ts w = (r, ts', w')"
  shows "manager_inv (Session_vtable os sl) thread_sessions ts' \<and>
    dom (manager_lookup thread_sessions ts') = dom (manager_lookup thread_sessions ts) \<and>
    (\<forall>x. x \<noteq> fd \<longrightarrow> manager_lookup thread_sessions ts' x = manager_lookup thread_sessions ts x)"
  using assms sess.dyn.manager_data [of ts fd os sl w r ts' w']
  by (auto simp: ThreadManager_data_available_def manager_inv_def)

theorem ThreadManager_data_frame_witness:
  "manager_inv sim_vt thread_sessions (fst (snd
     (ThreadManager_data_available sim_vt 7 (ThreadManager_new (Threads 2)) sim_world)))"
proof -
  obtain r ts' w' where run: "ThreadManager_data_available sim_vt 7
      (ThreadManager_new (Threads 2)) sim_world = (r, ts', w')" by (metis prod.exhaust)
  from ThreadManager_data_frame [OF sim_manager_inv run] show ?thesis unfolding run by simp
qed

text \<open>
  With \<^verbatim>\<open>Threads::Single\<close> a notification runs one iteration of the descriptor's session
  in the caller, stores the session it leaves and passes its exception on; for a descriptor
  without a session nothing happens.
\<close>

theorem ThreadManager_single_dispatch:
  "ThreadManager_data_available (Session_vtable os sl) fd [Single t] w =
     (case ts_sessions t fd of
        None \<Rightarrow> (Inr (), [Single t], w)
      | Some s \<Rightarrow>
          (case session_iteration os sl s w of (r, s', w') \<Rightarrow>
             (r, [Single (t\<lparr>ts_sessions := (ts_sessions t)(fd \<mapsto> s')\<rparr>)], w')))"
  by (simp add: ThreadManager_data_available_def at_thread_def thread_index_mod
      ThreadSingle_data_available_def sessions_iterate_def split: option.splits prod.splits)

text \<open>
  C9. For every interleaving of notifications, additions, removals, stop requests and rounds of
  the worker, the descriptors served followed by those still queued are the ones queued at
  first followed by those notified: every notification is served at most once, in order, and
  none is lost.
\<close>

theorem ThreadMulti_fifo:
  assumes "tm_run vt (t, w) acts (t', w')"
  shows "tm_queue t @ notified acts = served acts @ tm_queue t'"
  using assms by (rule tm_run_queue)

lemma sim_run_notify:
  "tm_run sim_vt (ThreadMulti_new, sim_world) [Notify 7, Test, Wake (Some 7)]
     (ThreadMulti_new, sim_world)"
proof -
  have "sessions_iterate sim_vt 7 (tm_sessions ThreadMulti_new) sim_world = (Inr (), Map.empty, sim_world)"
    by (simp add: sessions_iterate_def ThreadMulti_new_def)
  then show ?thesis
    by (intro run_cons run_nil notify serve test)
      (auto simp: ThreadMulti_defs ThreadMulti_new_def intro: tm_step.intros tm_run.intros)
qed

theorem ThreadMulti_fifo_witness:
  "served [Notify 7, Test, Wake (Some 7)] = [7] \<and> tm_queue (ThreadMulti_new :: session thread_multi) = []"
  using ThreadMulti_fifo [OF sim_run_notify] by (simp add: ThreadMulti_new_def)

text \<open>
  C19. After a stop request the worker makes at most two more steps and serves at most one more
  descriptor, and it has made all of its steps exactly when it has left its loop: no run
  of the thread keeps it from ending.
\<close>

theorem ThreadMulti_stops:
  assumes "tm_run vt (t, w) acts (t', w')" and "stop_requested t"
  shows "worker_steps acts \<le> 2 \<and> length (served acts) \<le> 1 \<and>
    (worker t' = Exited \<longleftrightarrow> worker_steps acts = stop_fuel t)"
  using tm_run_stopping [OF assms]
  by (auto simp: stop_fuel_def split: worker_position.splits if_splits)

lemma sim_run_stop:
  "tm_run sim_vt (ThreadMulti_request_stop (ThreadMulti_test (ThreadMulti_data_available 7 ThreadMulti_new)), sim_world)
     [Wake (Some 7), Test] (ThreadMulti_test (ThreadMulti_request_stop ThreadMulti_new), sim_world)"
proof -
  let ?t = "ThreadMulti_request_stop ThreadMulti_new"
  have "tm_step sim_vt (ThreadMulti_request_stop (ThreadMulti_test (ThreadMulti_data_available 7 ThreadMulti_new)),
      sim_world) (Wake (Some 7)) (?t, sim_world)"
    by (rule serve) (auto simp: ThreadMulti_defs ThreadMulti_new_def sessions_iterate_def)
  moreover have "tm_step sim_vt (?t, sim_world) Test (ThreadMulti_test ?t, sim_world)"
    by (rule test) (simp add: ThreadMulti_defs ThreadMulti_new_def)
  ultimately show ?thesis by (blast intro: tm_run.intros)
qed

theorem ThreadMulti_stops_witness:
  "stop_fuel (ThreadMulti_request_stop (ThreadMulti_test (ThreadMulti_data_available 7
     (ThreadMulti_new :: session thread_multi)))) = 2"
  using ThreadMulti_stops [OF sim_run_stop]
  by (simp add: ThreadMulti_defs ThreadMulti_new_def)

text \<open>
  C16. A worker that catches up with its queue leaves the sessions, the world and the
  exception that the same notifications made to a \<^verbatim>\<open>ThreadSingle\<close> would have left:
  queueing changes when a session runs and nothing else.
\<close>

theorem ThreadMulti_refines_single:
  assumes "\<not> stop_requested t"
    and "ThreadMulti_rounds vt (length (tm_queue t)) t w = (r, t', w')"
    and "ThreadSingle_calls vt (tm_queue t) \<lparr> ts_sessions = tm_sessions t \<rparr> w = (r2, u', w2)"
  shows "r = r2 \<and> tm_sessions t' = ts_sessions u' \<and> w' = w2 \<and> (r = Inr () \<longrightarrow> tm_queue t' = [])"
  by (rule ThreadMulti_rounds_calls [OF assms(1) refl _ assms(2,3)]) simp

definition sim_multi :: "session thread_multi" where
  "sim_multi = ThreadMulti_data_available 7 (ThreadMulti_data_available 9
     (ThreadMulti_new\<lparr>tm_sessions := [7 \<mapsto> sim_session 7]\<rparr>))"

theorem ThreadMulti_refines_single_witness:
  "tm_queue sim_multi = [9, 7] \<and>
   snd (snd (ThreadMulti_rounds sim_vt 2 sim_multi sim_world)) =
   snd (snd (ThreadSingle_calls sim_vt [9, 7] \<lparr> ts_sessions = tm_sessions sim_multi \<rparr> sim_world))"
proof -
  have q: "tm_queue sim_multi = [9, 7]" and st: "\<not> stop_requested sim_multi"
    by (simp_all add: sim_multi_def ThreadMulti_data_available_def ThreadMulti_new_def)
  obtain r t' w' where a: "ThreadMulti_rounds sim_vt (length (tm_queue sim_multi)) sim_multi sim_world = (r, t', w')"
    by (metis prod.exhaust)
  obtain r2 u' w2 where b: "ThreadSingle_calls sim_vt (tm_queue sim_multi)
      \<lparr> ts_sessions = tm_sessions sim_multi \<rparr> sim_world = (r2, u', w2)" by (metis prod.exhaust)
  from ThreadMulti_refines_single [OF st a b] a b show ?thesis
    by (simp add: q numeral_2_eq_2 del: ThreadMulti_rounds.simps ThreadSingle_calls.simps)
qed

text \<open>
  In every state a \<^verbatim>\<open>ThreadMulti\<close> reaches from a state in which each session is stored under
  its own descriptor, this is still so, whatever the interleaving; the empty initial state is
  such a state.
\<close>

theorem ThreadMulti_keys_invariant:
  assumes "tm_run (Session_vtable os sl) (ThreadMulti_new, w) acts (t', w')"
  shows "\<forall>fd s. tm_sessions t' fd = Some s \<longrightarrow> session_fd s = fd"
  using sess.tm_run_keys [OF assms] by (simp add: ThreadMulti_new_def keys_ok_def)

lemma sim_run_add:
  "tm_run sim_vt (ThreadMulti_new, sim_world) [Add (sim_session 7)]
     (ThreadMulti_new\<lparr>tm_sessions := [7 \<mapsto> sim_session 7]\<rparr>, sim_world)"
proof -
  have "ThreadMulti_add_session sim_vt (sim_session 7) ThreadMulti_new sim_world
      = (ThreadMulti_new\<lparr>tm_sessions := [7 \<mapsto> sim_session 7]\<rparr>, sim_world)"
    by (simp add: ThreadMulti_add_session_def ThreadMulti_new_def drop_session_def)
  then show ?thesis
    using tm_step.add [of sim_vt ThreadMulti_new sim_world "sim_session 7"]
    by (auto intro: tm_run.intros)
qed

theorem ThreadMulti_keys_invariant_witness: "session_fd (sim_session 7) = 7"
  using ThreadMulti_keys_invariant [OF sim_run_add] by (simp del: session_fd_sim)

lemma drop_session_open:
  assumes "fd_table_contract os" and "ssl_fd_contract os sl"
  shows "os_open os (drop_session (Session_vtable os sl) x w) =
    os_open os w - session_fd ` set_option x"
  by (cases x)
    (simp_all add: drop_session_def session_destroy_def session_fd_def connection_destroy_open [OF assms])

lemma destroy_sessions_open:
  assumes "fd_table_contract os" and "ssl_fd_contract os sl"
    and "keys_ok (Session_vtable os sl) m"
  shows "os_open os (destroy_sessions (Session_vtable os sl) order m w) = os_open os w - (set order \<inter> dom m)"
  using assms(3)
proof (induction order arbitrary: w)
  case Nil
  then show ?case by simp
next
  case (Cons fd order)
  then have "session_fd ` set_option (m fd) = {fd} \<inter> dom m"
    by (cases "m fd") (auto simp: keys_ok_def)
  then show ?case using Cons by (auto simp: drop_session_open [OF assms(1,2)])
qed

lemma sessions_iterate_open:
  assumes "fd_table_contract os" and "ssl_fd_contract os sl"
    and "sessions_iterate (Session_vtable os sl) fd m w = (r, m', w')"
  shows "os_open os w' = os_open os w"
  using assms(3) session_iteration_open [OF assms(1,2)]
  by (auto simp: sessions_iterate_def split: option.splits prod.splits)

lemma ThreadMulti_wake_frame:
  assumes "fd_table_contract os" and "ssl_fd_contract os sl"
    and "ThreadMulti_wake (Session_vtable os sl) t w = (r, t', w')"
  shows "os_open os w' = os_open os w \<and> dom (tm_sessions t') = dom (tm_sessions t) \<and>
    (keys_ok (Session_vtable os sl) (tm_sessions t) \<longrightarrow> keys_ok (Session_vtable os sl) (tm_sessions t'))"
  using assms(3) sessions_iterate_open [OF assms(1,2)] sess.iterate_keys(1,3)
  by (fastforce simp: ThreadMulti_wake_def split: list.splits prod.splits)

lemma ThreadMulti_test_sessions [simp]: "tm_sessions (ThreadMulti_test t) = tm_sessions t"
  by (simp add: ThreadMulti_test_def)

lemma ThreadMulti_join_frame:
  assumes "fd_table_contract os" and "ssl_fd_contract os sl"
    and "ThreadMulti_join (Session_vtable os sl) t w = (r, t', w')"
  shows "os_open os w' = os_open os w \<and> dom (tm_sessions t') = dom (tm_sessions t) \<and>
    (keys_ok (Session_vtable os sl) (tm_sessions t) \<longrightarrow> keys_ok (Session_vtable os sl) (tm_sessions t'))"
proof (cases "worker t")
  case AtWait
  then obtain t1 where "ThreadMulti_wake (Session_vtable os sl) t w = (r, t1, w')"
    and "tm_sessions t' = tm_sessions t1"
    using assms(3) by (auto simp: ThreadMulti_join_def split: prod.splits if_splits)
  then show ?thesis using ThreadMulti_wake_frame [OF assms(1,2)] by metis
qed (use assms(3) in \<open>auto simp: ThreadMulti_join_def\<close>)

text \<open>
  Destroying a \<^verbatim>\<open>ThreadMulti\<close> whose worker ends without an exception closes the descriptors
  of all of its sessions, in whatever order the map destroys them, and no other descriptor.
\<close>

theorem ThreadMulti_destroy_closes:
  assumes "fd_table_contract os" and "ssl_fd_contract os sl"
    and "keys_ok (Session_vtable os sl) (tm_sessions t)" and "set order = dom (tm_sessions t)"
    and "ThreadMulti_destroy (Session_vtable os sl) order t w = (Inr (), w')"
  shows "os_open os w' = os_open os w - dom (tm_sessions t)"
proof -
  obtain r t1 w1 where join: "ThreadMulti_join (Session_vtable os sl) (ThreadMulti_request_stop t) w = (r, t1, w1)"
    by (metis prod.exhaust)
  from assms(5) have w': "w' = destroy_sessions (Session_vtable os sl) order (tm_sessions t1) w1"
    by (auto simp: ThreadMulti_destroy_def join split: sum.splits)
  from ThreadMulti_join_frame [OF assms(1,2) join] assms(3,4)
  have "os_open os w1 = os_open os w" "set order \<inter> dom (tm_sessions t1) = dom (tm_sessions t)"
    "keys_ok (Session_vtable os sl) (tm_sessions t1)" by (auto simp: ThreadMulti_request_stop_def)
  with destroy_sessions_open [OF assms(1,2)] show ?thesis by (simp add: w')
qed

theorem ThreadMulti_destroy_closes_witness:
  "sim_open (snd (ThreadMulti_destroy sim_vt [7] sim_multi (sim_world\<lparr>sim_open := {3, 7}\<rparr>))) = {3}"
proof -
  let ?w = "sim_world\<lparr>sim_open := {3, 7}\<rparr>"
  have dom: "dom (tm_sessions sim_multi) = {7}" and keys: "keys_ok sim_vt (tm_sessions sim_multi)"
    by (auto simp: sim_multi_def ThreadMulti_data_available_def keys_ok_def split: if_splits)
  have "fst (ThreadMulti_destroy sim_vt [7] sim_multi ?w) = Inr ()"
    by (simp add: ThreadMulti_destroy_def ThreadMulti_join_def sim_multi_def ThreadMulti_defs ThreadMulti_new_def)
  then obtain w' where run: "ThreadMulti_destroy sim_vt [7] sim_multi ?w = (Inr (), w')"
    by (metis prod.collapse)
  from ThreadMulti_destroy_closes [OF sim_fd_table_contract sim_ssl_fd_contract keys _ run]
  have "os_open sim_os w' = {3, 7} - {7}" by (simp add: dom sim_os_def)
  then show ?thesis unfolding run by (simp add: sim_os_def insert_Diff_if)
qed

end
