(* ===== verification/Poller.thy ===== *)
theory Poller
  imports Threads
begin

text \<open>
  Class \<^verbatim>\<open>Poller\<close> (\<^verbatim>\<open>server/poller/\<close>), which tells the server what happened on its sockets. The
  build selects one of three implementations: epoll (\<^verbatim>\<open>poller.linux.cpp\<close>), kqueue
  (\<^verbatim>\<open>poller.bsd.cpp\<close>) or WSAPoll (\<^verbatim>\<open>poller.win32.cpp\<close>). Each is a record of its members and
  three operations; \<open>poller_vtable\<close> is what the server calls. The kernel interfaces are
  parameters (\<open>epoll\<close>, \<open>kqueue\<close>, \<open>wsapoll\<close>), their last field an observer of the
  registered descriptors. The locale \<open>poller_class\<close> states what all three promise,
  \<open>exact_poller\<close> what the epoll and kqueue ones promise in addition: one event per
  descriptor, and a disconnected descriptor is no longer registered.
\<close>

subsection \<open>Class Poller\<close>

datatype EventType = NewClient | ClientDataReady | ClientDisconnected

record Event =
  ev_type :: EventType
  ev_fd :: SOCKET

definition mk_Event :: "EventType \<Rightarrow> SOCKET \<Rightarrow> Event" where
  "mk_Event ty fd = \<lparr> ev_type = ty, ev_fd = fd \<rparr>"

definition EVENT_BUFFER_SZ :: nat where "EVENT_BUFFER_SZ = 64"

text \<open>The default argument of \<^verbatim>\<open>wait\<close>, in milliseconds.\<close>

definition wait_timeout :: int where "wait_timeout = 50"

text \<open>The conversion of a 64-bit count of milliseconds to \<^verbatim>\<open>int\<close>.\<close>

definition int_of_count :: "int \<Rightarrow> int" where
  "int_of_count n = sint (word_of_int n :: 32 word)"

record ('p, 'w) poller_vtable =
  pl_wait :: "'p \<Rightarrow> 'w \<Rightarrow> (failure + Event list) \<times> 'p \<times> 'w"
  pl_add_client :: "SOCKET \<Rightarrow> 'p \<Rightarrow> 'w \<Rightarrow> (failure + unit) \<times> 'p \<times> 'w"
  pl_destroy :: "'p \<Rightarrow> 'w \<Rightarrow> 'w"

text \<open>A call that leaves the members of the poller alone.\<close>

definition const_state :: "('a, 'w) io \<Rightarrow> 'p \<Rightarrow> 'w \<Rightarrow> (failure + 'a) \<times> 'p \<times> 'w" where
  "const_state m p w = (case m w of (r, w') \<Rightarrow> (r, p, w'))"

subsection \<open>Linux: epoll\<close>

record 'w epoll =
  ep_create1 :: "'w \<Rightarrow> SOCKET \<times> 'w"
  ep_ctl_add :: "SOCKET \<Rightarrow> SOCKET \<Rightarrow> 32 word \<Rightarrow> SOCKET \<Rightarrow> 'w \<Rightarrow> int \<times> 'w"
  ep_ctl_del :: "SOCKET \<Rightarrow> SOCKET \<Rightarrow> 'w \<Rightarrow> int \<times> 'w"
  ep_wait :: "SOCKET \<Rightarrow> nat \<Rightarrow> int \<Rightarrow> 'w \<Rightarrow> (int \<times> (32 word \<times> SOCKET) list) \<times> 'w"
  ep_interest :: "'w \<Rightarrow> SOCKET \<Rightarrow> SOCKET set"

definition EPOLLIN :: "32 word" where "EPOLLIN = 0x1"
definition EPOLLERR :: "32 word" where "EPOLLERR = 0x8"
definition EPOLLHUP :: "32 word" where "EPOLLHUP = 0x10"
definition EPOLLRDHUP :: "32 word" where "EPOLLRDHUP = 0x2000"
definition EPOLLET :: "32 word" where "EPOLLET = 0x80000000"

record linux_poller =
  lp_server_fd :: SOCKET
  epoll_fd :: SOCKET

definition LinuxPoller_new ::
  "('w, 'z) os_scheme \<Rightarrow> ('w, 'e) epoll_scheme \<Rightarrow> SOCKET \<Rightarrow> (linux_poller, 'w) io" where
  "LinuxPoller_new os ep fd =
     io_bind (io_call (ep_create1 ep)) (\<lambda>epfd.
       if sint epfd < 0 then throw_errno os NonRecoverableException ''Could not initialize epoll: ''
       else io_bind (io_call (ep_ctl_add ep epfd fd EPOLLIN fd)) (\<lambda>r.
         if r < 0
         then throw_errno os NonRecoverableException ''Could not initialize socket fd in epoll: ''
         else io_bind (io_do (log_with os (DBG (''epoll fd '' @ show_int (sint epfd))))) (\<lambda>_.
           io_return \<lparr> lp_server_fd = fd, epoll_fd = epfd \<rparr>)))"

text \<open>One round of the loop over the reported events: the events it appends.\<close>

definition linux_event ::
  "('w, 'z) os_scheme \<Rightarrow> ('w, 'e) epoll_scheme \<Rightarrow> linux_poller \<Rightarrow> 32 word \<times> SOCKET \<Rightarrow> (Event list, 'w) io"
where
  "linux_event os ep p = (\<lambda>(events, fd).
     if fd = lp_server_fd p then io_return [mk_Event NewClient (lp_server_fd p)]
     else if events AND (EPOLLERR OR EPOLLHUP OR EPOLLRDHUP) \<noteq> 0 then
       io_bind (io_call (ep_ctl_del ep (epoll_fd p) fd)) (\<lambda>r.
         if r < 0
         then throw_errno os NonRecoverableException ''Could not remove client socket from epoll: ''
         else io_return [mk_Event ClientDisconnected fd])
     else if events AND (EPOLLIN OR EPOLLET) \<noteq> 0 then io_return [mk_Event ClientDataReady fd]
     else io_return [])"

fun event_loop :: "('e \<Rightarrow> (Event list, 'w) io) \<Rightarrow> 'e list \<Rightarrow> (Event list, 'w) io" where
  "event_loop step [] = io_return []"
| "event_loop step (e # es) =
     io_bind (step e) (\<lambda>evs. io_bind (event_loop step es) (\<lambda>rest. io_return (evs @ rest)))"

definition LinuxPoller_wait ::
  "('w, 'z) os_scheme \<Rightarrow> ('w, 'e) epoll_scheme \<Rightarrow> int \<Rightarrow> linux_poller \<Rightarrow> (Event list, 'w) io" where
  "LinuxPoller_wait os ep timeout p =
     io_bind (io_call (ep_wait ep (epoll_fd p) EVENT_BUFFER_SZ (int_of_count timeout)))
       (\<lambda>(n_events, events).
         if n_events < 0 then
           io_bind (io_read (os_errno os)) (\<lambda>e.
             if e = EINTR then io_return []
             else throw_errno os NonRecoverableException ''epoll error: '')
         else event_loop (linux_event os ep p) (take (nat n_events) events))"

definition LinuxPoller_add_client ::
  "('w, 'z) os_scheme \<Rightarrow> ('w, 'e) epoll_scheme \<Rightarrow> SOCKET \<Rightarrow> linux_poller \<Rightarrow> (unit, 'w) io" where
  "LinuxPoller_add_client os ep fd p =
     io_bind (io_call (ep_ctl_add ep (epoll_fd p) fd
         (EPOLLIN OR EPOLLET OR EPOLLRDHUP OR EPOLLHUP OR EPOLLERR) fd)) (\<lambda>r.
       if r < 0 then throw_errno os NonRecoverableException ''Could not add client socket in epoll: ''
       else io_return ())"

definition LinuxPoller :: "('w, 'z) os_scheme \<Rightarrow> ('w, 'e) epoll_scheme \<Rightarrow> (linux_poller, 'w) poller_vtable" where
  "LinuxPoller os ep = \<lparr>
     pl_wait = (\<lambda>p. const_state (LinuxPoller_wait os ep wait_timeout p) p),
     pl_add_client = (\<lambda>fd p. const_state (LinuxPoller_add_client os ep fd p) p),
     pl_destroy = (\<lambda>p. close_socket os (epoll_fd p)) \<rparr>"

subsection \<open>BSD and macOS: kqueue\<close>

text \<open>
  \<open>kq_change\<close> is \<^verbatim>\<open>kevent\<close> with one change (identifier and flags, the filter always
  \<^verbatim>\<open>EVFILT_READ\<close>) and no event list, \<open>kq_wait\<close> the call with an event list and a
  \<^verbatim>\<open>timespec\<close> and no changes.
\<close>

record 'w kqueue =
  kq_kqueue :: "'w \<Rightarrow> SOCKET \<times> 'w"
  kq_change :: "SOCKET \<Rightarrow> 64 word \<Rightarrow> 16 word \<Rightarrow> 'w \<Rightarrow> int \<times> 'w"
  kq_wait :: "SOCKET \<Rightarrow> nat \<Rightarrow> int \<times> int \<Rightarrow> 'w \<Rightarrow> (int \<times> (64 word \<times> 16 word) list) \<times> 'w"
  kq_filters :: "'w \<Rightarrow> SOCKET \<Rightarrow> SOCKET set"

definition EV_ADD :: "16 word" where "EV_ADD = 0x1"
definition EV_DELETE :: "16 word" where "EV_DELETE = 0x2"
definition EV_ENABLE :: "16 word" where "EV_ENABLE = 0x4"
definition EV_EOF :: "16 word" where "EV_EOF = 0x8000"

record bsd_poller =
  bp_server_fd :: SOCKET
  kqueue_fd :: SOCKET

definition BsdPoller_new ::
  "('w, 'z) os_scheme \<Rightarrow> ('w, 'k) kqueue_scheme \<Rightarrow> SOCKET \<Rightarrow> (bsd_poller, 'w) io" where
  "BsdPoller_new os kq fd =
     io_bind (io_call (kq_kqueue kq)) (\<lambda>kfd.
       if sint kfd < 0 then throw_errno os NonRecoverableException ''Could not initialize kqueue: ''
       else io_bind (io_call (kq_change kq kfd (scast fd) (EV_ADD OR EV_ENABLE))) (\<lambda>r.
         if r < 0
         then throw_errno os NonRecoverableException ''Could not initialize socket fd in kqueue: ''
         else io_return \<lparr> bp_server_fd = fd, kqueue_fd = kfd \<rparr>))"

definition bsd_event ::
  "('w, 'z) os_scheme \<Rightarrow> ('w, 'k) kqueue_scheme \<Rightarrow> bsd_poller \<Rightarrow> 64 word \<times> 16 word \<Rightarrow> (Event list, 'w) io"
where
  "bsd_event os kq p = (\<lambda>(ident, flags).
     let fd = ucast ident :: SOCKET in
     if fd = bp_server_fd p then io_return [mk_Event NewClient (bp_server_fd p)]
     else if flags AND EV_EOF \<noteq> 0 then
       io_bind (io_call (kq_change kq (kqueue_fd p) (scast fd) EV_DELETE)) (\<lambda>r.
         if r \<noteq> 0
         then throw_errno os NonRecoverableException ''Could not remove client socket from kqueue: ''
         else io_return [mk_Event ClientDisconnected fd])
     else io_return [mk_Event ClientDataReady fd])"

text \<open>The seconds are always zero, the nanoseconds the whole timeout.\<close>

definition BsdPoller_wait ::
  "('w, 'z) os_scheme \<Rightarrow> ('w, 'k) kqueue_scheme \<Rightarrow> int \<Rightarrow> bsd_poller \<Rightarrow> (Event list, 'w) io" where
  "BsdPoller_wait os kq timeout p =
     io_bind (io_call (kq_wait kq (kqueue_fd p) EVENT_BUFFER_SZ (0, timeout * 1000000)))
       (\<lambda>(n_events, events).
         io_bind (io_read (os_errno os)) (\<lambda>e.
           if n_events < 0 \<and> e \<noteq> EINTR then throw_errno os NonRecoverableException ''epoll error: ''
           else event_loop (bsd_event os kq p) (take (nat n_events) events)))"

definition BsdPoller_add_client ::
  "('w, 'z) os_scheme \<Rightarrow> ('w, 'k) kqueue_scheme \<Rightarrow> SOCKET \<Rightarrow> bsd_poller \<Rightarrow> (unit, 'w) io" where
  "BsdPoller_add_client os kq fd p =
     io_bind (io_call (kq_change kq (kqueue_fd p) (scast fd) (EV_ADD OR EV_ENABLE))) (\<lambda>r.
       if r < 0 then throw_errno os NonRecoverableException ''Could not add client socket in kqueue: ''
       else io_return ())"

definition BsdPoller :: "('w, 'z) os_scheme \<Rightarrow> ('w, 'k) kqueue_scheme \<Rightarrow> (bsd_poller, 'w) poller_vtable" where
  "BsdPoller os kq = \<lparr>
     pl_wait = (\<lambda>p. const_state (BsdPoller_wait os kq wait_timeout p) p),
     pl_add_client = (\<lambda>fd p. const_state (BsdPoller_add_client os kq fd p) p),
     pl_destroy = (\<lambda>p. close_socket os (kqueue_fd p)) \<rparr>"

subsection \<open>Windows: WSAPoll\<close>

text \<open>
  \<open>wsa_poll\<close> returns the number of entries with an event and the \<^verbatim>\<open>revents\<close> it stored.
  Windows sockets are wider than 32 bits, of which only the low 32 are used.
\<close>

record WSAPOLLFD =
  pfd_fd :: SOCKET
  pfd_events :: "16 word"
  pfd_revents :: "16 word"

record 'w wsapoll =
  wsa_poll :: "WSAPOLLFD list \<Rightarrow> int \<Rightarrow> 'w \<Rightarrow> (int \<times> 16 word list) \<times> 'w"

definition POLLERR :: "16 word" where "POLLERR = 0x1"
definition POLLHUP :: "16 word" where "POLLHUP = 0x2"
definition POLLNVAL :: "16 word" where "POLLNVAL = 0x4"
definition POLLRDNORM :: "16 word" where "POLLRDNORM = 0x100"

record win32_poller =
  wp_server_fd :: SOCKET
  wp_fds :: "WSAPOLLFD list"

definition poll_fd :: "SOCKET \<Rightarrow> WSAPOLLFD" where
  "poll_fd fd = \<lparr> pfd_fd = fd, pfd_events = POLLRDNORM, pfd_revents = 0 \<rparr>"

definition Win32Poller_new :: "SOCKET \<Rightarrow> win32_poller" where
  "Win32Poller_new fd = \<lparr> wp_server_fd = fd, wp_fds = [poll_fd fd] \<rparr>"

definition win32_client_events :: "WSAPOLLFD \<Rightarrow> Event list" where
  "win32_client_events fd =
     (if pfd_revents fd = 0 then []
      else (if pfd_revents fd AND POLLRDNORM \<noteq> 0 then [mk_Event ClientDataReady (pfd_fd fd)] else []) @
           (if pfd_revents fd AND (POLLHUP OR POLLERR OR POLLNVAL) \<noteq> 0
            then [mk_Event ClientDisconnected (pfd_fd fd)] else []))"

definition Win32Poller_wait ::
  "('w, 'y) wsapoll_scheme \<Rightarrow> int \<Rightarrow> win32_poller \<Rightarrow> 'w \<Rightarrow> (failure + Event list) \<times> win32_poller \<times> 'w" where
  "Win32Poller_wait wsa timeout p w =
     (let t = (if timeout < 0 then -1 else int_of_count timeout) in
      if wp_fds p = [] then (Inr [], p, w)
      else case wsa_poll wsa (wp_fds p) t w of ((r, revents), w') \<Rightarrow>
        let fds = map2 (\<lambda>fd rev. fd\<lparr>pfd_revents := rev\<rparr>) (wp_fds p) revents;
            p' = p\<lparr>wp_fds := fds\<rparr>
        in if r < 0 then (Inl (RuntimeError ''WSAPoll failed''), p', w')
           else if r = 0 then (Inr [], p', w')
           else (Inr ((if pfd_revents (hd fds) AND POLLRDNORM \<noteq> 0
                       then [mk_Event NewClient (wp_server_fd p)] else []) @
                      concat (map win32_client_events (tl fds))), p', w'))"

definition Win32Poller_add_client :: "SOCKET \<Rightarrow> win32_poller \<Rightarrow> win32_poller" where
  "Win32Poller_add_client fd p = p\<lparr>wp_fds := wp_fds p @ [poll_fd fd]\<rparr>"

definition Win32Poller :: "('w, 'y) wsapoll_scheme \<Rightarrow> (win32_poller, 'w) poller_vtable" where
  "Win32Poller wsa = \<lparr>
     pl_wait = Win32Poller_wait wsa wait_timeout,
     pl_add_client = (\<lambda>fd p w. (Inr (), Win32Poller_add_client fd p, w)),
     pl_destroy = (\<lambda>p w. w) \<rparr>"

subsection \<open>Documented behaviour of the kernel interfaces\<close>

text \<open>
  epoll, for registrations whose user data is the descriptor itself: a successful
  \<^verbatim>\<open>EPOLL_CTL_ADD\<close> or \<^verbatim>\<open>EPOLL_CTL_DEL\<close> changes one entry of the interest list, a failing one
  nothing, removing a registered descriptor succeeds; \<^verbatim>\<open>epoll_wait\<close> reports at most as many
  entries as there is room for, all of them registered and none twice.
\<close>

definition epoll_contract :: "('w, 'e) epoll_scheme \<Rightarrow> bool" where
  [contract_defs]: "epoll_contract ep \<longleftrightarrow>
     (\<forall>epfd fd fl w r w'. ep_ctl_add ep epfd fd fl fd w = (r, w') \<longrightarrow>
        ep_interest ep w' = (if r < 0 then ep_interest ep w
          else (ep_interest ep w)(epfd := insert fd (ep_interest ep w epfd)))) \<and>
     (\<forall>epfd fd w r w'. ep_ctl_del ep epfd fd w = (r, w') \<longrightarrow>
        (r < 0 \<longrightarrow> fd \<notin> ep_interest ep w epfd) \<and>
        ep_interest ep w' = (ep_interest ep w)(epfd := ep_interest ep w epfd - {fd})) \<and>
     (\<forall>epfd n t w r evs w'. ep_wait ep epfd n t w = ((r, evs), w') \<longrightarrow>
        ep_interest ep w' = ep_interest ep w \<and> r \<le> int n \<and> length evs = nat r \<and>
        distinct (map snd evs) \<and> snd ` set evs \<subseteq> ep_interest ep w epfd)"

text \<open>kqueue, for descriptors converted to identifiers as the program does.\<close>

definition kqueue_contract :: "('w, 'k) kqueue_scheme \<Rightarrow> bool" where
  [contract_defs]: "kqueue_contract kq \<longleftrightarrow>
     (\<forall>kfd fd w r w'. kq_change kq kfd (scast (fd :: SOCKET)) (EV_ADD OR EV_ENABLE) w = (r, w') \<longrightarrow>
        kq_filters kq w' = (if r < 0 then kq_filters kq w
          else (kq_filters kq w)(kfd := insert fd (kq_filters kq w kfd)))) \<and>
     (\<forall>kfd fd w r w'. kq_change kq kfd (scast (fd :: SOCKET)) EV_DELETE w = (r, w') \<longrightarrow>
        (r \<noteq> 0 \<longrightarrow> fd \<notin> kq_filters kq w kfd) \<and>
        kq_filters kq w' = (kq_filters kq w)(kfd := kq_filters kq w kfd - {fd})) \<and>
     (\<forall>kfd n t w r evs w'. kq_wait kq kfd n t w = ((r, evs), w') \<longrightarrow>
        kq_filters kq w' = kq_filters kq w \<and> r \<le> int n \<and> length evs = nat r \<and>
        (\<exists>fds. map fst evs = map scast fds \<and> distinct fds \<and> set fds \<subseteq> kq_filters kq w kfd))"

text \<open>WSAPoll stores one result per entry.\<close>

definition wsapoll_contract :: "('w, 'y) wsapoll_scheme \<Rightarrow> bool" where
  [contract_defs]: "wsapoll_contract wsa \<longleftrightarrow>
     (\<forall>fds t w r revents w'. wsa_poll wsa fds t w = ((r, revents), w') \<longrightarrow> length revents = length fds)"

subsection \<open>The interface of class Poller\<close>

text \<open>
  What the server relies on. \<open>clients p w\<close> are the registered descriptors other than the
  server's, \<open>ok p\<close> is the class invariant.
\<close>

locale poller_class =
  fixes pvt :: "('p, 'w) poller_vtable"
    and server :: "'p \<Rightarrow> SOCKET"
    and ok :: "'p \<Rightarrow> bool"
    and clients :: "'p \<Rightarrow> 'w \<Rightarrow> SOCKET set"
    and contract :: bool
  assumes wait_ok: "contract \<Longrightarrow> ok p \<Longrightarrow> pl_wait pvt p w = (r, p', w') \<Longrightarrow> ok p'"
    and add_ok: "ok p \<Longrightarrow> pl_add_client pvt fd p w = (q, p', w') \<Longrightarrow> ok p'"
    and wait_server: "contract \<Longrightarrow> pl_wait pvt p w = (r, p', w') \<Longrightarrow> server p' = server p"
    and add_server: "pl_add_client pvt fd p w = (q, p', w') \<Longrightarrow> server p' = server p"
    and wait_events: "contract \<Longrightarrow> pl_wait pvt p w = (Inr evs, p', w') \<Longrightarrow> e \<in> set evs \<Longrightarrow>
      if ev_type e = NewClient then ev_fd e = server p else ev_fd e \<in> clients p w"
    and wait_clients: "contract \<Longrightarrow> pl_wait pvt p w = (Inr evs, p', w') \<Longrightarrow> clients p' w' \<subseteq> clients p w"
    and add_clients: "contract \<Longrightarrow> ok p \<Longrightarrow> pl_add_client pvt fd p w = (q, p', w') \<Longrightarrow> fd \<noteq> server p \<Longrightarrow>
      clients p' w' = (if q = Inr () then insert fd (clients p w) else clients p w)"

definition disconnected :: "Event list \<Rightarrow> SOCKET set" where
  "disconnected evs = {ev_fd e | e. e \<in> set evs \<and> ev_type e = ClientDisconnected}"

locale exact_poller = poller_class pvt server ok clients contract
  for pvt :: "('p, 'w) poller_vtable" and server :: "'p \<Rightarrow> SOCKET" and ok :: "'p \<Rightarrow> bool"
    and clients :: "'p \<Rightarrow> 'w \<Rightarrow> SOCKET set" and contract :: bool +
  assumes wait_distinct: "contract \<Longrightarrow> pl_wait pvt p w = (Inr evs, p', w') \<Longrightarrow> distinct (map ev_fd evs)"
    and wait_deregisters: "contract \<Longrightarrow> pl_wait pvt p w = (Inr evs, p', w') \<Longrightarrow>
      clients p' w' = clients p w - disconnected evs"

subsection \<open>The loop over the reported events\<close>

text \<open>What one reported entry means, and the events a list of entries gives.\<close>

definition linux_class :: "SOCKET \<Rightarrow> 32 word \<times> SOCKET \<Rightarrow> EventType option" where
  "linux_class server = (\<lambda>(events, fd).
     if fd = server then Some NewClient
     else if events AND (EPOLLERR OR EPOLLHUP OR EPOLLRDHUP) \<noteq> 0 then Some ClientDisconnected
     else if events AND (EPOLLIN OR EPOLLET) \<noteq> 0 then Some ClientDataReady
     else None)"

definition bsd_class :: "SOCKET \<Rightarrow> 64 word \<times> 16 word \<Rightarrow> EventType option" where
  "bsd_class server = (\<lambda>(ident, flags).
     if ucast ident = server then Some NewClient
     else if flags AND EV_EOF \<noteq> 0 then Some ClientDisconnected
     else Some ClientDataReady)"

definition class_event :: "('e \<Rightarrow> EventType option) \<Rightarrow> ('e \<Rightarrow> SOCKET) \<Rightarrow> 'e \<Rightarrow> Event list" where
  "class_event cls key e = (case cls e of None \<Rightarrow> [] | Some ty \<Rightarrow> [mk_Event ty (key e)])"

definition class_events :: "('e \<Rightarrow> EventType option) \<Rightarrow> ('e \<Rightarrow> SOCKET) \<Rightarrow> 'e list \<Rightarrow> Event list" where
  "class_events cls key es = concat (map (class_event cls key) es)"

lemma class_events_simps [simp]:
  "class_events cls key [] = []"
  "class_events cls key (e # es) = class_event cls key e @ class_events cls key es"
  by (simp_all add: class_events_def)

lemma disconnected_simps [simp]:
  "disconnected [] = {}"
  "disconnected (xs @ ys) = disconnected xs \<union> disconnected ys"
  "disconnected (e # ys) = (if ev_type e = ClientDisconnected then {ev_fd e} else {}) \<union> disconnected ys"
  by (auto simp: disconnected_def)

lemma mk_Event_simps [simp]: "ev_type (mk_Event ty fd) = ty" "ev_fd (mk_Event ty fd) = fd"
  by (simp_all add: mk_Event_def)

lemma class_events_mem:
  "x \<in> set (class_events cls key es) \<longleftrightarrow>
     (\<exists>e \<in> set es. cls e = Some (ev_type x) \<and> ev_fd x = key e)"
  by (induction es) (auto simp: class_event_def mk_Event_def split: option.splits)

lemma class_events_distinct:
  "distinct (map key es) \<Longrightarrow> distinct (map ev_fd (class_events cls key es))"
proof (induction es)
  case (Cons e es)
  have "ev_fd ` set (class_events cls key es) \<subseteq> key ` set es" by (auto simp: class_events_mem)
  with Cons show ?case by (auto simp: class_event_def split: option.splits)
qed simp

lemma class_events_length: "length (class_events cls key es) \<le> length es"
  by (induction es) (auto simp: class_event_def split: option.splits)

text \<open>
  Both kernel interfaces: a round for a registered descriptor succeeds, appends what the entry
  means, and deregisters the descriptor if it is disconnected.
\<close>

locale event_step =
  fixes step :: "'e \<Rightarrow> (Event list, 'w) io"
    and cls :: "'e \<Rightarrow> EventType option"
    and key :: "'e \<Rightarrow> SOCKET"
    and reg :: "'w \<Rightarrow> SOCKET set"
    and contract :: bool
  assumes step_law: "contract \<Longrightarrow> key e \<in> reg w \<Longrightarrow>
      \<exists>w'. step e w = (Inr (class_event cls key e), w') \<and>
        reg w' = reg w - disconnected (class_event cls key e)"
begin

lemma loop_law:
  assumes "contract" and "distinct (map key es)" and "key ` set es \<subseteq> reg w"
  shows "\<exists>w'. event_loop step es w = (Inr (class_events cls key es), w') \<and>
    reg w' = reg w - disconnected (class_events cls key es)"
  using assms(2,3)
proof (induction es arbitrary: w)
  case Nil
  then show ?case by simp
next
  case (Cons e es)
  then obtain w1 where w1: "step e w = (Inr (class_event cls key e), w1)"
    "reg w1 = reg w - disconnected (class_event cls key e)"
    using step_law [OF assms(1), of e w] by auto
  have "x = key e" if "x \<in> disconnected (class_event cls key e)" for x
    using that by (auto simp: class_event_def split: option.splits if_splits)
  with Cons.prems have "key ` set es \<subseteq> reg w1" by (auto simp: w1(2) subset_iff image_iff)
  with Cons.IH [of w1] Cons.prems(1)
  obtain w2 where w2: "event_loop step es w1 = (Inr (class_events cls key es), w2)"
    "reg w2 = reg w1 - disconnected (class_events cls key es)" by auto
  from w1(1) w2(1) have "event_loop step (e # es) w = (Inr (class_events cls key (e # es)), w2)" by simp
  moreover have "reg w2 = reg w - disconnected (class_events cls key (e # es))" by (auto simp: w2(2) w1(2))
  ultimately show ?case by blast
qed

end

lemma epoll_contractD:
  assumes "epoll_contract ep"
  shows "ep_ctl_add ep epfd fd fl fd w = (r, w') \<Longrightarrow> ep_interest ep w' = (if r < 0 then ep_interest ep w
      else (ep_interest ep w)(epfd := insert fd (ep_interest ep w epfd)))"
    and "ep_ctl_del ep epfd fd w = (r, w') \<Longrightarrow> (r < 0 \<longrightarrow> fd \<notin> ep_interest ep w epfd) \<and>
      ep_interest ep w' = (ep_interest ep w)(epfd := ep_interest ep w epfd - {fd})"
    and "ep_wait ep epfd n t w = ((r, evs), w') \<Longrightarrow> ep_interest ep w' = ep_interest ep w \<and>
      r \<le> int n \<and> length evs = nat r \<and> distinct (map snd evs) \<and> snd ` set evs \<subseteq> ep_interest ep w epfd"
  using assms unfolding epoll_contract_def by blast+

lemma kqueue_contractD:
  assumes "kqueue_contract kq"
  shows "kq_change kq kfd (scast (fd :: SOCKET)) (EV_ADD OR EV_ENABLE) w = (r, w') \<Longrightarrow>
      kq_filters kq w' = (if r < 0 then kq_filters kq w
        else (kq_filters kq w)(kfd := insert fd (kq_filters kq w kfd)))"
    and "kq_change kq kfd (scast (fd :: SOCKET)) EV_DELETE w = (r, w') \<Longrightarrow>
      (r \<noteq> 0 \<longrightarrow> fd \<notin> kq_filters kq w kfd) \<and>
      kq_filters kq w' = (kq_filters kq w)(kfd := kq_filters kq w kfd - {fd})"
    and "kq_wait kq kfd n t w = ((r, evs), w') \<Longrightarrow> kq_filters kq w' = kq_filters kq w \<and>
      r \<le> int n \<and> length evs = nat r \<and>
      (\<exists>fds. map fst evs = map scast fds \<and> distinct fds \<and> set fds \<subseteq> kq_filters kq w kfd)"
  using assms unfolding kqueue_contract_def by blast+

lemma ucast_scast_socket [simp]: "ucast (scast (fd :: SOCKET) :: 64 word) = fd"
  by (rule bit_word_eqI) (auto simp: bit_simps)

interpretation lin_step: event_step "linux_event os ep p" "linux_class (lp_server_fd p)" snd
  "\<lambda>w. ep_interest ep w (epoll_fd p)" "epoll_contract ep"
  for os :: "('w, 'z) os_scheme" and ep :: "('w, 'e) epoll_scheme" and p :: linux_poller
proof unfold_locales
  fix e :: "32 word \<times> SOCKET" and w
  assume c: "epoll_contract ep" and reg: "snd e \<in> ep_interest ep w (epoll_fd p)"
  obtain fl fd where e: "e = (fl, fd)" by fastforce
  obtain r w1 where del: "ep_ctl_del ep (epoll_fd p) fd w = (r, w1)" by fastforce
  from epoll_contractD(2) [OF c del] reg
  show "\<exists>w'. linux_event os ep p e w = (Inr (class_event (linux_class (lp_server_fd p)) snd e), w') \<and>
      ep_interest ep w' (epoll_fd p) = ep_interest ep w (epoll_fd p) -
        disconnected (class_event (linux_class (lp_server_fd p)) snd e)"
    by (simp add: e linux_event_def linux_class_def class_event_def io_bind_call del)
qed

interpretation bsd_step: event_step "bsd_event os kq p" "bsd_class (bp_server_fd p)" "\<lambda>(i, fl). ucast i"
  "\<lambda>w. kq_filters kq w (kqueue_fd p)" "kqueue_contract kq"
  for os :: "('w, 'z) os_scheme" and kq :: "('w, 'e) kqueue_scheme" and p :: bsd_poller
proof unfold_locales
  fix e :: "64 word \<times> 16 word" and w
  assume c: "kqueue_contract kq" and reg: "(case e of (i, fl) \<Rightarrow> ucast i) \<in> kq_filters kq w (kqueue_fd p)"
  obtain i fl where e: "e = (i, fl)" by fastforce
  obtain r w1 where del: "kq_change kq (kqueue_fd p) (scast (ucast i :: SOCKET)) EV_DELETE w = (r, w1)" by fastforce
  from kqueue_contractD(2) [OF c del] reg
  show "\<exists>w'. bsd_event os kq p e w = (Inr (class_event (bsd_class (bp_server_fd p)) (\<lambda>(i, fl). ucast i) e), w') \<and>
      kq_filters kq w' (kqueue_fd p) = kq_filters kq w (kqueue_fd p) -
        disconnected (class_event (bsd_class (bp_server_fd p)) (\<lambda>(i, fl). ucast i) e)"
    by (simp add: e bsd_event_def bsd_class_def class_event_def io_bind_call del Let_def)
qed

subsection \<open>The three implementations satisfy the interface\<close>

lemma LinuxPoller_wait_result:
  assumes "epoll_contract ep"
    and "ep_wait ep (epoll_fd p) EVENT_BUFFER_SZ (int_of_count t) w = ((n, evs), w1)" and "0 \<le> n"
  shows "\<exists>w'. LinuxPoller_wait os ep t p w = (Inr (class_events (linux_class (lp_server_fd p)) snd evs), w') \<and>
    ep_interest ep w' (epoll_fd p) = ep_interest ep w (epoll_fd p) -
      disconnected (class_events (linux_class (lp_server_fd p)) snd evs)"
proof -
  note c = epoll_contractD(3) [OF assms(1,2)]
  have "LinuxPoller_wait os ep t p w = event_loop (linux_event os ep p) evs w1"
    using assms(3) c by (simp add: LinuxPoller_wait_def io_bind_call assms(2))
  then show ?thesis using lin_step.loop_law [OF assms(1), of evs w1 p os] c by simp
qed

lemma LinuxPoller_wait_failure:
  assumes "ep_wait ep (epoll_fd p) EVENT_BUFFER_SZ (int_of_count t) w = ((n, evs), w1)" and "n < 0"
  shows "LinuxPoller_wait os ep t p w =
    (if os_errno os w1 = EINTR then Inr []
     else Inl (NonRecoverableException (''epoll error: '' @ os_strerror os (os_errno os w1))), w1)"
  using assms by (simp add: LinuxPoller_wait_def io_bind_call)

lemma LinuxPoller_wait_events:
  assumes "epoll_contract ep" and "LinuxPoller_wait os ep t p w = (Inr res, w')"
  shows "\<exists>evs. res = class_events (linux_class (lp_server_fd p)) snd evs \<and> distinct (map snd evs) \<and>
    snd ` set evs \<subseteq> ep_interest ep w (epoll_fd p) \<and> length evs \<le> EVENT_BUFFER_SZ \<and>
    ep_interest ep w' (epoll_fd p) = ep_interest ep w (epoll_fd p) - disconnected res"
proof -
  obtain n evs w1 where wt: "ep_wait ep (epoll_fd p) EVENT_BUFFER_SZ (int_of_count t) w = ((n, evs), w1)"
    by (metis prod.exhaust)
  note c = epoll_contractD(3) [OF assms(1) wt]
  show ?thesis
  proof (cases "n < 0")
    case True
    with assms(2) LinuxPoller_wait_failure [OF wt, of os] have "res = [] \<and> w' = w1" by (auto split: if_splits)
    with c show ?thesis by (intro exI [of _ "[]"]) simp
  next
    case False
    with LinuxPoller_wait_result [OF assms(1) wt, of os] assms(2) c show ?thesis
      by (intro exI [of _ evs]) auto
  qed
qed

lemma const_state_eq [simp]: "const_state m p w = (r, p', w') \<longleftrightarrow> m w = (r, w') \<and> p' = p"
  by (auto simp: const_state_def split: prod.splits)

lemma linux_class_server: "linux_class s e = Some ty \<Longrightarrow> ty = NewClient \<longleftrightarrow> snd e = s"
  by (auto simp: linux_class_def split: if_splits prod.splits)

lemma class_events_types:
  assumes "x \<in> set (class_events (linux_class s) snd evs)" and "snd ` set evs \<subseteq> A"
  shows "if ev_type x = NewClient then ev_fd x = s else ev_fd x \<in> A - {s}"
  using assms by (force simp: class_events_mem dest: linux_class_server)

interpretation lin: exact_poller "LinuxPoller os ep" lp_server_fd "\<lambda>p. True"
  "\<lambda>p w. ep_interest ep w (epoll_fd p) - {lp_server_fd p}" "epoll_contract ep"
  for os :: "('w, 'z) os_scheme" and ep :: "('w, 'e) epoll_scheme"
proof unfold_locales
  fix p w r p' w' fd q evs e
  show "lp_server_fd p' = lp_server_fd p" if "pl_wait (LinuxPoller os ep) p w = (r, p', w')"
    using that by (simp add: LinuxPoller_def)
  show "lp_server_fd p' = lp_server_fd p" if "pl_add_client (LinuxPoller os ep) fd p w = (q, p', w')"
    using that by (simp add: LinuxPoller_def)
  assume c: "epoll_contract ep"
  show "ep_interest ep w' (epoll_fd p') - {lp_server_fd p'} =
      (if q = Inr () then insert fd (ep_interest ep w (epoll_fd p) - {lp_server_fd p})
       else ep_interest ep w (epoll_fd p) - {lp_server_fd p})"
    if "pl_add_client (LinuxPoller os ep) fd p w = (q, p', w')" and "fd \<noteq> lp_server_fd p"
    using that
    by (auto simp: LinuxPoller_def LinuxPoller_add_client_def io_bind_call
        split: prod.splits if_splits dest!: epoll_contractD(1) [OF c])
  assume "pl_wait (LinuxPoller os ep) p w = (Inr evs, p', w')"
  then have wt: "LinuxPoller_wait os ep wait_timeout p w = (Inr evs, w')" and p': "p' = p"
    by (simp_all add: LinuxPoller_def)
  from LinuxPoller_wait_events [OF c wt] obtain es where
    evs: "evs = class_events (linux_class (lp_server_fd p)) snd es" and d: "distinct (map snd es)"
    and sub: "snd ` set es \<subseteq> ep_interest ep w (epoll_fd p)"
    and reg: "ep_interest ep w' (epoll_fd p) = ep_interest ep w (epoll_fd p) - disconnected evs" by blast
  show "distinct (map ev_fd evs)" using d by (simp add: evs class_events_distinct)
  show "ep_interest ep w' (epoll_fd p') - {lp_server_fd p'} =
      ep_interest ep w (epoll_fd p) - {lp_server_fd p} - disconnected evs"
    and "ep_interest ep w' (epoll_fd p') - {lp_server_fd p'} \<subseteq>
      ep_interest ep w (epoll_fd p) - {lp_server_fd p}" by (auto simp: reg p')
  show "if ev_type e = NewClient then ev_fd e = lp_server_fd p
      else ev_fd e \<in> ep_interest ep w (epoll_fd p) - {lp_server_fd p}" if "e \<in> set evs"
    using class_events_types [OF _ sub, of e "lp_server_fd p"] that by (simp add: evs)
qed

abbreviation bsd_key :: "64 word \<times> 16 word \<Rightarrow> SOCKET" where
  "bsd_key \<equiv> \<lambda>(i, fl). ucast i"

lemma bsd_keys: "map fst evs = map scast fds \<Longrightarrow> map bsd_key evs = fds"
proof (induction evs arbitrary: fds)
  case (Cons e evs)
  then show ?case by (cases fds; cases e) auto
qed simp

lemma BsdPoller_wait_events:
  assumes "kqueue_contract kq" and "BsdPoller_wait os kq t p w = (Inr res, w')"
  shows "\<exists>evs. res = class_events (bsd_class (bp_server_fd p)) bsd_key evs \<and> distinct (map bsd_key evs) \<and>
    bsd_key ` set evs \<subseteq> kq_filters kq w (kqueue_fd p) \<and> length evs \<le> EVENT_BUFFER_SZ \<and>
    kq_filters kq w' (kqueue_fd p) = kq_filters kq w (kqueue_fd p) - disconnected res"
proof -
  obtain n evs w1 where wt: "kq_wait kq (kqueue_fd p) EVENT_BUFFER_SZ (0, t * 1000000) w = ((n, evs), w1)"
    by (metis prod.exhaust)
  note c = kqueue_contractD(3) [OF assms(1) wt]
  then obtain fds where fds: "map fst evs = map scast fds" "distinct fds" "set fds \<subseteq> kq_filters kq w (kqueue_fd p)"
    by blast
  from assms(2) c have "event_loop (bsd_event os kq p) evs w1 = (Inr res, w')"
    by (auto simp: BsdPoller_wait_def io_bind_call wt split: if_splits)
  moreover have k: "distinct (map bsd_key evs)" "bsd_key ` set evs \<subseteq> kq_filters kq w1 (kqueue_fd p)"
    using fds c bsd_keys [OF fds(1)] by (simp, metis list.set_map)
  ultimately show ?thesis using c bsd_step.loop_law [OF assms(1), of evs w1 p os]
    by (intro exI [of _ evs]) auto
qed

lemma bsd_class_server: "bsd_class s e = Some ty \<Longrightarrow> ty = NewClient \<longleftrightarrow> bsd_key e = s"
  by (auto simp: bsd_class_def split: if_splits prod.splits)

interpretation bsd: exact_poller "BsdPoller os kq" bp_server_fd "\<lambda>p. True"
  "\<lambda>p w. kq_filters kq w (kqueue_fd p) - {bp_server_fd p}" "kqueue_contract kq"
  for os :: "('w, 'z) os_scheme" and kq :: "('w, 'e) kqueue_scheme"
proof unfold_locales
  fix p w r p' w' fd q evs e
  show "bp_server_fd p' = bp_server_fd p" if "pl_wait (BsdPoller os kq) p w = (r, p', w')"
    using that by (simp add: BsdPoller_def)
  show "bp_server_fd p' = bp_server_fd p" if "pl_add_client (BsdPoller os kq) fd p w = (q, p', w')"
    using that by (simp add: BsdPoller_def)
  assume c: "kqueue_contract kq"
  show "kq_filters kq w' (kqueue_fd p') - {bp_server_fd p'} =
      (if q = Inr () then insert fd (kq_filters kq w (kqueue_fd p) - {bp_server_fd p})
       else kq_filters kq w (kqueue_fd p) - {bp_server_fd p})"
    if "pl_add_client (BsdPoller os kq) fd p w = (q, p', w')" and "fd \<noteq> bp_server_fd p"
    using that
    by (auto simp: BsdPoller_def BsdPoller_add_client_def io_bind_call
        split: prod.splits if_splits dest!: kqueue_contractD(1) [OF c])
  assume "pl_wait (BsdPoller os kq) p w = (Inr evs, p', w')"
  then have wt: "BsdPoller_wait os kq wait_timeout p w = (Inr evs, w')" and p': "p' = p"
    by (simp_all add: BsdPoller_def)
  from BsdPoller_wait_events [OF c wt] obtain es where
    evs: "evs = class_events (bsd_class (bp_server_fd p)) bsd_key es" and d: "distinct (map bsd_key es)"
    and sub: "bsd_key ` set es \<subseteq> kq_filters kq w (kqueue_fd p)"
    and reg: "kq_filters kq w' (kqueue_fd p) = kq_filters kq w (kqueue_fd p) - disconnected evs" by blast
  show "distinct (map ev_fd evs)" using d by (simp add: evs class_events_distinct)
  show "kq_filters kq w' (kqueue_fd p') - {bp_server_fd p'} =
      kq_filters kq w (kqueue_fd p) - {bp_server_fd p} - disconnected evs"
    and "kq_filters kq w' (kqueue_fd p') - {bp_server_fd p'} \<subseteq>
      kq_filters kq w (kqueue_fd p) - {bp_server_fd p}" by (auto simp: reg p')
  show "if ev_type e = NewClient then ev_fd e = bp_server_fd p
      else ev_fd e \<in> kq_filters kq w (kqueue_fd p) - {bp_server_fd p}" if "e \<in> set evs"
    using that sub by (fastforce simp: evs class_events_mem dest: bsd_class_server)
qed

lemma Win32Poller_wait_fds:
  assumes "wsapoll_contract wsa" and "Win32Poller_wait wsa t p w = (r, p', w')"
  shows "map pfd_fd (wp_fds p') = map pfd_fd (wp_fds p) \<and> wp_server_fd p' = wp_server_fd p"
proof (cases "wp_fds p = []")
  case False
  obtain n rev w1 where wt: "wsa_poll wsa (wp_fds p) (if t < 0 then -1 else int_of_count t) w = ((n, rev), w1)"
    by (metis prod.exhaust)
  with assms(1) have "length rev = length (wp_fds p)" unfolding wsapoll_contract_def by blast
  then have "map pfd_fd (map2 (\<lambda>fd rev. fd\<lparr>pfd_revents := rev\<rparr>) (wp_fds p) rev) = map pfd_fd (wp_fds p)"
    by (induction "wp_fds p" rev arbitrary: p rule: list_induct2') (auto intro: list_eq_iff_nth_eq [THEN iffD2])
  with False assms(2) wt show ?thesis by (auto simp: Win32Poller_wait_def Let_def split: if_splits)
qed (use assms in \<open>auto simp: Win32Poller_wait_def\<close>)

lemma win32_client_events_fd: "e \<in> set (win32_client_events f) \<Longrightarrow> ev_fd e = pfd_fd f \<and> ev_type e \<noteq> NewClient"
  by (auto simp: win32_client_events_def split: if_splits)


lemma Win32Poller_wait_types:
  assumes "wsapoll_contract wsa" and "Win32Poller_wait wsa t p w = (Inr evs, p', w')" and "e \<in> set evs"
  shows "if ev_type e = NewClient then ev_fd e = wp_server_fd p else ev_fd e \<in> pfd_fd ` set (tl (wp_fds p))"
proof -
  from assms(2,3) have "e = mk_Event NewClient (wp_server_fd p) \<or>
      (\<exists>f \<in> set (tl (wp_fds p')). e \<in> set (win32_client_events f))"
    by (auto simp: Win32Poller_wait_def Let_def split: if_splits prod.splits)
  moreover have "pfd_fd ` set (tl (wp_fds p')) = pfd_fd ` set (tl (wp_fds p))"
    using Win32Poller_wait_fds [OF assms(1,2)] by (metis list.set_map map_tl)
  ultimately show ?thesis using win32_client_events_fd by (metis imageI mk_Event_simps)
qed

interpretation win: poller_class "Win32Poller wsa" wp_server_fd "\<lambda>p. wp_fds p \<noteq> []"
  "\<lambda>p w. pfd_fd ` set (tl (wp_fds p))" "wsapoll_contract wsa"
  for wsa :: "('w, 'y) wsapoll_scheme"
proof unfold_locales
  fix p w r p' w' fd q evs e
  show "wp_fds p' \<noteq> []" if "wp_fds p \<noteq> []" and "pl_add_client (Win32Poller wsa) fd p w = (q, p', w')"
    using that by (auto simp: Win32Poller_def Win32Poller_add_client_def)
  show "wp_server_fd p' = wp_server_fd p" if "pl_add_client (Win32Poller wsa) fd p w = (q, p', w')"
    using that by (auto simp: Win32Poller_def Win32Poller_add_client_def)
  show "pfd_fd ` set (tl (wp_fds p')) =
      (if q = Inr () then insert fd (pfd_fd ` set (tl (wp_fds p))) else pfd_fd ` set (tl (wp_fds p)))"
    if "wp_fds p \<noteq> []" and "pl_add_client (Win32Poller wsa) fd p w = (q, p', w')"
    using that by (auto simp: Win32Poller_def Win32Poller_add_client_def poll_fd_def)
  assume c: "wsapoll_contract wsa"
  show "wp_fds p' \<noteq> []" if "wp_fds p \<noteq> []" and "pl_wait (Win32Poller wsa) p w = (r, p', w')"
    using that Win32Poller_wait_fds [OF c] by (auto simp: Win32Poller_def) (metis map_is_Nil_conv)
  show "wp_server_fd p' = wp_server_fd p" if "pl_wait (Win32Poller wsa) p w = (r, p', w')"
    using that Win32Poller_wait_fds [OF c] by (auto simp: Win32Poller_def)
  assume w: "pl_wait (Win32Poller wsa) p w = (Inr evs, p', w')"
  then show "pfd_fd ` set (tl (wp_fds p')) \<subseteq> pfd_fd ` set (tl (wp_fds p))"
    using Win32Poller_wait_fds [OF c] by (auto simp: Win32Poller_def) (metis image_eqI list.set_map map_tl)
  show "if ev_type e = NewClient then ev_fd e = wp_server_fd p else ev_fd e \<in> pfd_fd ` set (tl (wp_fds p))"
    if "e \<in> set evs"
    using Win32Poller_wait_types [OF c _ that] w by (simp add: Win32Poller_def)
qed

subsection \<open>A concrete environment\<close>

text \<open>
  The world of the socket calls extended by the registered descriptors and by scripts of what
  the next waits report; entries of a script that are not registered, or are repeated, are
  left out. With nothing scripted a wait fails.
\<close>

record sim_poll = sim +
  sim_interest :: "SOCKET \<Rightarrow> SOCKET set"
  sim_events :: "(32 word \<times> SOCKET) list list"
  sim_revents :: "16 word list"

fun first_by :: "('a \<times> SOCKET) list \<Rightarrow> ('a \<times> SOCKET) list" where
  "first_by [] = []"
| "first_by (x # xs) = x # filter (\<lambda>y. snd y \<noteq> snd x) (first_by xs)"

definition sim_epoll :: "('z sim_poll_scheme) epoll" where
  "sim_epoll = \<lparr> ep_create1 = (\<lambda>w. (5, w)),
     ep_ctl_add = (\<lambda>epfd fd fl d w.
       (0, w\<lparr>sim_interest := (sim_interest w)(epfd := insert fd (sim_interest w epfd))\<rparr>)),
     ep_ctl_del = (\<lambda>epfd fd w. (if fd \<in> sim_interest w epfd then 0 else -1,
       w\<lparr>sim_interest := (sim_interest w)(epfd := sim_interest w epfd - {fd})\<rparr>)),
     ep_wait = (\<lambda>epfd n t w. case sim_events w of
         [] \<Rightarrow> ((-1, []), w)
       | evs # rest \<Rightarrow>
           let es = take n (first_by (filter (\<lambda>e. snd e \<in> sim_interest w epfd) evs))
           in ((int (length es), es), w\<lparr>sim_events := rest\<rparr>)),
     ep_interest = sim_interest \<rparr>"

definition sim_poll_world :: "sim_poll" where
  "sim_poll_world = sim.extend sim_world (sim_poll.fields (\<lambda>_. {}) [] [])"

lemma first_by_set: "set (first_by xs) \<subseteq> set xs"
  by (induction xs) auto

lemma first_by_distinct: "distinct (map snd (first_by xs))"
  by (induction xs) (auto simp: distinct_map inj_on_def)

lemma sim_ready:
  fixes evs :: "(32 word \<times> SOCKET) list"
  shows "distinct (map snd (take n (first_by evs)))"
    and "snd ` set (take n (first_by (filter (\<lambda>e. snd e \<in> A) evs))) \<subseteq> A"
proof -
  show "distinct (map snd (take n (first_by evs)))"
    using first_by_distinct [of evs] by (simp add: take_map [symmetric] distinct_take)
  show "snd ` set (take n (first_by (filter (\<lambda>e. snd e \<in> A) evs))) \<subseteq> A"
    using first_by_set [of "filter (\<lambda>e. snd e \<in> A) evs"] by (fastforce dest: in_set_takeD)
qed

lemma sim_epoll_contract: "epoll_contract sim_epoll"
  unfolding epoll_contract_def
proof (intro conjI allI impI)
  fix epfd n t w r evs w'
  assume wt: "ep_wait sim_epoll epfd n t w = ((r, evs), w')"
  then show "ep_interest sim_epoll w' = ep_interest sim_epoll w" "r \<le> int n" "length evs = nat r"
    by (auto simp: sim_epoll_def Let_def split: list.splits)
  obtain xs where evs: "evs = [] \<or> evs = take n (first_by (filter (\<lambda>e. snd e \<in> sim_interest w epfd) xs))"
    using wt by (auto simp: sim_epoll_def Let_def split: list.splits)
  have i: "ep_interest sim_epoll w epfd = sim_interest w epfd" by (simp add: sim_epoll_def)
  show "distinct (map snd evs)" using evs sim_ready(1) by (elim disjE) simp_all
  show "snd ` set evs \<subseteq> ep_interest sim_epoll w epfd"
    using evs sim_ready(2) unfolding i by (elim disjE) simp_all
qed (auto simp: sim_epoll_def split: if_splits)

definition sim_wsapoll :: "('z sim_poll_scheme) wsapoll" where
  "sim_wsapoll = \<lparr> wsa_poll = (\<lambda>fds t w. ((1, map (\<lambda>i. if i < length (sim_revents w) then sim_revents w ! i else 0)
     [0..<length fds]), w)) \<rparr>"

lemma sim_wsapoll_contract: "wsapoll_contract sim_wsapoll"
  by (auto simp: wsapoll_contract_def sim_wsapoll_def)

lemmas sim_poll_eval = sim_eval sim_epoll_def sim_poll_world_def sim_wsapoll_def sim.defs sim_poll.defs

subsection \<open>Properties\<close>

text \<open>
  C21. On Linux, when \<^verbatim>\<open>epoll_wait\<close> succeeds, \<^verbatim>\<open>Poller::wait\<close> returns without an exception one event
  for each reported entry, in their order: \<open>NewClient\<close> for the server's socket, otherwise
  \<open>ClientDisconnected\<close> if an error or hang-up bit is set, otherwise \<open>ClientDataReady\<close>
  (none for an entry with neither). Exactly the disconnected descriptors are deregistered.
\<close>

theorem LinuxPoller_wait_exact:
  assumes "epoll_contract ep"
    and "ep_wait ep (epoll_fd p) EVENT_BUFFER_SZ (int_of_count t) w = ((n, evs), w1)" and "0 \<le> n"
  shows "\<exists>w'. LinuxPoller_wait os ep t p w = (Inr (class_events (linux_class (lp_server_fd p)) snd evs), w') \<and>
    ep_interest ep w' (epoll_fd p) = ep_interest ep w (epoll_fd p) -
      {fd. \<exists>fl. (fl, fd) \<in> set evs \<and> fd \<noteq> lp_server_fd p \<and> fl AND (EPOLLERR OR EPOLLHUP OR EPOLLRDHUP) \<noteq> 0}"
proof -
  have "disconnected (class_events (linux_class (lp_server_fd p)) snd evs) =
      {fd. \<exists>fl. (fl, fd) \<in> set evs \<and> fd \<noteq> lp_server_fd p \<and> fl AND (EPOLLERR OR EPOLLHUP OR EPOLLRDHUP) \<noteq> 0}"
    by (force simp: disconnected_def class_events_mem linux_class_def mk_Event_def
        intro: exI [of _ "mk_Event ClientDisconnected _"] split: if_splits)
  with LinuxPoller_wait_result [OF assms] show ?thesis by simp
qed

definition sim_linux :: linux_poller where
  "sim_linux = \<lparr> lp_server_fd = 3, epoll_fd = 5 \<rparr>"

definition sim_busy :: sim_poll where
  "sim_busy = sim_poll_world\<lparr>sim_interest := (\<lambda>_. {3, 7, 8}), sim_events := [[(1, 3), (1, 7), (0x2001, 8)]]\<rparr>"

theorem LinuxPoller_wait_exact_witness:
  "fst (LinuxPoller_wait sim_os sim_epoll 50 sim_linux sim_busy) =
     Inr [mk_Event NewClient 3, mk_Event ClientDataReady 7, mk_Event ClientDisconnected 8]"
proof -
  have "ep_wait sim_epoll (epoll_fd sim_linux) EVENT_BUFFER_SZ (int_of_count 50) sim_busy
      = ((3, [(1, 3), (1, 7), (0x2001, 8)]), sim_busy\<lparr>sim_events := []\<rparr>)"
    by (simp add: sim_busy_def sim_linux_def sim_poll_eval EVENT_BUFFER_SZ_def)
  from LinuxPoller_wait_exact [OF sim_epoll_contract this, of sim_os]
  obtain w' where "LinuxPoller_wait sim_os sim_epoll 50 sim_linux sim_busy =
    (Inr (class_events (linux_class (lp_server_fd sim_linux)) snd [(1, 3), (1, 7), (0x2001, 8)]), w')" by auto
  then show ?thesis
    by (simp add: class_event_def linux_class_def sim_linux_def EPOLLERR_def EPOLLHUP_def EPOLLRDHUP_def
        EPOLLIN_def EPOLLET_def)
qed


text \<open>
  On Linux a client entry with the peer's hang-up bit set is reported as disconnected and
  never as data ready, even when the readable bit is set too: bytes the client sent before it
  closed its side are not read any more.
\<close>

theorem LinuxPoller_hangup_wins:
  assumes "epoll_contract ep"
    and "ep_wait ep (epoll_fd p) EVENT_BUFFER_SZ (int_of_count t) w = ((n, evs), w1)" and "0 \<le> n"
    and "(EPOLLIN OR EPOLLRDHUP, fd) \<in> set evs" and "fd \<noteq> lp_server_fd p"
    and "LinuxPoller_wait os ep t p w = (Inr res, w')"
  shows "mk_Event ClientDisconnected fd \<in> set res \<and> mk_Event ClientDataReady fd \<notin> set res"
proof -
  note c = epoll_contractD(3) [OF assms(1,2)]
  have res: "res = class_events (linux_class (lp_server_fd p)) snd evs"
    using LinuxPoller_wait_result [OF assms(1-3), of os] assms(6) by auto
  have cls: "linux_class (lp_server_fd p) (EPOLLIN OR EPOLLRDHUP, fd) = Some ClientDisconnected"
    using assms(5) by (simp add: linux_class_def EPOLLERR_def EPOLLHUP_def EPOLLRDHUP_def EPOLLIN_def)
  have uniq: "e = (EPOLLIN OR EPOLLRDHUP, fd)" if "e \<in> set evs" "snd e = fd" for e
  proof -
    have inj: "inj_on snd (set evs)" using c by (simp add: distinct_map)
    show ?thesis by (rule inj_onD [OF inj _ that(1) assms(4)]) (simp add: that(2))
  qed
  have "mk_Event ClientDisconnected fd \<in> set res"
    unfolding res class_events_mem using cls assms(4) by (intro bexI [of _ "(EPOLLIN OR EPOLLRDHUP, fd)"]) simp_all
  moreover have "mk_Event ClientDataReady fd \<notin> set res"
  proof
    assume "mk_Event ClientDataReady fd \<in> set res"
    then obtain e where e: "e \<in> set evs" "linux_class (lp_server_fd p) e = Some ClientDataReady" "snd e = fd"
      unfolding res class_events_mem by auto
    from uniq [OF e(1,3)] e(2) cls show False by simp
  qed
  ultimately show ?thesis ..
qed

theorem LinuxPoller_hangup_wins_witness:
  "mk_Event ClientDataReady 8 \<notin> set (projr (fst (LinuxPoller_wait sim_os sim_epoll 50 sim_linux sim_busy)))"
proof -
  have "ep_wait sim_epoll (epoll_fd sim_linux) EVENT_BUFFER_SZ (int_of_count 50) sim_busy
      = ((3, [(1, 3), (1, 7), (0x2001, 8)]), sim_busy\<lparr>sim_events := []\<rparr>)"
    by (simp add: sim_busy_def sim_linux_def sim_poll_eval EVENT_BUFFER_SZ_def)
  moreover from LinuxPoller_wait_result [OF sim_epoll_contract this, of sim_os]
  obtain res w' where "LinuxPoller_wait sim_os sim_epoll 50 sim_linux sim_busy = (Inr res, w')" by auto
  ultimately show ?thesis
    using LinuxPoller_hangup_wins [OF sim_epoll_contract, of sim_linux 50 sim_busy 3 _ _ 8 sim_os res w']
    by (simp add: sim_linux_def EPOLLIN_def EPOLLRDHUP_def)
qed

text \<open>
  A wait interrupted by a signal returns no events on Linux and on the BSDs, so the server's
  loop gets to test whether it was stopped; every other failure of the wait raises.
\<close>

theorem poller_wait_interrupted:
  assumes "ep_wait ep (epoll_fd lp) EVENT_BUFFER_SZ (int_of_count t) w = ((-1, []), w1)"
    and "kq_wait kq (kqueue_fd bp) EVENT_BUFFER_SZ (0, t * 1000000) w = ((-1, []), w2)"
  shows "LinuxPoller_wait os ep t lp w =
      (if os_errno os w1 = EINTR then Inr []
       else Inl (NonRecoverableException (''epoll error: '' @ os_strerror os (os_errno os w1))), w1) \<and>
    BsdPoller_wait os kq t bp w =
      (if os_errno os w2 = EINTR then Inr []
       else Inl (NonRecoverableException (''epoll error: '' @ os_strerror os (os_errno os w2))), w2)"
  using LinuxPoller_wait_failure [OF assms(1), of os] assms(2) by (simp add: BsdPoller_wait_def io_bind_call)

definition sim_kqueue :: "('z sim_poll_scheme) kqueue" where
  "sim_kqueue = \<lparr> kq_kqueue = (\<lambda>w. (6, w)),
     kq_change = (\<lambda>kfd i fl w. if fl AND EV_ADD \<noteq> 0
       then (0, w\<lparr>sim_interest := (sim_interest w)(kfd := insert (ucast i) (sim_interest w kfd))\<rparr>)
       else (if ucast i \<in> sim_interest w kfd then 0 else -1,
         w\<lparr>sim_interest := (sim_interest w)(kfd := sim_interest w kfd - {ucast i})\<rparr>)),
     kq_wait = (\<lambda>kfd n t w. ((-1, []), w)),
     kq_filters = sim_interest \<rparr>"

lemma sim_kqueue_contract: "kqueue_contract sim_kqueue"
  by (auto simp: kqueue_contract_def sim_kqueue_def EV_ADD_def EV_DELETE_def EV_ENABLE_def)

theorem poller_wait_interrupted_witness:
  "fst (LinuxPoller_wait sim_os sim_epoll 50 sim_linux (sim_poll_world\<lparr>sim_errno := EINTR\<rparr>)) = Inr []"
  using poller_wait_interrupted [of sim_epoll sim_linux 50 "sim_poll_world\<lparr>sim_errno := EINTR\<rparr>"
      "sim_poll_world\<lparr>sim_errno := EINTR\<rparr>" sim_kqueue "\<lparr> bp_server_fd = 3, kqueue_fd = 6 \<rparr>"
      "sim_poll_world\<lparr>sim_errno := EINTR\<rparr>" sim_os]
  by (simp add: sim_poll_eval sim_kqueue_def)

text \<open>
  On Windows \<^verbatim>\<open>Poller::wait\<close> never drops a descriptor: whatever it reports, also the
  disconnection of a client whose socket the server then closes, every descriptor ever added
  is polled again by the next wait.
\<close>

theorem Win32Poller_never_forgets:
  assumes "wsapoll_contract wsa" and "Win32Poller_wait wsa t p w = (r, p', w')"
  shows "map pfd_fd (wp_fds p') = map pfd_fd (wp_fds p)"
  using Win32Poller_wait_fds [OF assms] by simp

theorem Win32Poller_never_forgets_witness:
  "map pfd_fd (wp_fds (fst (snd (Win32Poller_wait sim_wsapoll 50
     (Win32Poller_add_client 7 (Win32Poller_new 3)) (sim_poll_world\<lparr>sim_revents := [0, 2]\<rparr>))))) = [3, 7] \<and>
   fst (Win32Poller_wait sim_wsapoll 50 (Win32Poller_add_client 7 (Win32Poller_new 3))
     (sim_poll_world\<lparr>sim_revents := [0, 2]\<rparr>)) = Inr [mk_Event ClientDisconnected 7]"
proof -
  let ?run = "Win32Poller_wait sim_wsapoll 50 (Win32Poller_add_client 7 (Win32Poller_new 3))
     (sim_poll_world\<lparr>sim_revents := [0, 2]\<rparr>)"
  obtain r p' w' where run: "?run = (r, p', w')" by (metis prod.exhaust)
  have "map pfd_fd (wp_fds (fst (snd ?run))) = [3, 7]"
    using Win32Poller_never_forgets [OF sim_wsapoll_contract run] unfolding run
    by (simp add: Win32Poller_add_client_def Win32Poller_new_def poll_fd_def)
  moreover have "fst ?run = Inr [mk_Event ClientDisconnected 7]"
    by (simp add: Win32Poller_wait_def Win32Poller_add_client_def Win32Poller_new_def poll_fd_def
        sim_poll_eval win32_client_events_def POLLRDNORM_def POLLHUP_def POLLERR_def POLLNVAL_def Let_def)
  ultimately show ?thesis by blast
qed

end
