(* ===== verification/Net.thy ===== *)
theory Net
  imports Poller
begin

text \<open>
  The calls that open sockets, a parameter like the other system calls: address lookup,
  \<^verbatim>\<open>socket\<close>, \<^verbatim>\<open>bind\<close>, \<^verbatim>\<open>listen\<close>, \<^verbatim>\<open>accept\<close>, \<^verbatim>\<open>connect\<close>, with the values of the constants of
  the socket headers that the program passes, and the loop over a list of addresses that the
  server and the client share in shape.
\<close>

text \<open>
  A socket address: its family and the bytes after it, in the layout of the headers (the port in
  two bytes, then for IPv4 the address, for IPv6 four bytes of flow information and the address).
\<close>

record sockaddr =
  sa_family :: int
  sa_data :: string

definition no_addr :: sockaddr where "no_addr = \<lparr> sa_family = 0, sa_data = '''' \<rparr>"

record addrinfo =
  ai_flags :: int
  ai_family :: int
  ai_socktype :: int
  ai_protocol :: int
  ai_addr :: sockaddr

definition AF_UNSPEC :: int where "AF_UNSPEC = 0"
definition AF_INET :: int where "AF_INET = 2"
definition SOCK_STREAM :: int where "SOCK_STREAM = 1"
definition AI_PASSIVE :: int where "AI_PASSIVE = 1"

text \<open>
  \<open>net_setsockopt\<close> is \<^verbatim>\<open>setsockopt\<close> with \<^verbatim>\<open>SOL_SOCKET\<close>, \<^verbatim>\<open>SO_REUSEADDR\<close> and the value yes.
  \<open>net_getnameinfo\<close> is \<^verbatim>\<open>getnameinfo\<close> on the peer's address that \<^verbatim>\<open>accept\<close> stored for the descriptor,
  with the status, the host and the port it wrote; \<open>net_inet_ntop\<close> is the text \<^verbatim>\<open>inet_ntop\<close> writes for
  the bytes of an address, which cannot fail for the families of a lookup and a buffer of
  \<^verbatim>\<open>INET6_ADDRSTRLEN\<close> bytes. \<open>net_lists\<close> observes the number of address lists that were not freed, and is called by
  no definition.
\<close>

record 'w net =
  net_getaddrinfo :: "string option \<Rightarrow> string \<Rightarrow> addrinfo \<Rightarrow> 'w \<Rightarrow> (int \<times> addrinfo list) \<times> 'w"
  net_gai_strerror :: "int \<Rightarrow> string"
  net_freeaddrinfo :: "addrinfo list \<Rightarrow> 'w \<Rightarrow> 'w"
  net_socket :: "int \<Rightarrow> int \<Rightarrow> int \<Rightarrow> 'w \<Rightarrow> SOCKET \<times> 'w"
  net_setsockopt :: "SOCKET \<Rightarrow> 'w \<Rightarrow> int \<times> 'w"
  net_bind :: "SOCKET \<Rightarrow> sockaddr \<Rightarrow> 'w \<Rightarrow> int \<times> 'w"
  net_listen :: "SOCKET \<Rightarrow> int \<Rightarrow> 'w \<Rightarrow> int \<times> 'w"
  net_accept :: "SOCKET \<Rightarrow> 'w \<Rightarrow> SOCKET \<times> 'w"
  net_connect :: "SOCKET \<Rightarrow> sockaddr \<Rightarrow> 'w \<Rightarrow> int \<times> 'w"
  net_SOMAXCONN :: int
  net_getnameinfo :: "SOCKET \<Rightarrow> 'w \<Rightarrow> (int \<times> string \<times> string) \<times> 'w"
  net_inet_ntop :: "int \<Rightarrow> string \<Rightarrow> string"
  net_lists :: "'w \<Rightarrow> nat"

subsection \<open>Documented behaviour\<close>

text \<open>A call that opens a descriptor returns one that was not open, or an error and opens none.\<close>

definition opens :: "('w, 'z) os_scheme \<Rightarrow> ('w \<Rightarrow> SOCKET \<times> 'w) \<Rightarrow> bool" where
  "opens os f \<longleftrightarrow> (\<forall>w fd w'. f w = (fd, w') \<longrightarrow>
     (if fd = INVALID_SOCKET then os_open os w' = os_open os w
      else fd \<notin> os_open os w \<and> 0 \<le> sint fd \<and> os_open os w' = insert fd (os_open os w)))"

definition net_contract :: "('w, 'z) os_scheme \<Rightarrow> ('w, 'n) net_scheme \<Rightarrow> bool" where
  [contract_defs]: "net_contract os nt \<longleftrightarrow>
     (\<forall>f t p. opens os (net_socket nt f t p)) \<and> (\<forall>fd. opens os (net_accept nt fd)) \<and>
     (\<forall>h p hints. keeps (os_open os) (net_getaddrinfo nt h p hints)) \<and>
     (\<forall>l w. os_open os (net_freeaddrinfo nt l w) = os_open os w) \<and>
     (\<forall>fd. keeps (os_open os) (net_setsockopt nt fd)) \<and>
     (\<forall>fd a. keeps (os_open os) (net_bind nt fd a)) \<and>
     (\<forall>fd n. keeps (os_open os) (net_listen nt fd n)) \<and>
     (\<forall>fd a. keeps (os_open os) (net_connect nt fd a)) \<and>
     (\<forall>fd. keeps (os_open os) (net_getnameinfo nt fd))"

text \<open>An address list is allocated by a successful lookup and released by freeing it.\<close>

definition net_lists_contract :: "('w, 'z) os_scheme \<Rightarrow> ('w, 'n) net_scheme \<Rightarrow> bool" where
  [contract_defs]: "net_lists_contract os nt \<longleftrightarrow>
     (\<forall>h p hints w r l w'. net_getaddrinfo nt h p hints w = ((r, l), w') \<longrightarrow>
        net_lists nt w' = (if r = 0 then Suc (net_lists nt w) else net_lists nt w)) \<and>
     (\<forall>l w. net_lists nt (net_freeaddrinfo nt l w) = net_lists nt w - 1) \<and>
     (\<forall>f t p. keeps (net_lists nt) (net_socket nt f t p)) \<and>
     (\<forall>fd a. keeps (net_lists nt) (net_connect nt fd a)) \<and>
     (\<forall>fd. keeps (net_lists nt) (os_close os fd)) \<and>
     (\<forall>fd. keeps (net_lists nt) (os_fcntl_getfl os fd)) \<and>
     (\<forall>fd fl. keeps (net_lists nt) (os_fcntl_setfl os fd fl)) \<and>
     (\<forall>fd. keeps (net_lists nt) (os_ioctl_fionbio os fd)) \<and>
     (\<forall>lg w. net_lists nt (os_set_logger os lg w) = net_lists nt w)"

lemma opensD:
  assumes "opens os f" and "f w = (fd, w')"
  shows "fd = INVALID_SOCKET \<Longrightarrow> os_open os w' = os_open os w"
    and "fd \<noteq> INVALID_SOCKET \<Longrightarrow> fd \<notin> os_open os w \<and> 0 \<le> sint fd \<and> os_open os w' = insert fd (os_open os w)"
  using assms unfolding opens_def by (metis (no_types, lifting))+

lemma net_contractD:
  assumes "net_contract os nt"
  shows "opens os (net_socket nt f t p)" "opens os (net_accept nt fd)"
    "keeps (os_open os) (net_getaddrinfo nt h pt hints)"
    "os_open os (net_freeaddrinfo nt l w) = os_open os w"
    "keeps (os_open os) (net_setsockopt nt fd)" "keeps (os_open os) (net_bind nt fd a)"
    "keeps (os_open os) (net_listen nt fd n)" "keeps (os_open os) (net_connect nt fd a)"
    "keeps (os_open os) (net_getnameinfo nt fd)"
  using assms unfolding net_contract_def by blast+

subsection \<open>A concrete environment\<close>

text \<open>
  The world of the pollers extended by the addresses a lookup finds (none: the lookup fails), by
  scripts of the results of \<^verbatim>\<open>bind\<close> and \<^verbatim>\<open>connect\<close> (zero when exhausted), and by the count of
  unfreed lists. A new descriptor is the least one that is not open among 0 to 63; when all of
  them are open the call fails.
\<close>

record sim_net = sim_poll +
  sim_addrs :: "addrinfo list"
  sim_rets :: "int list"
  sim_lists :: nat

definition sim_new_fd :: "'z sim_net_scheme \<Rightarrow> SOCKET \<times> 'z sim_net_scheme" where
  "sim_new_fd w = (case filter (\<lambda>fd. fd \<notin> sim_open w) (map word_of_nat [0..<64]) of
     [] \<Rightarrow> (INVALID_SOCKET, w)
   | fd # _ \<Rightarrow> (fd, w\<lparr>sim_open := insert fd (sim_open w)\<rparr>))"

definition sim_ret :: "'z sim_net_scheme \<Rightarrow> int \<times> 'z sim_net_scheme" where
  "sim_ret w = (case sim_rets w of [] \<Rightarrow> (0, w) | r # rs \<Rightarrow> (r, w\<lparr>sim_rets := rs\<rparr>))"

definition sim_nt :: "('z sim_net_scheme) net" where
  "sim_nt = \<lparr>
     net_getaddrinfo = (\<lambda>h p hints w. if sim_addrs w = [] then ((-2, []), w)
       else ((0, sim_addrs w), w\<lparr>sim_lists := Suc (sim_lists w)\<rparr>)),
     net_gai_strerror = (\<lambda>e. ''not known''),
     net_freeaddrinfo = (\<lambda>l w. w\<lparr>sim_lists := sim_lists w - 1\<rparr>),
     net_socket = (\<lambda>f t p. sim_new_fd), net_setsockopt = (\<lambda>fd w. (0, w)),
     net_bind = (\<lambda>fd a. sim_ret), net_listen = (\<lambda>fd n. sim_ret), net_accept = (\<lambda>fd. sim_new_fd),
     net_connect = (\<lambda>fd a. sim_ret), net_SOMAXCONN = 4096,
     net_getnameinfo = (\<lambda>fd w. ((0, ''10.0.0.1'', ''40000''), w)), net_inet_ntop = (\<lambda>f a. a), net_lists = sim_lists \<rparr>"

definition sim_net_world :: sim_net where
  "sim_net_world = sim_poll.extend sim_poll_world (sim_net.fields [] [] 0)"

definition sim_addr :: addrinfo where
  "sim_addr = \<lparr> ai_flags = 0, ai_family = 2, ai_socktype = 1, ai_protocol = 6, 
     ai_addr = \<lparr> sa_family = 2, sa_data = [CHR 0x1F, CHR 0x90, CHR 0x7F, NUL, NUL, CHR 0x01] \<rparr> \<rparr>"

lemma sim_new_fd_opens: "opens sim_os sim_new_fd"
  unfolding opens_def
proof (intro allI impI)
  fix w w' :: "'z sim_net_scheme" and fd
  assume run: "sim_new_fd w = (fd, w')"
  have nonneg: "0 \<le> sint x \<and> x \<noteq> INVALID_SOCKET" if "x \<in> set (map word_of_nat [0..<64])" for x :: SOCKET
  proof -
    from that obtain n where n: "x = word_of_nat n" "n < 64" by auto
    then have "sint x = int n" using c_int_small [of n] by (simp add: c_int_def)
    then show ?thesis by (auto simp: INVALID_SOCKET_def)
  qed
  show "if fd = INVALID_SOCKET then os_open sim_os w' = os_open sim_os w
      else fd \<notin> os_open sim_os w \<and> 0 \<le> sint fd \<and> os_open sim_os w' = insert fd (os_open sim_os w)"
  proof (cases "filter (\<lambda>fd. fd \<notin> sim_open w) (map word_of_nat [0..<64])")
    case Nil
    with run show ?thesis by (simp add: sim_new_fd_def)
  next
    case (Cons x xs)
    then have "x \<in> set (filter (\<lambda>fd. fd \<notin> sim_open w) (map word_of_nat [0..<64]))" by (metis list.set_intros(1))
    then have "x \<notin> sim_open w" "0 \<le> sint x \<and> x \<noteq> INVALID_SOCKET" using nonneg by auto
    moreover from run Cons have "fd = x" "w' = w\<lparr>sim_open := insert x (sim_open w)\<rparr>"
      by (auto simp: sim_new_fd_def)
    ultimately show ?thesis by (simp add: sim_os_def)
  qed
qed

lemma sim_net_contract: "net_contract sim_os sim_nt"
  by (simp add: net_contract_def sim_nt_def sim_new_fd_opens)
    (auto simp: keeps_def sim_os_def sim_ret_def split: list.splits)

lemma sim_net_lists_contract: "net_lists_contract sim_os sim_nt"
  by (auto simp: net_lists_contract_def sim_nt_def keeps_def sim_os_def sim_ret_def sim_new_fd_def split: list.splits)

lemmas sim_net_eval = sim_poll_eval sim_nt_def sim_net_world_def sim_ret_def sim_net.defs

end
