(* ===== verification/Server.thy ===== *)
theory Server
  imports Net
begin

text \<open>
  Class \<^verbatim>\<open>Server\<close> (\<^verbatim>\<open>server/server.cc\<close>) with its subclasses \<^verbatim>\<open>TCPServer\<close> and \<^verbatim>\<open>SSLServer\<close>:
  opening the listening socket, accepting, the iteration over the poller's events, the loop
  \<^verbatim>\<open>run\<close> with \<^verbatim>\<open>stop\<close>, and destruction. The poller is the one the build selects, given by its
  \<open>poller_vtable\<close>. The invariant ties together what four components hold: the sessions of
  the thread manager are exactly the clients registered with the poller, and all of their
  descriptors are open.
\<close>

subsection \<open>TCPServer: listening and accepting\<close>

definition listener_hints :: addrinfo where
  "listener_hints = \<lparr> ai_flags = AI_PASSIVE, ai_family = AF_INET, ai_socktype = SOCK_STREAM,
     ai_protocol = 0, ai_addr = no_addr \<rparr>"

text \<open>The loop over the addresses; \<open>None\<close> is the end of the list, \<^verbatim>\<open>p == nullptr\<close>.\<close>

fun bind_loop ::
  "('w, 'z) os_scheme \<Rightarrow> ('w, 'n) net_scheme \<Rightarrow> addrinfo list \<Rightarrow> (SOCKET option, 'w) io" where
  "bind_loop os nt [] = io_return None"
| "bind_loop os nt (p # ps) =
     io_bind (io_call (net_socket nt (ai_family p) (ai_socktype p) (ai_protocol p))) (\<lambda>listener.
       if listener = INVALID_SOCKET then throw_errno os NonRecoverableException ''socket error: ''
       else io_bind (io_call (net_setsockopt nt listener)) (\<lambda>r.
         if r = SOCKET_ERROR then throw_errno os NonRecoverableException ''setsocket error: ''
         else io_bind (io_call (net_bind nt listener (ai_addr p))) (\<lambda>r.
           if r = SOCKET_ERROR
           then io_bind (io_call (os_close os listener)) (\<lambda>_. bind_loop os nt ps)
           else io_return (Some listener))))"

definition create_listener ::
  "('w, 'z) os_scheme \<Rightarrow> ('w, 'n) net_scheme \<Rightarrow> 16 word \<Rightarrow> bool \<Rightarrow> (SOCKET, 'w) io" where
  "create_listener os nt port open_to_world =
     io_bind (io_call (net_getaddrinfo nt (if open_to_world then None else Some ''localhost'')
         (show_nat (unat port)) listener_hints)) (\<lambda>(rv, servinfo).
       if rv \<noteq> 0
       then io_throw (NonRecoverableException (''getaddrinfo error: '' @ net_gai_strerror nt rv))
       else io_bind (bind_loop os nt servinfo) (\<lambda>res.
         io_bind (io_call (\<lambda>w. ((), net_freeaddrinfo nt servinfo w))) (\<lambda>_.
           case res of
             None \<Rightarrow> throw_errno os NonRecoverableException ''failed to bind: ''
           | Some listener \<Rightarrow>
               io_bind (io_call (net_listen nt listener (net_SOMAXCONN nt))) (\<lambda>r.
                 if r = SOCKET_ERROR then throw_errno os NonRecoverableException ''listen error: ''
                 else io_bind (io_do (log_with os (LOG (''listening in port '' @ show_nat (unat port))))) (\<lambda>_.
                   io_bind (io_do (log_with os (DBG (''with fd '' @ show_int (sint listener))))) (\<lambda>_.
                     io_return listener))))))"

definition TCPServer_accept ::
  "('w, 'z) os_scheme \<Rightarrow> ('w, 'n) net_scheme \<Rightarrow> SOCKET \<Rightarrow> (SOCKET, 'w) io" where
  "TCPServer_accept os nt fd =
     io_bind (io_call (net_accept nt fd)) (\<lambda>client_fd.
       if client_fd = INVALID_SOCKET then throw_errno os NonRecoverableException ''listen error: ''
       else io_bind (io_call (net_getnameinfo nt client_fd)) (\<lambda>(r, hoststr, portstr).
         io_bind (if r = 0 then io_do (log_with os (DBG (''New connection from '' @ hoststr @ '':'' @ portstr @
             '' as fd '' @ show_int (sint client_fd)))) else io_return ()) (\<lambda>_.
           io_bind (socket_mark_as_nonblocking os client_fd) (\<lambda>_. io_return client_fd))))"

subsection \<open>Class Server\<close>

text \<open>The two subclasses; an \<^verbatim>\<open>SSLServer\<close> has the member \<^verbatim>\<open>ctx_\<close>. They differ in the connection they create.\<close>

datatype server_class = TCPServer | SSLServer SSL_CTX

definition TCPServer_create_connection :: "SOCKET \<Rightarrow> (connection, 'w) io" where
  "TCPServer_create_connection fd = io_return (TCPConnection fd)"

definition SSLServer_create_connection ::
  "('w, 'z) os_scheme \<Rightarrow> ('w, 'y) openssl_scheme \<Rightarrow> SSL_CTX \<Rightarrow> SOCKET \<Rightarrow> (connection, 'w) io" where
  "SSLServer_create_connection os sl ctx fd = SSLConnection_new os sl fd ctx"

text \<open>The virtual method.\<close>

fun create_connection ::
  "('w, 'z) os_scheme \<Rightarrow> ('w, 'y) openssl_scheme \<Rightarrow> server_class \<Rightarrow> SOCKET \<Rightarrow> (connection, 'w) io" where
  "create_connection os sl TCPServer fd = TCPServer_create_connection fd"
| "create_connection os sl (SSLServer ctx) fd = SSLServer_create_connection os sl ctx fd"

lemmas create_connection_defs [simp] = TCPServer_create_connection_def SSLServer_create_connection_def

record 'p server =
  srv_class :: server_class
  srv_fd :: SOCKET
  srv_poller :: 'p
  srv_protocol :: "connection \<Rightarrow> session"
  srv_threads :: "session thread list"
  srv_running :: bool

text \<open>The calls a server makes, in one argument.\<close>

record ('p, 'w) platform_calls =
  pc_os :: "'w os"
  pc_ssl :: "'w openssl"
  pc_net :: "'w net"
  pc_poller :: "('p, 'w) poller_vtable"

abbreviation pc_vt :: "('p, 'w, 'x) platform_calls_scheme \<Rightarrow> (session, 'w) session_vtable" where
  "pc_vt pc \<equiv> Session_vtable (pc_os pc) (pc_ssl pc)"

text \<open>
  The constructor of the base class, on behalf of the derived class: the poller is constructed by
  \<open>new_poller\<close>, whose exception leaves the listening socket open, as no destructor of the server
  runs. \<^verbatim>\<open>TCPServer\<close> hands it the listening socket.
\<close>

definition Server_new ::
  "server_class \<Rightarrow> (SOCKET \<Rightarrow> ('p, 'w) io) \<Rightarrow> SOCKET \<Rightarrow> (connection \<Rightarrow> session) \<Rightarrow> thread_count \<Rightarrow>
     ('p server, 'w) io" where
  "Server_new cls new_poller fd protocol thread_count =
     io_bind (new_poller fd) (\<lambda>poller.
       io_return \<lparr> srv_class = cls, srv_fd = fd, srv_poller = poller, srv_protocol = protocol,
         srv_threads = ThreadManager_new thread_count, srv_running = True \<rparr>)"

definition TCPServer_new ::
  "('p, 'w, 'x) platform_calls_scheme \<Rightarrow> (SOCKET \<Rightarrow> ('p, 'w) io) \<Rightarrow> 16 word \<Rightarrow> bool \<Rightarrow>
     (connection \<Rightarrow> session) \<Rightarrow> thread_count \<Rightarrow> ('p server, 'w) io" where
  "TCPServer_new pc new_poller port open_to_world protocol thread_count =
     io_bind (create_listener (pc_os pc) (pc_net pc) port open_to_world) (\<lambda>fd.
       Server_new TCPServer new_poller fd protocol thread_count)"

text \<open>\<^verbatim>\<open>Server::iterate\<close>: one event, then all of them until one raises.\<close>

definition Server_new_client ::
  "('p, 'w, 'x) platform_calls_scheme \<Rightarrow> 'p server \<Rightarrow> 'w \<Rightarrow> (failure + unit) \<times> 'p server \<times> 'w" where
  "Server_new_client pc s w =
     (case TCPServer_accept (pc_os pc) (pc_net pc) (srv_fd s) w of
        (Inl e, w1) \<Rightarrow> (Inl e, s, w1)
      | (Inr fd, w1) \<Rightarrow>
     (case create_connection (pc_os pc) (pc_ssl pc) (srv_class s) fd w1 of
        (Inl e, w2) \<Rightarrow> (Inl e, s, w2)
      | (Inr c, w2) \<Rightarrow>
     (case ThreadManager_add_session (pc_vt pc) (srv_protocol s c) (srv_threads s) w2 of
        (Inl e, ts, w3) \<Rightarrow> (Inl e, s\<lparr>srv_threads := ts\<rparr>, w3)
      | (Inr _, ts, w3) \<Rightarrow>
     (case pl_add_client (pc_poller pc) fd (srv_poller s) w3 of
        (r, p, w4) \<Rightarrow> (r, s\<lparr>srv_threads := ts, srv_poller := p\<rparr>, w4)))))"

definition Server_event ::
  "('p, 'w, 'x) platform_calls_scheme \<Rightarrow> Event \<Rightarrow> 'p server \<Rightarrow> 'w \<Rightarrow> (failure + unit) \<times> 'p server \<times> 'w" where
  "Server_event pc event s w =
     (case ev_type event of
        NewClient \<Rightarrow> Server_new_client pc s w
      | ClientDataReady \<Rightarrow>
          (case ThreadManager_data_available (pc_vt pc) (ev_fd event) (srv_threads s) w of
             (r, ts, w') \<Rightarrow> (r, s\<lparr>srv_threads := ts\<rparr>, w'))
      | ClientDisconnected \<Rightarrow>
          (case ThreadManager_remove_session (pc_vt pc) (ev_fd event) (srv_threads s) w of
             (r, ts, w') \<Rightarrow> (r, s\<lparr>srv_threads := ts\<rparr>, w')))"

fun Server_events ::
  "('p, 'w, 'x) platform_calls_scheme \<Rightarrow> Event list \<Rightarrow> 'p server \<Rightarrow> 'w \<Rightarrow> (failure + unit) \<times> 'p server \<times> 'w" where
  "Server_events pc [] s w = (Inr (), s, w)"
| "Server_events pc (e # es) s w =
     (case Server_event pc e s w of
        (Inl x, s', w') \<Rightarrow> (Inl x, s', w')
      | (Inr _, s', w') \<Rightarrow> Server_events pc es s' w')"

definition Server_iterate ::
  "('p, 'w, 'x) platform_calls_scheme \<Rightarrow> 'p server \<Rightarrow> 'w \<Rightarrow> (failure + unit) \<times> 'p server \<times> 'w" where
  "Server_iterate pc s w =
     (case pl_wait (pc_poller pc) (srv_poller s) w of
        (Inl e, p, w1) \<Rightarrow> (Inl e, s\<lparr>srv_poller := p\<rparr>, w1)
      | (Inr evs, p, w1) \<Rightarrow> Server_events pc evs (s\<lparr>srv_poller := p\<rparr>) w1)"

definition Server_stop :: "'p server \<Rightarrow> 'p server" where
  "Server_stop s = s\<lparr>srv_running := False\<rparr>"

text \<open>
  \<^verbatim>\<open>Server::run\<close>. Other threads and signal handlers act while it runs; \<open>env\<close> is what they did to
  the server and the world in the course of an iteration.
\<close>

partial_function (option) Server_run ::
  "('p, 'w, 'x) platform_calls_scheme \<Rightarrow> ('p server \<Rightarrow> 'w \<Rightarrow> 'p server \<times> 'w) \<Rightarrow> 'p server \<Rightarrow> 'w \<Rightarrow>
     ((failure + unit) \<times> 'p server \<times> 'w) option"
where
  "Server_run pc env s w =
     (if srv_running s then
        (case Server_iterate pc s w of
           (Inl e, s1, w1) \<Rightarrow> Some (Inl e, s1, w1)
         | (Inr _, s1, w1) \<Rightarrow> (case env s1 w1 of (s2, w2) \<Rightarrow> Server_run pc env s2 w2))
      else Some (Inr (), s, w))"

text \<open>
  The same as a step relation with the workers' steps in between. A configuration is the server,
  the events of the current batch that are still to be handled, and the world; \<^verbatim>\<open>running_\<close>
  is tested when a batch is finished.
\<close>

inductive srv_step ::
  "('p, 'w, 'x) platform_calls_scheme \<Rightarrow> 'p server \<times> Event list \<times> 'w \<Rightarrow> 'p server \<times> Event list \<times> 'w \<Rightarrow> bool"
  for pc where
  poll: "srv_running s \<Longrightarrow> pl_wait (pc_poller pc) (srv_poller s) w = (Inr evs, p, w') \<Longrightarrow>
     srv_step pc (s, [], w) (s\<lparr>srv_poller := p\<rparr>, evs, w')"
| handle: "Server_event pc e s w = (Inr (), s', w') \<Longrightarrow> srv_step pc (s, e # es, w) (s', es, w')"
| worker_test: "i < length (srv_threads s) \<Longrightarrow> srv_threads s ! i = Multi t \<Longrightarrow> worker t = AtTest \<Longrightarrow>
     srv_step pc (s, es, w) (s\<lparr>srv_threads := (srv_threads s)[i := Multi (ThreadMulti_test t)]\<rparr>, es, w)"
| worker_wake: "i < length (srv_threads s) \<Longrightarrow> srv_threads s ! i = Multi t \<Longrightarrow> worker t = AtWait \<Longrightarrow>
     ThreadMulti_wake (pc_vt pc) t w = (Inr (), t', w') \<Longrightarrow>
     srv_step pc (s, es, w) (s\<lparr>srv_threads := (srv_threads s)[i := Multi t']\<rparr>, es, w')"
| stop: "srv_step pc (s, es, w) (Server_stop s, es, w)"

inductive srv_reach ::
  "('p, 'w, 'x) platform_calls_scheme \<Rightarrow> 'p server \<times> 'w \<Rightarrow> 'p server \<times> Event list \<times> 'w \<Rightarrow> bool"
  for pc and init where
  reach_init: "srv_reach pc init (fst init, [], snd init)"
| reach_step: "srv_reach pc init x \<Longrightarrow> srv_step pc x y \<Longrightarrow> srv_reach pc init y"

inductive_cases srv_step_cases: "srv_step pc (s, es, w) (s', es', w')"

subsection \<open>Signals\<close>

text \<open>
  \<^verbatim>\<open>Server::stop_on_SIGINT\<close>. The static variable is initialised by the first call only and keeps
  that value; servers are told apart by their address. The handler stops the server the
  variable points to; its result is the text it prints and the servers.
\<close>

record signals =
  global_server :: "nat option"
  sigint_handled :: bool

definition stop_on_SIGINT :: "nat \<Rightarrow> signals \<Rightarrow> signals" where
  "stop_on_SIGINT this sg = sg\<lparr>
     global_server := (case global_server sg of None \<Rightarrow> Some this | Some g \<Rightarrow> Some g),
     sigint_handled := True\<rparr>"

definition SIGINT_handler :: "signals \<Rightarrow> (nat \<Rightarrow> 'p server) \<Rightarrow> string \<times> (nat \<Rightarrow> 'p server)" where
  "SIGINT_handler sg servers =
     (case global_server sg of
        None \<Rightarrow> ('''', servers)
      | Some g \<Rightarrow> (''CTRL+C detected - finalizing server...'' @ lf, servers(g := Server_stop (servers g))))"

subsection \<open>Destruction\<close>

text \<open>
  \<^verbatim>\<open>~Server\<close> closes the listening socket, then the members are destroyed in reverse order: the
  thread manager with its threads, and the poller. \<open>orders\<close> holds for each thread the order
  in which its map destroys the sessions.
\<close>

fun thread_destroy ::
  "('s, 'w) session_vtable \<Rightarrow> SOCKET list \<Rightarrow> 's thread \<Rightarrow> 'w \<Rightarrow> (failure + unit) \<times> 'w" where
  "thread_destroy vt order (Single t) w = (Inr (), destroy_sessions vt order (ts_sessions t) w)"
| "thread_destroy vt order (Multi t) w = ThreadMulti_destroy vt order t w"

fun threads_destroy ::
  "('s, 'w) session_vtable \<Rightarrow> (SOCKET list \<times> 's thread) list \<Rightarrow> 'w \<Rightarrow> (failure + unit) \<times> 'w" where
  "threads_destroy vt [] w = (Inr (), w)"
| "threads_destroy vt ((order, t) # ts) w =
     (case thread_destroy vt order t w of
        (Inl e, w') \<Rightarrow> (Inl e, w')
      | (Inr _, w') \<Rightarrow> threads_destroy vt ts w')"

definition Server_destroy ::
  "('p, 'w, 'x) platform_calls_scheme \<Rightarrow> SOCKET list list \<Rightarrow> 'p server \<Rightarrow> 'w \<Rightarrow> (failure + unit) \<times> 'w" where
  "Server_destroy pc orders s w =
     (case threads_destroy (pc_vt pc) (zip orders (srv_threads s)) (close_socket (pc_os pc) (srv_fd s) w) of
        (Inl e, w') \<Rightarrow> (Inl e, w')
      | (Inr _, w') \<Rightarrow> (Inr (), pl_destroy (pc_poller pc) (srv_poller s) w'))"

subsection \<open>SSLServer: the certificate and the key\<close>

text \<open>The OpenSSL calls of the constructor, another parameter; objects are numbers, \<open>None\<close> is a null pointer.\<close>

record 'w sslctx =
  cx_new :: "'w \<Rightarrow> nat \<times> 'w"
  cx_bio_new :: "string \<Rightarrow> 'w \<Rightarrow> nat option \<times> 'w"
  cx_bio_free :: "nat option \<Rightarrow> 'w \<Rightarrow> 'w"
  cx_read_x509 :: "nat \<Rightarrow> 'w \<Rightarrow> nat option \<times> 'w"
  cx_use_certificate :: "nat \<Rightarrow> nat \<Rightarrow> 'w \<Rightarrow> int \<times> 'w"
  cx_x509_free :: "nat \<Rightarrow> 'w \<Rightarrow> 'w"
  cx_read_key :: "nat option \<Rightarrow> 'w \<Rightarrow> nat option \<times> 'w"
  cx_use_key :: "nat \<Rightarrow> nat option \<Rightarrow> 'w \<Rightarrow> int \<times> 'w"
  cx_key_free :: "nat option \<Rightarrow> 'w \<Rightarrow> 'w"
  cx_check_key :: "nat \<Rightarrow> 'w \<Rightarrow> int \<times> 'w"
  cx_free :: "nat \<Rightarrow> 'w \<Rightarrow> 'w"

text \<open>
  The callback for errors of OpenSSL, and \<^verbatim>\<open>ERR_print_errors_cb(err, nullptr)\<close>, which calls it
  for a queued error and else goes on.
\<close>

definition sslserver_err :: "('w, 'z) os_scheme \<Rightarrow> string \<Rightarrow> ('a, 'w) io" where
  "sslserver_err os str =
     io_bind (io_do (log_with os (ERR (''ssl server: '' @ str)))) (\<lambda>_.
       io_throw (NonRecoverableException (''ssl server: {}'' @ str)))"

definition raise_ssl_errors :: "('w, 'z) os_scheme \<Rightarrow> ('w, 'y) openssl_scheme \<Rightarrow> (unit, 'w) io" where
  "raise_ssl_errors os sl =
     io_bind (io_call (ssl_print_errors sl)) (\<lambda>msg. case msg of
       None \<Rightarrow> io_return ()
     | Some str \<Rightarrow> sslserver_err os str)"

definition load_certificate :: "('w, 'c) sslctx_scheme \<Rightarrow> nat \<Rightarrow> string \<Rightarrow> (unit, 'w) io" where
  "load_certificate cx ctx certificate =
     io_bind (io_call (cx_bio_new cx (takeWhile (\<lambda>c. c \<noteq> NUL) certificate))) (\<lambda>certbio. case certbio of
       None \<Rightarrow> io_throw (NonRecoverableException ''Invalid certificate key.'')
     | Some bio \<Rightarrow>
         io_bind (io_call (cx_read_x509 cx bio)) (\<lambda>cert. case cert of
           None \<Rightarrow> io_throw (NonRecoverableException ''Invalid certificate key.'')
         | Some x \<Rightarrow>
             io_bind (io_call (cx_use_certificate cx ctx x)) (\<lambda>_.
             io_bind (io_do (cx_x509_free cx x)) (\<lambda>_. io_do (cx_bio_free cx (Some bio))))))"

definition load_key ::
  "('w, 'z) os_scheme \<Rightarrow> ('w, 'y) openssl_scheme \<Rightarrow> ('w, 'c) sslctx_scheme \<Rightarrow> nat \<Rightarrow> string \<Rightarrow> (unit, 'w) io" where
  "load_key os sl cx ctx private_key =
     io_bind (io_call (cx_bio_new cx (takeWhile (\<lambda>c. c \<noteq> NUL) private_key))) (\<lambda>keybio.
     io_bind (if keybio = None then raise_ssl_errors os sl else io_return ()) (\<lambda>_.
     io_bind (io_call (cx_read_key cx keybio)) (\<lambda>pkey.
     io_bind (if pkey = None then raise_ssl_errors os sl else io_return ()) (\<lambda>_.
     io_bind (io_call (cx_use_key cx ctx pkey)) (\<lambda>_.
     io_bind (io_do (cx_key_free cx pkey)) (\<lambda>_.
     io_bind (io_do (cx_bio_free cx keybio)) (\<lambda>_.
     io_bind (io_call (cx_check_key cx ctx)) (\<lambda>ok.
       if ok = 0 then raise_ssl_errors os sl else io_return ()))))))))"

text \<open>
  When the body raises, the base class is complete and its destructor runs; the context is not
  freed, as \<^verbatim>\<open>~SSLServer\<close> does not run.
\<close>

definition SSLServer_new ::
  "('p, 'w, 'x) platform_calls_scheme \<Rightarrow> ('w, 'c) sslctx_scheme \<Rightarrow> (SOCKET \<Rightarrow> ('p, 'w) io) \<Rightarrow> 16 word \<Rightarrow> bool \<Rightarrow>
     (connection \<Rightarrow> session) \<Rightarrow> thread_count \<Rightarrow> string \<Rightarrow> string \<Rightarrow> ('p server \<times> nat, 'w) io" where
  "SSLServer_new pc cx new_poller port open_to_world protocol thread_count certificate private_key =
     io_bind (TCPServer_new pc new_poller port open_to_world protocol thread_count) (\<lambda>s.
     io_bind (io_call (cx_new cx)) (\<lambda>ctx w.
       case io_bind (load_certificate cx ctx certificate) (\<lambda>_. load_key (pc_os pc) (pc_ssl pc) cx ctx private_key) w of
         (Inr _, w') \<Rightarrow> (Inr (s\<lparr>srv_class := SSLServer ctx\<rparr>, ctx), w')
       | (Inl e, w') \<Rightarrow>
           (Inl e, snd (Server_destroy pc (map (\<lambda>_. []) (srv_threads s)) s w'))))"

text \<open>\<^verbatim>\<open>~SSLServer\<close> frees the context, then \<^verbatim>\<open>~Server\<close> follows.\<close>

definition SSLServer_destroy ::
  "('p, 'w, 'x) platform_calls_scheme \<Rightarrow> ('w, 'c) sslctx_scheme \<Rightarrow> SOCKET list list \<Rightarrow> 'p server \<times> nat \<Rightarrow>
     'w \<Rightarrow> (failure + unit) \<times> 'w" where
  "SSLServer_destroy pc cx orders = (\<lambda>(s, ctx) w. Server_destroy pc orders s (cx_free cx ctx w))"

subsection \<open>The invariant\<close>

text \<open>A protocol gives the connection it is handed to the session it creates.\<close>

definition protocol_ok :: "(connection \<Rightarrow> session) \<Rightarrow> bool" where
  "protocol_ok pr \<longleftrightarrow> (\<forall>c. session_connection (pr c) = c)"

text \<open>
  \<open>pending\<close> are the clients of the current batch of events that are already deregistered but
  whose session is still to be removed; between iterations there are none.
\<close>

definition server_inv ::
  "('p, 'w, 'x) platform_calls_scheme \<Rightarrow> ('p \<Rightarrow> SOCKET) \<Rightarrow> ('p \<Rightarrow> bool) \<Rightarrow> ('p \<Rightarrow> 'w \<Rightarrow> SOCKET set) \<Rightarrow>
     SOCKET set \<Rightarrow> 'p server \<Rightarrow> 'w \<Rightarrow> bool" where
  "server_inv pc server ok clients pending s w \<longleftrightarrow>
     protocol_ok (srv_protocol s) \<and> ok (srv_poller s) \<and> server (srv_poller s) = srv_fd s \<and>
     manager_inv (pc_vt pc) thread_sessions (srv_threads s) \<and>
     dom (manager_lookup thread_sessions (srv_threads s)) = clients (srv_poller s) w \<union> pending \<and>
     clients (srv_poller s) w \<inter> pending = {} \<and>
     clients (srv_poller s) w \<union> pending \<subseteq> os_open (pc_os pc) w \<and>
     srv_fd s \<in> os_open (pc_os pc) w \<and> srv_fd s \<notin> clients (srv_poller s) w \<union> pending"

subsection \<open>The environment of a server\<close>

lemma accept_inversion:
  assumes "TCPServer_accept os nt sfd w = (Inr fd, w')"
  obtains w1 r w2 w3 where "net_accept nt sfd w = (fd, w1)" and "fd \<noteq> INVALID_SOCKET"
    and "net_getnameinfo nt fd w1 = (r, w2)" and "w3 = w2 \<or> (\<exists>f. w3 = log_with os f w2)"
    and "socket_mark_as_nonblocking os fd w3 = (Inr (), w')"
  using assms by (auto simp: TCPServer_accept_def io_bind_call io_bind_eq_Inr split: prod.splits if_splits) blast+

lemma accept_keeps:
  assumes "TCPServer_accept os nt sfd w = (Inr fd, w')"
    and "\<And>fd. keeps obs (net_getnameinfo nt fd)" and "\<And>lg w. obs (os_set_logger os lg w) = obs w"
    and "\<And>fd. keeps obs (os_fcntl_getfl os fd)" and "\<And>fd fl. keeps obs (os_fcntl_setfl os fd fl)"
    and "\<And>fd. keeps obs (os_ioctl_fionbio os fd)"
  obtains w1 where "net_accept nt sfd w = (fd, w1)" and "fd \<noteq> INVALID_SOCKET" and "obs w' = obs w1"
proof -
  obtain w1 r w2 w3 where acc: "net_accept nt sfd w = (fd, w1)" "fd \<noteq> INVALID_SOCKET"
    and ni: "net_getnameinfo nt fd w1 = (r, w2)" and w3: "w3 = w2 \<or> (\<exists>f. w3 = log_with os f w2)"
    and nb: "socket_mark_as_nonblocking os fd w3 = (Inr (), w')" by (rule accept_inversion [OF assms(1)])
  have "obs w3 = obs w2" using w3 assms(3) by (auto simp: log_with_def)
  with mark_nonblocking_keeps [OF assms(4-6) nb] keepsD [OF assms(2) ni] have "obs w' = obs w1" by simp
  with acc show ?thesis by (rule that)
qed


text \<open>
  What the invariant needs of the calls together: an exact poller; the contracts of the
  descriptor table; and that poller and sockets do not disturb each other, except that closing
  a descriptor deregisters it.
\<close>

locale server_env = exact_poller "pc_poller pc" server ok clients contract
  for pc :: "('p, 'w) platform_calls" and server :: "'p \<Rightarrow> SOCKET" and ok :: "'p \<Rightarrow> bool"
    and clients :: "'p \<Rightarrow> 'w \<Rightarrow> SOCKET set" and contract :: bool +
  assumes fd_table: "contract \<Longrightarrow> fd_table_contract (pc_os pc)"
    and ssl_fd: "contract \<Longrightarrow> ssl_fd_contract (pc_os pc) (pc_ssl pc)"
    and net: "contract \<Longrightarrow> net_contract (pc_os pc) (pc_net pc)"
    and wait_open: "contract \<Longrightarrow> pl_wait (pc_poller pc) p w = (r, p', w') \<Longrightarrow>
      os_open (pc_os pc) w' = os_open (pc_os pc) w"
    and add_open: "contract \<Longrightarrow> pl_add_client (pc_poller pc) fd p w = (q, p', w') \<Longrightarrow>
      os_open (pc_os pc) w' = os_open (pc_os pc) w"
    and calls_clients: "contract \<Longrightarrow> calls_keep (pc_os pc) (pc_ssl pc) (clients p)"
    and accept_clients: "contract \<Longrightarrow> keeps (clients p) (net_accept (pc_net pc) fd)"
    and nameinfo_clients: "contract \<Longrightarrow> keeps (clients p) (net_getnameinfo (pc_net pc) fd)"
    and close_clients: "contract \<Longrightarrow> clients p (close_socket (pc_os pc) fd w) = clients p w - {fd}"
begin

abbreviation inv :: "SOCKET set \<Rightarrow> 'p server \<Rightarrow> 'w \<Rightarrow> bool" where
  "inv \<equiv> server_inv pc server ok clients"

lemma accept_law:
  assumes c: contract and run: "TCPServer_accept (pc_os pc) (pc_net pc) sfd w = (Inr fd, w')"
  shows "fd \<notin> os_open (pc_os pc) w \<and> os_open (pc_os pc) w' = insert fd (os_open (pc_os pc) w) \<and>
    clients p w' = clients p w"
proof -
  let ?obs = "\<lambda>w. (os_open (pc_os pc) w, clients p w)"
  have k: "calls_keep (pc_os pc) (pc_ssl pc) ?obs" "keeps ?obs (net_getnameinfo (pc_net pc) x)" for x
    using calls_clients [OF c, of p] calls_keep_open [OF fd_table [OF c] ssl_fd [OF c]]
      net_contractD(9) [OF net [OF c]] nameinfo_clients [OF c] by (simp_all add: calls_keep_def keeps_def)
  obtain w1 where acc: "net_accept (pc_net pc) sfd w = (fd, w1)" "fd \<noteq> INVALID_SOCKET" and "?obs w' = ?obs w1"
    by (rule accept_keeps [OF run, of ?obs]) (use k in \<open>auto simp: calls_keep_def\<close>)
  then show ?thesis
    using opensD(2) [OF net_contractD(2) [OF net [OF c]] acc] keepsD [OF accept_clients [OF c] acc(1)] by simp
qed

lemma create_connection_law:
  assumes c: contract and run: "create_connection (pc_os pc) (pc_ssl pc) k fd w = (Inr cn, w')"
  shows "connection_fd cn = fd \<and> os_open (pc_os pc) w' = os_open (pc_os pc) w \<and> clients p w' = clients p w"
proof (cases k)
  case TCPServer
  with run show ?thesis by auto
next
  case (SSLServer ctx)
  with run have new: "SSLConnection_new (pc_os pc) (pc_ssl pc) fd ctx w = (Inr cn, w')" by simp
  note k = calls_keepD [OF calls_clients [OF c]]
  have "clients p w' = clients p w" using new
    by (auto simp: SSLConnection_new_def io_bind_call split: prod.splits if_splits option.splits
        dest!: keepsD [OF k(6)] keepsD [OF k(7)] keepsD [OF k(8)] keepsD [OF k(9)])
  with SSLConnection_new_open [OF fd_table [OF c] ssl_fd [OF c] new] show ?thesis by simp
qed

lemma destroy_clients:
  assumes contract
  shows "clients p (connection_destroy (pc_os pc) (pc_ssl pc) cn w) = clients p w - {connection_fd cn}"
  using calls_keepD(13) [OF calls_clients [OF assms]] calls_keepD(12) [OF calls_clients [OF assms]]
  by (cases cn) (simp_all add: close_clients [OF assms] keeps_def)

lemma drop_law:
  assumes contract
  shows "clients p (drop_session (pc_vt pc) x w) = clients p w - session_fd ` set_option x"
    and "os_open (pc_os pc) (drop_session (pc_vt pc) x w) = os_open (pc_os pc) w - session_fd ` set_option x"
  by (cases x; simp add: drop_session_def session_destroy_def session_fd_def destroy_clients [OF assms])
    (rule drop_session_open [OF fd_table [OF assms] ssl_fd [OF assms]])

end

lemma manager_lookup_key:
  assumes "manager_inv vt sess ts" and "manager_lookup sess ts fd = Some s"
  shows "vt_fd vt s = fd"
proof -
  from assms obtain i where i: "i < length ts" "thread_index fd (length ts) = Inr i" "sess (ts ! i) fd = Some s"
    using thread_index_bound [of "length ts" fd]
    by (auto simp: manager_inv_def manager_ok_def manager_lookup_def)
  with assms(1) show ?thesis using nth_mem [OF i(1)] unfolding manager_inv_def keys_ok_def by blast
qed

lemma server_invD:
  assumes "server_inv pc server ok clients D s w"
  shows "protocol_ok (srv_protocol s)" "ok (srv_poller s)" "server (srv_poller s) = srv_fd s"
    "manager_inv (pc_vt pc) thread_sessions (srv_threads s)"
    "dom (manager_lookup thread_sessions (srv_threads s)) = clients (srv_poller s) w \<union> D"
    "clients (srv_poller s) w \<inter> D = {}" "clients (srv_poller s) w \<union> D \<subseteq> os_open (pc_os pc) w"
    "srv_fd s \<in> os_open (pc_os pc) w" "srv_fd s \<notin> clients (srv_poller s) w \<union> D"
    "x \<notin> os_open (pc_os pc) w \<Longrightarrow> manager_lookup thread_sessions (srv_threads s) x = None"
proof -
  show "manager_lookup thread_sessions (srv_threads s) x = None" if "x \<notin> os_open (pc_os pc) w"
    using that assms unfolding server_inv_def by (metis domIff subsetD)
qed (use assms in \<open>simp_all add: server_inv_def\<close>)

context server_env
begin

lemma new_client_law:
  assumes c: contract and I: "inv D s w" and run: "Server_new_client pc s w = (Inr (), s', w')"
  shows "\<exists>fd cn ts p. s' = s\<lparr>srv_threads := ts, srv_poller := p\<rparr> \<and> fd \<notin> os_open (pc_os pc) w \<and>
    connection_fd cn = fd \<and>
    manager_lookup thread_sessions ts = (manager_lookup thread_sessions (srv_threads s))(fd \<mapsto> srv_protocol s cn) \<and>
    manager_inv (pc_vt pc) thread_sessions ts \<and> ok p \<and> server p = server (srv_poller s) \<and>
    clients p w' = insert fd (clients (srv_poller s) w) \<and>
    os_open (pc_os pc) w' = insert fd (os_open (pc_os pc) w)"
proof -
  obtain fd w1 where acc: "TCPServer_accept (pc_os pc) (pc_net pc) (srv_fd s) w = (Inr fd, w1)"
    using run by (auto simp: Server_new_client_def split: prod.splits sum.splits)
  obtain cn w2 where cc: "create_connection (pc_os pc) (pc_ssl pc) (srv_class s) fd w1 = (Inr cn, w2)"
    using run by (auto simp: Server_new_client_def acc split: prod.splits sum.splits)
  obtain ts w3 where add: "ThreadManager_add_session (pc_vt pc) (srv_protocol s cn) (srv_threads s) w2 = (Inr (), ts, w3)"
    using run by (auto simp: Server_new_client_def acc cc split: prod.splits sum.splits)
  obtain p where pl: "pl_add_client (pc_poller pc) fd (srv_poller s) w3 = (Inr (), p, w')"
    and s': "s' = s\<lparr>srv_threads := ts, srv_poller := p\<rparr>"
    using run by (auto simp: Server_new_client_def acc cc add split: prod.splits)
  note A = accept_law [OF c acc] and C = create_connection_law [OF c cc]
  note inv = server_invD [OF I]
  have sfd: "session_fd (srv_protocol s cn) = fd"
    using inv(1) C by (simp add: protocol_ok_def session_fd_def)
  note none = inv(10) [OF conjunct1 [OF A]]
  have "manager_ok (srv_threads s)" using inv(4) by (simp add: manager_inv_def)
  note M = sess.dyn.manager_add [OF this add [unfolded ThreadManager_add_session_def]]
  have lk: "manager_lookup thread_sessions ts = (manager_lookup thread_sessions (srv_threads s))(fd \<mapsto> srv_protocol s cn)"
    using M(3) by (simp add: sfd)
  have w3: "w3 = w2" using M(4) by (simp add: sfd none drop_session_def)
  have ne: "fd \<noteq> srv_fd s" using A inv(8) by auto
  have cl: "clients p w' = insert fd (clients (srv_poller s) w)"
    using add_clients [OF c inv(2) pl] ne A C by (simp add: inv(3) w3)
  have op: "os_open (pc_os pc) w' = insert fd (os_open (pc_os pc) w)"
    using add_open [OF c pl] A C by (simp add: w3)
  show ?thesis
    using s' A C lk M(5) [OF inv(4)] add_ok [OF inv(2) pl] add_server [OF pl] cl op by blast
qed

lemma new_client_inv:
  assumes c: contract and I: "inv D s w" and run: "Server_new_client pc s w = (Inr (), s', w')"
  shows "inv D s' w' \<and> srv_running s' = srv_running s"
proof -
  note inv = server_invD [OF I]
  from new_client_law [OF c I run] obtain fd cn ts p where s': "s' = s\<lparr>srv_threads := ts, srv_poller := p\<rparr>"
    and f: "fd \<notin> os_open (pc_os pc) w"
    and lk: "manager_lookup thread_sessions ts = (manager_lookup thread_sessions (srv_threads s))(fd \<mapsto> srv_protocol s cn)"
    and mi: "manager_inv (pc_vt pc) thread_sessions ts" "ok p" "server p = server (srv_poller s)"
    and cl: "clients p w' = insert fd (clients (srv_poller s) w)"
    and op: "os_open (pc_os pc) w' = insert fd (os_open (pc_os pc) w)" by blast
  have ne: "fd \<noteq> srv_fd s" "fd \<notin> D" using f inv(7,8) by auto
  have "dom (manager_lookup thread_sessions ts) = clients p w' \<union> D" by (simp add: lk cl inv(5))
  then show ?thesis using inv(1-9) mi ne
    unfolding server_inv_def s' by (simp add: cl op insert_absorb subset_insertI2)
qed

end

lemma manager_data_keeps:
  assumes "calls_keep os sl obs"
    and "ThreadManager_data_available (Session_vtable os sl) fd ts w = (r, ts', w')"
  shows "obs w' = obs w"
proof -
  have "obs w2 = obs w1" if "thread_data_available (Session_vtable os sl) fd t w1 = (q, t', w2)" for t t' q w1 w2
    using that session_iteration_keeps [OF assms(1)]
    by (cases t) (auto simp: ThreadSingle_data_available_def sessions_iterate_def split: option.splits prod.splits)
  with assms(2) show ?thesis
    by (auto simp: ThreadManager_data_available_def at_thread_def split: sum.splits if_splits prod.splits)
qed

context server_env
begin

lemma data_ready_inv:
  assumes c: contract and I: "inv D s w"
    and run: "ThreadManager_data_available (pc_vt pc) fd (srv_threads s) w = (r, ts, w')"
  shows "inv D (s\<lparr>srv_threads := ts\<rparr>) w'"
proof -
  note inv = server_invD [OF I]
  have "manager_ok (srv_threads s)" using inv(4) by (simp add: manager_inv_def)
  note M = sess.dyn.manager_data [OF this run [unfolded ThreadManager_data_available_def]]
  have "clients (srv_poller s) w' = clients (srv_poller s) w"
    using manager_data_keeps [OF calls_clients [OF c] run] .
  moreover have "os_open (pc_os pc) w' = os_open (pc_os pc) w"
    using manager_data_keeps [OF calls_keep_open [OF fd_table [OF c] ssl_fd [OF c]] run] .
  ultimately show ?thesis using inv M(2) M(4) [OF inv(4)] by (simp add: server_inv_def)
qed

lemma disconnected_inv:
  assumes c: contract and I: "inv D s w" and fd: "fd \<in> D"
    and run: "ThreadManager_remove_session (pc_vt pc) fd (srv_threads s) w = (r, ts, w')"
  shows "inv (D - {fd}) (s\<lparr>srv_threads := ts\<rparr>) w' \<and> os_open (pc_os pc) w' = os_open (pc_os pc) w - {fd}"
proof -
  note inv = server_invD [OF I]
  have "manager_ok (srv_threads s)" using inv(4) by (simp add: manager_inv_def)
  note M = sess.dyn.manager_remove [OF this run [unfolded ThreadManager_remove_session_def]]
  from fd inv(5) have "fd \<in> dom (manager_lookup thread_sessions (srv_threads s))" by simp
  then obtain x where x: "manager_lookup thread_sessions (srv_threads s) fd = Some x" by blast
  have "session_fd x = fd" using manager_lookup_key [OF inv(4) x] by simp
  then have cl: "clients (srv_poller s) w' = clients (srv_poller s) w - {fd}"
    and op: "os_open (pc_os pc) w' = os_open (pc_os pc) w - {fd}"
    using drop_law [OF c, where x = "Some x"] M(4) by (simp_all add: x)
  have "clients (srv_poller s) w' = clients (srv_poller s) w" using cl fd inv(6) by auto
  moreover have "dom (manager_lookup thread_sessions ts) = clients (srv_poller s) w \<union> (D - {fd})"
    using inv(5,6) fd by (auto simp: M(3))
  moreover have "srv_fd s \<noteq> fd" "fd \<notin> clients (srv_poller s) w" using inv(6,9) fd by auto
  ultimately show ?thesis using inv(1-9) M(5) [OF inv(4)] by (auto simp: server_inv_def op)
qed

lemma event_inv:
  assumes c: contract and I: "inv D s w" and run: "Server_event pc e s w = (Inr (), s', w')"
    and d: "ev_type e = ClientDisconnected \<Longrightarrow> ev_fd e \<in> D"
  shows "inv (D - (if ev_type e = ClientDisconnected then {ev_fd e} else {})) s' w' \<and>
    srv_running s' = srv_running s"
proof (cases "ev_type e")
  case NewClient
  with run new_client_inv [OF c I] show ?thesis by (simp add: Server_event_def)
next
  case ClientDataReady
  with run data_ready_inv [OF c I] show ?thesis by (auto simp: Server_event_def split: prod.splits)
next
  case ClientDisconnected
  obtain r ts w1 where rm: "ThreadManager_remove_session (pc_vt pc) (ev_fd e) (srv_threads s) w = (r, ts, w1)"
    by (metis prod.exhaust)
  with run ClientDisconnected have "s' = s\<lparr>srv_threads := ts\<rparr>" "w' = w1" by (simp_all add: Server_event_def)
  with disconnected_inv [OF c I d [OF ClientDisconnected] rm] ClientDisconnected show ?thesis by simp
qed

lemma events_inv:
  assumes c: contract
  shows "inv (disconnected evs) s w \<Longrightarrow> distinct (map ev_fd evs) \<Longrightarrow>
    Server_events pc evs s w = (Inr (), s', w') \<Longrightarrow> inv {} s' w' \<and> srv_running s' = srv_running s"
proof (induction evs arbitrary: s w)
  case Nil
  then show ?case by simp
next
  case (Cons e es)
  obtain r s1 w1 where ev: "Server_event pc e s w = (r, s1, w1)" by (metis prod.exhaust)
  with Cons.prems(3) have r: "r = Inr ()" and rest: "Server_events pc es s1 w1 = (Inr (), s', w')"
    by (auto split: sum.splits)
  have "disconnected (e # es) - (if ev_type e = ClientDisconnected then {ev_fd e} else {}) = disconnected es"
    using Cons.prems(2) by (auto simp: disconnected_def image_iff)
  with event_inv [OF c Cons.prems(1) ev [unfolded r]]
  have "inv (disconnected es) s1 w1" "srv_running s1 = srv_running s" by simp_all
  with Cons.IH [of s1 w1] Cons.prems(2) rest show ?case by simp
qed

lemma wait_inv:
  assumes c: contract and I: "inv {} s w"
    and wt: "pl_wait (pc_poller pc) (srv_poller s) w = (Inr evs, p, w')"
  shows "inv (disconnected evs) (s\<lparr>srv_poller := p\<rparr>) w' \<and> distinct (map ev_fd evs)"
proof -
  note inv = server_invD [OF I]
  have sub: "disconnected evs \<subseteq> clients (srv_poller s) w"
    using wait_events [OF c wt] by (fastforce simp: disconnected_def)
  have cl: "clients p w' = clients (srv_poller s) w - disconnected evs" by (rule wait_deregisters [OF c wt])
  then have un: "clients p w' \<union> disconnected evs = clients (srv_poller s) w" using sub by auto
  have dj: "clients p w' \<inter> disconnected evs = {}" by (auto simp: cl)
  have "inv (disconnected evs) (s\<lparr>srv_poller := p\<rparr>) w'"
    unfolding server_inv_def
    using inv(1-9) wait_ok [OF c inv(2) wt] wait_server [OF c wt] wait_open [OF c wt]
    by (simp add: un dj)
  with wait_distinct [OF c wt] show ?thesis by simp
qed

lemma iterate_inv:
  assumes c: contract and I: "inv {} s w" and run: "Server_iterate pc s w = (Inr (), s', w')"
  shows "inv {} s' w' \<and> srv_running s' = srv_running s"
proof -
  obtain evs p w1 where wt: "pl_wait (pc_poller pc) (srv_poller s) w = (Inr evs, p, w1)"
    and ev: "Server_events pc evs (s\<lparr>srv_poller := p\<rparr>) w1 = (Inr (), s', w')"
    using run by (auto simp: Server_iterate_def split: prod.splits sum.splits)
  from wait_inv [OF c I wt] events_inv [OF c _ _ ev] show ?thesis by simp
qed

end

lemma manager_same_dom:
  assumes "manager_inv vt sess ts" and "i < length ts" and "dom (sess t') = dom (sess (ts ! i))"
    and "keys_ok vt (sess t')"
  shows "manager_inv vt sess (ts[i := t'])"
    and "dom (manager_lookup sess (ts[i := t'])) = dom (manager_lookup sess ts)"
proof -
  have d: "dom (sess (ts[i := t'] ! j)) = dom (sess (ts ! j))" for j
    using assms(2,3) by (cases "j = i") simp_all
  show "dom (manager_lookup sess (ts[i := t'])) = dom (manager_lookup sess ts)"
  proof (rule set_eqI)
    fix x
    show "x \<in> dom (manager_lookup sess (ts[i := t'])) \<longleftrightarrow> x \<in> dom (manager_lookup sess ts)"
    proof (cases "thread_index x (length ts)")
      case (Inr j)
      with d [of j] show ?thesis by (auto simp: manager_lookup_def dom_def set_eq_iff)
    qed (simp add: manager_lookup_def dom_def)
  qed
  have "routed sess (ts[i := t'])" using assms(1) d by (simp add: routed_def manager_inv_def)
  moreover have "keys_ok vt (sess t)" if "t \<in> set (ts[i := t'])" for t
    using that assms(1,4) set_update_subset_insert [of ts i t'] by (auto simp: manager_inv_def)
  ultimately show "manager_inv vt sess (ts[i := t'])" using assms(1) by (simp add: manager_inv_def)
qed

lemma wake_keeps:
  assumes "calls_keep os sl obs" and "ThreadMulti_wake (Session_vtable os sl) t w = (r, t', w')"
  shows "obs w' = obs w"
  using assms(2) session_iteration_keeps [OF assms(1)]
  by (auto simp: ThreadMulti_wake_def sessions_iterate_def split: list.splits option.splits prod.splits)

context server_env
begin

lemma thread_keys:
  assumes "inv D s w" and "i < length (srv_threads s)" and "srv_threads s ! i = t"
  shows "keys_ok (pc_vt pc) (thread_sessions t)"
  using server_invD(4) [OF assms(1)] nth_mem [OF assms(2)] assms(3) by (auto simp: manager_inv_def)

lemma step_inv:
  assumes c: contract and step: "srv_step pc x y"
    and I: "case x of (s, es, w) \<Rightarrow> inv (disconnected es) s w \<and> distinct (map ev_fd es)"
  shows "case y of (s, es, w) \<Rightarrow> inv (disconnected es) s w \<and> distinct (map ev_fd es)"
  using step
proof (cases rule: srv_step.cases)
  case (poll s w evs p w')
  then show ?thesis using wait_inv [OF c _ poll(4)] I by simp
next
  case (handle e s w s' w' es)
  with I have "inv (disconnected (e # es)) s w" and d: "distinct (map ev_fd (e # es))" by simp_all
  note ev = event_inv [OF c this(1) handle(3)]
  have "disconnected (e # es) - (if ev_type e = ClientDisconnected then {ev_fd e} else {}) = disconnected es"
    using d by (auto simp: disconnected_def image_iff)
  with ev d show ?thesis by (simp add: handle(2))
next
  case (worker_test i s t es w)
  with I have J: "inv (disconnected es) s w" and d: "distinct (map ev_fd es)" by simp_all
  note M = manager_same_dom [OF server_invD(4) [OF J] worker_test(3), of "Multi (ThreadMulti_test t)"]
  from M thread_keys [OF J worker_test(3,4)] server_invD(1-9) [OF J] d worker_test(2,4)
  show ?thesis by (simp add: server_inv_def)
next
  case (worker_wake i s t w t' w' es)
  with I have J: "inv (disconnected es) s w" and d: "distinct (map ev_fd es)" by simp_all
  note fr = ThreadMulti_wake_frame [OF fd_table [OF c] ssl_fd [OF c] worker_wake(6)]
  note M = manager_same_dom [OF server_invD(4) [OF J] worker_wake(3), of "Multi t'"]
  from M fr thread_keys [OF J worker_wake(3,4)] wake_keeps [OF calls_clients [OF c] worker_wake(6)]
    server_invD(1-9) [OF J] d worker_wake(2,4)
  show ?thesis by (simp add: server_inv_def)
next
  case (stop s es w)
  with I show ?thesis by (simp add: server_inv_def Server_stop_def)
qed

lemma reach_inv:
  assumes c: contract and I: "inv {} s w" and reach: "srv_reach pc (s, w) y"
  shows "case y of (s, es, w) \<Rightarrow> inv (disconnected es) s w \<and> distinct (map ev_fd es)"
  using reach
proof induction
  case reach_init
  with I show ?case by simp
next
  case (reach_step x y)
  from step_inv [OF c reach_step.hyps(2) reach_step.IH] show ?case .
qed

end

subsection \<open>What a poller leaves alone\<close>

text \<open>A part of the world that the kernel interface does not touch is not touched by the poller.\<close>

definition poller_keeps :: "('p, 'w) poller_vtable \<Rightarrow> ('w \<Rightarrow> 'o) \<Rightarrow> bool" where
  "poller_keeps pvt obs \<longleftrightarrow>
     (\<forall>p w r p' w'. pl_wait pvt p w = (r, p', w') \<longrightarrow> obs w' = obs w) \<and>
     (\<forall>fd p w r p' w'. pl_add_client pvt fd p w = (r, p', w') \<longrightarrow> obs w' = obs w)"

definition epoll_keeps :: "('w, 'e) epoll_scheme \<Rightarrow> ('w \<Rightarrow> 'o) \<Rightarrow> bool" where
  [contract_defs]: "epoll_keeps ep obs \<longleftrightarrow>
     (\<forall>epfd fd fl d. keeps obs (ep_ctl_add ep epfd fd fl d)) \<and>
     (\<forall>epfd fd. keeps obs (ep_ctl_del ep epfd fd)) \<and> (\<forall>epfd n t. keeps obs (ep_wait ep epfd n t))"

definition kqueue_keeps :: "('w, 'k) kqueue_scheme \<Rightarrow> ('w \<Rightarrow> 'o) \<Rightarrow> bool" where
  [contract_defs]: "kqueue_keeps kq obs \<longleftrightarrow>
     (\<forall>kfd i fl. keeps obs (kq_change kq kfd i fl)) \<and> (\<forall>kfd n t. keeps obs (kq_wait kq kfd n t))"

definition wsapoll_keeps :: "('w, 'y) wsapoll_scheme \<Rightarrow> ('w \<Rightarrow> 'o) \<Rightarrow> bool" where
  [contract_defs]: "wsapoll_keeps wsa obs \<longleftrightarrow> (\<forall>fds t. keeps obs (wsa_poll wsa fds t))"

lemma event_loop_keeps:
  assumes "\<And>e w r w'. step e w = (r, w') \<Longrightarrow> obs w' = obs w"
  shows "event_loop step es w = (r, w') \<Longrightarrow> obs w' = obs w"
proof (induction es arbitrary: r w w')
  case (Cons e es)
  then show ?case using assms by (fastforce simp: io_bind_def split: prod.splits sum.splits)
qed simp

lemma linux_poller_keeps:
  assumes "epoll_keeps ep obs" shows "poller_keeps (LinuxPoller os ep) obs"
proof -
  have k: "keeps obs (ep_ctl_add ep epfd fd fl d)" "keeps obs (ep_ctl_del ep epfd fd)"
    "keeps obs (ep_wait ep epfd n t)" for epfd fd fl d n t
    using assms unfolding epoll_keeps_def by blast+
  have ev: "obs w' = obs w" if "linux_event os ep p e w = (r, w')" for p e r w w'
    using that by (auto simp: linux_event_def io_bind_call split: prod.splits if_splits dest!: keepsD [OF k(2)])
  have "obs w' = obs w" if run: "LinuxPoller_wait os ep t p w = (r, w')" for t p r w w'
  proof -
    obtain n evs w1 where wt: "ep_wait ep (epoll_fd p) EVENT_BUFFER_SZ (int_of_count t) w = ((n, evs), w1)"
      by (metis prod.exhaust)
    with run have "w' = w1 \<or> event_loop (linux_event os ep p) (take (nat n) evs) w1 = (r, w')"
      by (simp add: LinuxPoller_wait_def io_bind_call split: if_splits)
    then have "obs w' = obs w1" using event_loop_keeps [where step = "linux_event os ep p" and obs = obs] ev by blast
    with keepsD [OF k(3) wt] show ?thesis by simp
  qed
  moreover have "obs w' = obs w" if "LinuxPoller_add_client os ep fd p w = (r, w')" for fd p r w w'
    using that keepsD [OF k(1)] by (auto simp: LinuxPoller_add_client_def io_bind_call split: prod.splits if_splits)
  ultimately show ?thesis by (auto simp: poller_keeps_def LinuxPoller_def)
qed

lemma bsd_poller_keeps:
  assumes "kqueue_keeps kq obs" shows "poller_keeps (BsdPoller os kq) obs"
proof -
  have k: "keeps obs (kq_change kq kfd i fl)" "keeps obs (kq_wait kq kfd n ts)" for kfd i fl n ts
    using assms unfolding kqueue_keeps_def by blast+
  have ev: "obs w' = obs w" if "bsd_event os kq p e w = (r, w')" for p e r w w'
    using that by (auto simp: bsd_event_def io_bind_call Let_def split: prod.splits if_splits dest!: keepsD [OF k(1)])
  have "obs w' = obs w" if run: "BsdPoller_wait os kq t p w = (r, w')" for t p r w w'
  proof -
    obtain n evs w1 where wt: "kq_wait kq (kqueue_fd p) EVENT_BUFFER_SZ (0, t * 1000000) w = ((n, evs), w1)"
      by (metis prod.exhaust)
    with run have "w' = w1 \<or> event_loop (bsd_event os kq p) (take (nat n) evs) w1 = (r, w')"
      by (simp add: BsdPoller_wait_def io_bind_call split: if_splits)
    then have "obs w' = obs w1" using event_loop_keeps [where step = "bsd_event os kq p" and obs = obs] ev by blast
    with keepsD [OF k(2) wt] show ?thesis by simp
  qed
  moreover have "obs w' = obs w" if "BsdPoller_add_client os kq fd p w = (r, w')" for fd p r w w'
    using that keepsD [OF k(1)] by (auto simp: BsdPoller_add_client_def io_bind_call split: prod.splits if_splits)
  ultimately show ?thesis by (auto simp: poller_keeps_def BsdPoller_def)
qed

lemma win32_poller_keeps:
  assumes "wsapoll_keeps wsa obs" shows "poller_keeps (Win32Poller wsa) obs"
  using assms
  by (auto simp: poller_keeps_def wsapoll_keeps_def Win32Poller_def Win32Poller_wait_def Let_def
      dest: keepsD split: if_splits prod.splits)

subsection \<open>Servers on epoll and on kqueue\<close>

definition linux_calls ::
  "'w os \<Rightarrow> 'w openssl \<Rightarrow> 'w net \<Rightarrow> ('w, 'e) epoll_scheme \<Rightarrow> (linux_poller, 'w) platform_calls" where
  "linux_calls os sl nt ep =
     \<lparr> pc_os = os, pc_ssl = sl, pc_net = nt, pc_poller = LinuxPoller os ep \<rparr>"

definition bsd_calls ::
  "'w os \<Rightarrow> 'w openssl \<Rightarrow> 'w net \<Rightarrow> ('w, 'k) kqueue_scheme \<Rightarrow> (bsd_poller, 'w) platform_calls" where
  "bsd_calls os sl nt kq =
     \<lparr> pc_os = os, pc_ssl = sl, pc_net = nt, pc_poller = BsdPoller os kq \<rparr>"

definition win32_calls ::
  "'w os \<Rightarrow> 'w openssl \<Rightarrow> 'w net \<Rightarrow> ('w, 'y) wsapoll_scheme \<Rightarrow> (win32_poller, 'w) platform_calls" where
  "win32_calls os sl nt wsa = \<lparr> pc_os = os, pc_ssl = sl, pc_net = nt, pc_poller = Win32Poller wsa \<rparr>"

text \<open>
  The hypotheses on the system calls together; the last three: sockets and registrations do not
  disturb each other, and closing a descriptor deregisters it everywhere.
\<close>

definition socket_env :: "'w os \<Rightarrow> 'w openssl \<Rightarrow> 'w net \<Rightarrow> ('w \<Rightarrow> SOCKET \<Rightarrow> SOCKET set) \<Rightarrow> bool" where
  [contract_defs]: "socket_env os sl nt reg \<longleftrightarrow>
     fd_table_contract os \<and> ssl_fd_contract os sl \<and> net_contract os nt \<and>
     calls_keep os sl reg \<and> (\<forall>fd. keeps reg (net_accept nt fd)) \<and> (\<forall>fd. keeps reg (net_getnameinfo nt fd)) \<and>
     (\<forall>fd w. reg (close_socket os fd w) = (\<lambda>q. reg w q - {fd}))"

definition epoll_env :: "'w os \<Rightarrow> 'w openssl \<Rightarrow> 'w net \<Rightarrow> ('w, 'e) epoll_scheme \<Rightarrow> bool" where
  [contract_defs]: "epoll_env os sl nt ep \<longleftrightarrow>
     epoll_contract ep \<and> socket_env os sl nt (ep_interest ep) \<and> epoll_keeps ep (os_open os)"

definition kqueue_env :: "'w os \<Rightarrow> 'w openssl \<Rightarrow> 'w net \<Rightarrow> ('w, 'k) kqueue_scheme \<Rightarrow> bool" where
  [contract_defs]: "kqueue_env os sl nt kq \<longleftrightarrow>
     kqueue_contract kq \<and> socket_env os sl nt (kq_filters kq) \<and> kqueue_keeps kq (os_open os)"

lemma calls_keep_comp: "calls_keep os sl obs \<Longrightarrow> calls_keep os sl (\<lambda>w. f (obs w))"
  unfolding calls_keep_def keeps_def by metis

lemma socket_envD:
  assumes "socket_env os sl nt reg"
  shows "fd_table_contract os" "ssl_fd_contract os sl" "net_contract os nt"
    "calls_keep os sl (\<lambda>w. reg w q - A)" "keeps (\<lambda>w. reg w q - A) (net_accept nt fd)"
    "keeps (\<lambda>w. reg w q - A) (net_getnameinfo nt fd)" "reg (close_socket os fd w) q - A = reg w q - A - {fd}"
  using assms calls_keep_comp [where f = "\<lambda>r. r q - A"] unfolding socket_env_def keeps_def by auto

text \<open>A stronger contract keeps the interface of the poller.\<close>

lemma exact_poller_mono:
  assumes "exact_poller pvt server ok clients C" and "C' \<Longrightarrow> C"
  shows "exact_poller pvt server ok clients C'"
proof (cases C')
  case True
  with assms have "C = C'" by simp
  with assms(1) show ?thesis by simp
next
  case False
  with assms(1) show ?thesis by (simp add: exact_poller_def poller_class_def exact_poller_axioms_def)
qed

lemma server_envI:
  assumes "exact_poller pvt server ok (\<lambda>p w. reg w (q p) - {server p}) C" and "C' \<Longrightarrow> C"
    and "C' \<Longrightarrow> socket_env os sl nt reg"
    and "\<And>p w r p' w'. C' \<Longrightarrow> pl_wait pvt p w = (r, p', w') \<Longrightarrow> os_open os w' = os_open os w"
    and "\<And>fd p w r p' w'. C' \<Longrightarrow> pl_add_client pvt fd p w = (r, p', w') \<Longrightarrow> os_open os w' = os_open os w"
  shows "server_env \<lparr> pc_os = os, pc_ssl = sl, pc_net = nt, pc_poller = pvt \<rparr> server ok
    (\<lambda>p w. reg w (q p) - {server p}) C'"
proof (intro server_env.intro server_env_axioms.intro)
  show "exact_poller (pc_poller \<lparr> pc_os = os, pc_ssl = sl, pc_net = nt, pc_poller = pvt \<rparr>) server ok
      (\<lambda>p w. reg w (q p) - {server p}) C'"
    using exact_poller_mono [OF assms(1,2)] by simp
qed (use assms(4,5) socket_envD [OF assms(3)] in simp_all)

interpretation lin_srv: server_env "linux_calls os sl nt ep" lp_server_fd "\<lambda>p. True"
  "\<lambda>p w. ep_interest ep w (epoll_fd p) - {lp_server_fd p}" "epoll_env os sl nt ep"
  for os :: "'w os" and sl :: "'w openssl" and nt :: "'w net" and ep :: "('w, 'e) epoll_scheme"
  unfolding linux_calls_def
proof (rule server_envI [OF lin.exact_poller_axioms])
  assume env: "epoll_env os sl nt ep"
  then show "epoll_contract ep" "socket_env os sl nt (ep_interest ep)" by (simp_all add: epoll_env_def)
  have "poller_keeps (LinuxPoller os ep) (os_open os)" using env by (simp add: epoll_env_def linux_poller_keeps)
  then show "os_open os w' = os_open os w" if "pl_wait (LinuxPoller os ep) p w = (r, p', w')" for p p' r w w'
    using that by (simp add: poller_keeps_def)
  show "os_open os w' = os_open os w" if "pl_add_client (LinuxPoller os ep) fd p w = (r, p', w')" for fd p p' r w w'
    using that \<open>poller_keeps (LinuxPoller os ep) (os_open os)\<close> by (simp add: poller_keeps_def)
qed

interpretation bsd_srv: server_env "bsd_calls os sl nt kq" bp_server_fd "\<lambda>p. True"
  "\<lambda>p w. kq_filters kq w (kqueue_fd p) - {bp_server_fd p}" "kqueue_env os sl nt kq"
  for os :: "'w os" and sl :: "'w openssl" and nt :: "'w net" and kq :: "('w, 'k) kqueue_scheme"
  unfolding bsd_calls_def
proof (rule server_envI [OF bsd.exact_poller_axioms])
  assume env: "kqueue_env os sl nt kq"
  then show "kqueue_contract kq" "socket_env os sl nt (kq_filters kq)" by (simp_all add: kqueue_env_def)
  have "poller_keeps (BsdPoller os kq) (os_open os)" using env by (simp add: kqueue_env_def bsd_poller_keeps)
  then show "os_open os w' = os_open os w" if "pl_wait (BsdPoller os kq) p w = (r, p', w')" for p p' r w w'
    using that by (simp add: poller_keeps_def)
  show "os_open os w' = os_open os w" if "pl_add_client (BsdPoller os kq) fd p w = (r, p', w')" for fd p p' r w w'
    using that \<open>poller_keeps (BsdPoller os kq) (os_open os)\<close> by (simp add: poller_keeps_def)
qed

subsection \<open>A concrete server\<close>

text \<open>The concrete calls with a \<^verbatim>\<open>close\<close> that deregisters; a server on descriptor 3 with epoll descriptor 5.\<close>

definition sim_srv_os :: "sim_net os" where
  "sim_srv_os = sim_os\<lparr>os_close := (\<lambda>fd w. (0, w\<lparr>sim_open := sim_open w - {fd},
     sim_interest := (\<lambda>q. sim_interest w q - {fd})\<rparr>))\<rparr>"

definition sim_calls :: "(linux_poller, sim_net) platform_calls" where
  "sim_calls = linux_calls sim_srv_os sim_ssl sim_nt sim_epoll"

definition sim_server :: "linux_poller server" where
  "sim_server = \<lparr> srv_class = TCPServer, srv_fd = 3, srv_poller = sim_linux,
     srv_protocol = TestProtocol_create_session, srv_threads = ThreadManager_new Threads_Single,
     srv_running = True \<rparr>"

definition sim_srv_world :: sim_net where
  "sim_srv_world = sim_net_world\<lparr>sim_open := {3, 5}, sim_interest := (\<lambda>q. if q = 5 then {3} else {})\<rparr>"

lemma sim_epoll_env: "epoll_env sim_srv_os sim_ssl sim_nt sim_epoll"
proof -
  have os: "os_open sim_srv_os = sim_open" "os_recv sim_srv_os = sim_recv" "os_send sim_srv_os = sim_send"
    "close_socket sim_srv_os fd w = w\<lparr>sim_open := sim_open w - {fd}, sim_interest := (\<lambda>q. sim_interest w q - {fd})\<rparr>"
    for fd w by (simp_all add: sim_srv_os_def sim_os_def close_socket_def)
  have op: "os_open sim_srv_os = os_open sim_os" by (simp add: sim_srv_os_def)
  have "fd_table_contract sim_srv_os"
    by (auto simp: fd_table_contract_def sim_srv_os_def sim_os_def sim_send_def sim_recv_def Let_def split: list.splits)
  moreover have "ssl_fd_contract sim_srv_os sim_ssl"
    using sim_ssl_fd_contract unfolding ssl_fd_contract_def op .
  moreover have "net_contract sim_srv_os sim_nt"
    using sim_net_contract unfolding net_contract_def opens_def op .
  moreover have "calls_keep sim_srv_os sim_ssl sim_interest"
    by (auto simp: calls_keep_def keeps_def sim_srv_os_def sim_os_def sim_ssl_def sim_recv_def sim_send_def Let_def
        split: list.splits)
  moreover have "keeps (sim_interest :: sim_net \<Rightarrow> _) (net_accept sim_nt fd)"
    "keeps (sim_interest :: sim_net \<Rightarrow> _) (net_getnameinfo sim_nt fd)" for fd
    by (auto simp: keeps_def sim_nt_def sim_new_fd_def split: list.splits)
  moreover have "ep_interest sim_epoll = (sim_interest :: sim_net \<Rightarrow> _)" by (simp add: sim_epoll_def)
  moreover have "keeps (sim_open :: sim_net \<Rightarrow> _) (ep_ctl_add sim_epoll a b c d)"
    "keeps (sim_open :: sim_net \<Rightarrow> _) (ep_ctl_del sim_epoll a b)"
    "keeps (sim_open :: sim_net \<Rightarrow> _) (ep_wait sim_epoll a n t)" for a b c d n t
    by (auto simp: keeps_def sim_epoll_def Let_def split: list.splits)
  ultimately show ?thesis by (simp add: epoll_env_def epoll_keeps_def socket_env_def sim_epoll_contract os)
qed

abbreviation sim_inv :: "linux_poller server \<Rightarrow> sim_net \<Rightarrow> bool" where
  "sim_inv \<equiv> server_inv sim_calls lp_server_fd (\<lambda>p. True)
     (\<lambda>p w. ep_interest sim_epoll w (epoll_fd p) - {lp_server_fd p}) {}"

lemma sim_server_inv: "sim_inv sim_server sim_srv_world"
proof -
  have "manager_inv vt thread_sessions (ThreadManager_new Threads_Single)" for vt :: "(session, sim_net) session_vtable"
    by (rule manager_inv_new) simp
  moreover have "manager_lookup thread_sessions (ThreadManager_new Threads_Single :: session thread list) = Map.empty"
    by (intro ext manager_lookup_new) (simp add: manager_ok_def)
  ultimately show ?thesis
    by (simp add: server_inv_def sim_server_def sim_srv_world_def sim_linux_def sim_calls_def linux_calls_def
        protocol_ok_def TestProtocol_create_session_def sim_srv_os_def sim_os_def sim_epoll_def
        del: ThreadManager_new.simps)
qed

subsection \<open>Opening the listening socket\<close>

lemma bind_loop_open:
  assumes "fd_table_contract os" and "net_contract os nt" and "bind_loop os nt ps w = (r, w')"
  shows "case r of
      Inr None \<Rightarrow> os_open os w' = os_open os w
    | Inr (Some fd) \<Rightarrow> fd \<notin> os_open os w \<and> os_open os w' = insert fd (os_open os w)
    | Inl e \<Rightarrow> os_open os w' = os_open os w \<or> (\<exists>fd. fd \<notin> os_open os w \<and> os_open os w' = insert fd (os_open os w))"
  using assms(3)
proof (induction ps arbitrary: w)
  case Nil
  then show ?case by auto
next
  case (Cons p ps)
  obtain l w1 where so: "net_socket nt (ai_family p) (ai_socktype p) (ai_protocol p) w = (l, w1)" by fastforce
  obtain r2 w2 where st: "net_setsockopt nt l w1 = (r2, w2)" by fastforce
  obtain r3 w3 where bd: "net_bind nt l (ai_addr p) w2 = (r3, w3)" by fastforce
  obtain r4 w4 where cs: "os_close os l w3 = (r4, w4)" by fastforce
  note n = net_contractD [OF assms(2)]
  have eq: "os_open os w2 = os_open os w1" "os_open os w3 = os_open os w1"
    using keepsD [OF n(5) st] keepsD [OF n(6) bd] by simp_all
  show ?case
  proof (cases "l = INVALID_SOCKET")
    case True
    with Cons.prems opensD(1) [OF n(1) so] show ?thesis by (auto simp: io_bind_call so)
  next
    case False
    from opensD(2) [OF n(1) so False] have l: "l \<notin> os_open os w" "os_open os w1 = insert l (os_open os w)" by simp_all
    have w4: "os_open os w4 = os_open os w"
      using close_socket_open [OF assms(1), of l w3] l by (simp add: close_socket_def cs eq)
    from Cons.IH [of w4, unfolded w4] Cons.prems False l eq show ?thesis
      by (auto simp: io_bind_call so st bd cs split: if_splits)
  qed
qed

lemma create_listener_open:
  assumes "fd_table_contract os" and "net_contract os nt"
    and "create_listener os nt port open_to_world w = (r, w')"
  shows "case r of
      Inr fd \<Rightarrow> fd \<notin> os_open os w \<and> os_open os w' = insert fd (os_open os w)
    | Inl e \<Rightarrow> os_open os w' = os_open os w \<or> (\<exists>fd. fd \<notin> os_open os w \<and> os_open os w' = insert fd (os_open os w))"
proof -
  obtain rv l w1 where gai: "net_getaddrinfo nt (if open_to_world then None else Some ''localhost'')
      (show_nat (unat port)) listener_hints w = ((rv, l), w1)" by (metis prod.exhaust)
  obtain b w2 where bl: "bind_loop os nt l w1 = (b, w2)" by fastforce
  note n = net_contractD [OF assms(2)]
  note B = bind_loop_open [OF assms(1,2) bl]
  have op: "os_open os w1 = os_open os w" using keepsD [OF n(3) gai] .
  show ?thesis
  proof (cases "rv = 0")
    case False
    with assms(3) op show ?thesis by (auto simp: create_listener_def io_bind_call gai)
  next
    case True
    show ?thesis
    proof (cases b)
      case (Inl e)
      with assms(3) True B op show ?thesis by (auto simp: create_listener_def io_bind_call gai bl)
    next
      case (Inr x)
      with assms(3) True B op show ?thesis
        by (cases x) (auto simp: create_listener_def io_bind_call gai bl n(4) log_open [OF assms(1)]
            split: prod.splits if_splits dest!: keepsD [OF n(7)])
    qed
  qed
qed

text \<open>
  \<^verbatim>\<open>TCPServer::create_listener\<close> returns a descriptor that was not open before and leaves exactly
  this one open in addition, whatever addresses it tried; when it raises, at most one
  descriptor stays open.
\<close>

theorem create_listener_descriptors:
  assumes "fd_table_contract os" and "net_contract os nt"
    and "create_listener os nt port open_to_world w = (r, w')"
  shows "case r of
      Inr fd \<Rightarrow> fd \<notin> os_open os w \<and> os_open os w' = insert fd (os_open os w)
    | Inl e \<Rightarrow> os_open os w' = os_open os w \<or> (\<exists>fd. fd \<notin> os_open os w \<and> os_open os w' = insert fd (os_open os w))"
  by (rule create_listener_open [OF assms])

theorem create_listener_descriptors_witness:
  "fst (create_listener sim_os sim_nt 8080 True
     (sim_net_world\<lparr>sim_addrs := [sim_addr, sim_addr], sim_rets := [-1], sim_open := {0}\<rparr>)) = Inr 1 \<and>
   sim_open (snd (create_listener sim_os sim_nt 8080 True
     (sim_net_world\<lparr>sim_addrs := [sim_addr, sim_addr], sim_rets := [-1], sim_open := {0}\<rparr>))) = {0, 1}"
proof -
  let ?run = "create_listener sim_os sim_nt 8080 True
     (sim_net_world\<lparr>sim_addrs := [sim_addr, sim_addr], sim_rets := [-1], sim_open := {0}\<rparr>)"
  have fst: "fst ?run = Inr 1"
    by (simp add: create_listener_def io_bind_call sim_net_eval sim_new_fd_def INVALID_SOCKET_def
        SOCKET_ERROR_def upt_conv_Cons)
  then obtain w' where run: "?run = (Inr 1, w')" by (metis prod.collapse)
  have "os_open sim_os w' = insert 1 (os_open sim_os (sim_net_world\<lparr>sim_addrs := [sim_addr, sim_addr], sim_rets := [-1], sim_open := {0}\<rparr>))"
    using create_listener_descriptors [OF sim_fd_table_contract sim_net_contract run] by simp
  then have "sim_open (snd ?run) = {0, 1}" unfolding run by (auto simp: sim_os_def)
  with fst show ?thesis by simp
qed

subsection \<open>Properties\<close>


definition sim_client_world :: sim_net where
  "sim_client_world = sim_srv_world\<lparr>sim_events := [[(1, 3)]]\<rparr>"

definition sim_served :: "linux_poller server" where
  "sim_served = sim_server\<lparr>srv_threads := [Single \<lparr> ts_sessions = [0 \<mapsto> sim_session 0] \<rparr>]\<rparr>"

definition sim_served_world :: sim_net where
  "sim_served_world = sim_srv_world\<lparr>sim_open := {0, 3, 5}, sim_interest := (\<lambda>q. if q = 5 then {0, 3} else {})\<rparr>"

lemma sim_quiet: "\<not> logging_verbose (sim_logger sim_srv_world)"
  by (simp add: sim_srv_world_def sim_net_eval init_logger_def)

lemma sim_new_client: "Server_new_client sim_calls sim_server sim_srv_world = (Inr (), sim_served, sim_served_world)"
proof -
  let ?w = "sim_srv_world\<lparr>sim_open := {0, 3, 5}\<rparr>"
  have "sim_new_fd sim_srv_world = (0, ?w)"
    by (simp add: sim_new_fd_def sim_srv_world_def upt_conv_Cons)
  then have acc: "TCPServer_accept sim_srv_os sim_nt 3 sim_srv_world = (Inr 0, ?w)"
    by (simp add: TCPServer_accept_def io_bind_call sim_nt_def INVALID_SOCKET_def socket_mark_as_nonblocking_def
        sim_srv_os_def sim_os_def log_quiet sim_quiet)
  have "\<exists>i < 1. thread_index 0 1 = Inr i" by (rule thread_index_bound) simp_all
  then have add: "ThreadManager_add_session (Session_vtable sim_srv_os sim_ssl) (sim_session 0)
      (ThreadManager_new Threads_Single) ?w = (Inr (), [Single \<lparr> ts_sessions = [0 \<mapsto> sim_session 0] \<rparr>], ?w)"
    by (auto simp: ThreadManager_add_session_def at_thread_def ThreadSingle_new_def ThreadSingle_add_session_def
        drop_session_def)
  have pl: "pl_add_client (LinuxPoller sim_srv_os sim_epoll) 0 sim_linux ?w = (Inr (), sim_linux, sim_served_world)"
    by (simp add: LinuxPoller_def LinuxPoller_add_client_def io_bind_call sim_epoll_def sim_linux_def
        sim_served_world_def sim_srv_world_def fun_eq_iff)
  show ?thesis
    by (simp add: Server_new_client_def sim_calls_def linux_calls_def sim_server_def acc add pl sim_served_def
        del: ThreadManager_new.simps)
qed

lemma sim_server_reach: "srv_reach sim_calls (sim_server, sim_client_world) (sim_served, [], sim_served_world)"
proof -
  have wt: "pl_wait (pc_poller sim_calls) (srv_poller sim_server) sim_client_world
      = (Inr [mk_Event NewClient 3], sim_linux, sim_srv_world)"
    by (simp add: sim_calls_def linux_calls_def LinuxPoller_def const_state_def LinuxPoller_wait_def linux_event_def
        sim_server_def sim_linux_def sim_client_world_def sim_srv_world_def sim_net_eval io_bind_call EVENT_BUFFER_SZ_def)
  have "srv_step sim_calls (sim_server, [], sim_client_world) (sim_server, [mk_Event NewClient 3], sim_srv_world)"
    using poll [where pc = sim_calls and s = sim_server, OF _ wt] by (simp add: sim_server_def)
  moreover have "srv_step sim_calls (sim_server, [mk_Event NewClient 3], sim_srv_world) (sim_served, [], sim_served_world)"
    by (rule handle) (simp add: Server_event_def sim_new_client)
  moreover have "srv_reach sim_calls (sim_server, sim_client_world) (sim_server, [], sim_client_world)"
    using reach_init [of sim_calls "(sim_server, sim_client_world)"] by simp
  ultimately show ?thesis by (blast intro: reach_step)
qed

lemma sim_client_inv: "sim_inv sim_server sim_client_world"
proof -
  have eq: "ep_interest sim_epoll sim_client_world = ep_interest sim_epoll sim_srv_world"
    "os_open (pc_os sim_calls) sim_client_world = os_open (pc_os sim_calls) sim_srv_world"
    by (simp_all add: sim_epoll_def sim_client_world_def sim_calls_def linux_calls_def sim_srv_os_def sim_os_def)
  show ?thesis using sim_server_inv unfolding server_inv_def eq .
qed


text \<open>
  A \<open>NewClient\<close> event that is handled without an exception gives the accepted descriptor
  a session of the server's protocol and registers it; every other session stays as it was.
\<close>

theorem Server_new_client_served:
  assumes "epoll_env os sl nt ep"
    and "server_inv (linux_calls os sl nt ep) lp_server_fd (\<lambda>p. True)
      (\<lambda>p w. ep_interest ep w (epoll_fd p) - {lp_server_fd p}) D s w"
    and "Server_new_client (linux_calls os sl nt ep) s w = (Inr (), s', w')"
  shows "\<exists>fd c. fd \<notin> os_open os w \<and> connection_fd c = fd \<and>
    manager_lookup thread_sessions (srv_threads s') =
      (manager_lookup thread_sessions (srv_threads s))(fd \<mapsto> srv_protocol s c) \<and>
    ep_interest ep w' (epoll_fd (srv_poller s')) - {srv_fd s'} =
      insert fd (ep_interest ep w (epoll_fd (srv_poller s)) - {srv_fd s}) \<and>
    os_open os w' = insert fd (os_open os w)"
proof -
  from lin_srv.new_client_law [OF assms] obtain fd c ts p where s': "s' = s\<lparr>srv_threads := ts, srv_poller := p\<rparr>"
    and r: "fd \<notin> os_open os w" "connection_fd c = fd"
      "manager_lookup thread_sessions ts = (manager_lookup thread_sessions (srv_threads s))(fd \<mapsto> srv_protocol s c)"
      "lp_server_fd p = lp_server_fd (srv_poller s)"
      "ep_interest ep w' (epoll_fd p) - {lp_server_fd p} =
        insert fd (ep_interest ep w (epoll_fd (srv_poller s)) - {lp_server_fd (srv_poller s)})"
      "os_open os w' = insert fd (os_open os w)" by (auto simp: linux_calls_def)
  with server_invD(3) [OF assms(2)] show ?thesis by (intro exI [of _ fd] exI [of _ c]) (simp add: s')
qed

theorem Server_new_client_served_witness:
  "\<exists>fd. dom (manager_lookup thread_sessions (srv_threads sim_served)) =
     insert fd (dom (manager_lookup thread_sessions (srv_threads sim_server)))"
proof -
  from Server_new_client_served [OF sim_epoll_env, folded sim_calls_def, OF sim_server_inv sim_new_client]
  obtain fd c where "manager_lookup thread_sessions (srv_threads sim_served) =
    (manager_lookup thread_sessions (srv_threads sim_server))(fd \<mapsto> srv_protocol sim_server c)" by auto
  then show ?thesis by (metis dom_fun_upd option.distinct(1))
qed

text \<open>
  C38. An exception while one event is handled leaves \<^verbatim>\<open>Server::iterate\<close> and ends \<^verbatim>\<open>Server::run\<close>
  with this exception: the events after it are not handled, and the other clients are no
  longer served.
\<close>

theorem Server_run_exception:
  assumes "srv_running s" and "pl_wait (pc_poller pc) (srv_poller s) w = (Inr (evs @ e # rest), p, w1)"
    and "Server_events pc evs (s\<lparr>srv_poller := p\<rparr>) w1 = (Inr (), s2, w2)"
    and "Server_event pc e s2 w2 = (Inl x, s3, w3)"
  shows "Server_iterate pc s w = (Inl x, s3, w3) \<and> Server_run pc env s w = Some (Inl x, s3, w3)"
proof -
  have "Server_events pc (evs @ e # rest) t v = (Inl x, s3, w3)"
    if "Server_events pc evs t v = (Inr (), s2, w2)" for t v
    using that assms(4)
    by (induction evs arbitrary: t v) (auto split: prod.splits sum.splits)
  with assms(2,3) have it: "Server_iterate pc s w = (Inl x, s3, w3)" by (simp add: Server_iterate_def)
  then show ?thesis using assms(1) by (subst Server_run.simps) simp
qed

definition sim_ssl_server :: "linux_poller server" where
  "sim_ssl_server = sim_server\<lparr>srv_class := SSLServer 2\<rparr>"

definition sim_bad_world :: sim_net where
  "sim_bad_world = sim_srv_world\<lparr>sim_errno := Errno 71\<rparr>"

lemma sim_bad_handshake:
  "\<exists>w'. Server_event sim_calls (mk_Event NewClient 3) sim_ssl_server sim_bad_world =
     (Inl (RuntimeError ''ssl server: {}bad handshake''), sim_ssl_server, w')"
proof -
  let ?w = "sim_bad_world\<lparr>sim_open := {0, 3, 5}\<rparr>"
  have "sim_new_fd sim_bad_world = (0, ?w)"
    by (simp add: sim_new_fd_def sim_srv_world_def sim_bad_world_def upt_conv_Cons)
  then have acc: "TCPServer_accept sim_srv_os sim_nt 3 sim_bad_world = (Inr 0, ?w)"
    using sim_quiet
    by (simp add: TCPServer_accept_def io_bind_call sim_nt_def INVALID_SOCKET_def socket_mark_as_nonblocking_def
        sim_srv_os_def sim_os_def log_quiet sim_bad_world_def)
  have "fst (SSLConnection_new sim_srv_os sim_ssl 0 2 ?w) = Inl (RuntimeError ''ssl server: {}bad handshake'')"
    by (simp add: SSLConnection_new_def io_bind_call sim_ssl_def sim_bad_world_def sim_srv_world_def sim_net_eval)
  then obtain w' where "SSLConnection_new sim_srv_os sim_ssl 0 2 ?w =
      (Inl (RuntimeError ''ssl server: {}bad handshake''), w')" by (metis prod.collapse)
  then show ?thesis
    by (simp add: Server_event_def Server_new_client_def sim_calls_def linux_calls_def sim_ssl_server_def
        sim_server_def acc)
qed

theorem Server_run_exception_witness:
  "\<exists>s' w'. Server_run sim_calls Pair sim_ssl_server (sim_bad_world\<lparr>sim_events := [[(1, 3)]]\<rparr>) =
     Some (Inl (RuntimeError ''ssl server: {}bad handshake''), s', w')"
proof -
  have wt: "pl_wait (pc_poller sim_calls) (srv_poller sim_ssl_server) (sim_bad_world\<lparr>sim_events := [[(1, 3)]]\<rparr>)
      = (Inr ([] @ mk_Event NewClient 3 # []), sim_linux, sim_bad_world)"
    by (simp add: sim_calls_def linux_calls_def LinuxPoller_def const_state_def LinuxPoller_wait_def linux_event_def
        sim_ssl_server_def sim_server_def sim_linux_def sim_bad_world_def sim_srv_world_def sim_net_eval
        io_bind_call EVENT_BUFFER_SZ_def)
  have same: "sim_ssl_server\<lparr>srv_poller := sim_linux\<rparr> = sim_ssl_server"
    by (simp add: sim_ssl_server_def sim_server_def)
  have run: "srv_running sim_ssl_server" by (simp add: sim_ssl_server_def sim_server_def)
  from sim_bad_handshake Server_run_exception [OF run wt, unfolded same, of sim_ssl_server sim_bad_world]
  show ?thesis by fastforce
qed



text \<open>
  After several servers have called \<^verbatim>\<open>stop_on_SIGINT\<close>, the interrupt stops the first of them
  and no other.
\<close>

theorem SIGINT_stops_first_only:
  assumes "global_server sg = None"
  shows "srv_running (snd (SIGINT_handler (fold stop_on_SIGINT (a # others) sg) servers) x) =
    (srv_running (servers x) \<and> x \<noteq> a)"
proof -
  have "global_server (fold stop_on_SIGINT others sg') = Some a" if "global_server sg' = Some a" for sg'
    using that by (induction others arbitrary: sg') (simp_all add: stop_on_SIGINT_def)
  with assms show ?thesis by (simp add: SIGINT_handler_def Server_stop_def stop_on_SIGINT_def)
qed

theorem SIGINT_stops_first_only_witness:
  "srv_running (snd (SIGINT_handler (fold stop_on_SIGINT [1, 2] \<lparr> global_server = None, sigint_handled = False \<rparr>)
     (\<lambda>_. sim_server)) 2)"
  using SIGINT_stops_first_only [of "\<lparr> global_server = None, sigint_handled = False \<rparr>" 1 "[2]" "\<lambda>_. sim_server" 2]
  by (simp add: sim_server_def)

end
