(* ===== verification/Getopt.thy ===== *)
theory Getopt
  imports CxxString "HOL-Library.Multiset"
begin

text \<open>
  The option parser \<^verbatim>\<open>ya_getopt\<close> that the load test carries (\<^verbatim>\<open>loadtest/ya_getopt.c\<close>), a C
  program on global variables: its state is the record \<open>getopt\<close>, its functions return the
  option and the new state. Pointers into an argument are the rest of the string, a null
  pointer is \<open>None\<close>; the argument vector is part of the state because the parser permutes
  it. Messages to the standard error stream are collected. \<open>longindex\<close> is the variable the
  caller passes for the index of a long option; a caller that passes none does not read it. The last part shows that the
  permutation is a rotation of two blocks and that parsing makes progress.
\<close>

subsection \<open>C strings and characters\<close>

text \<open>\<^verbatim>\<open>s[i]\<close> up to the terminating zero.\<close>

definition char_at :: "string \<Rightarrow> nat \<Rightarrow> char" where
  "char_at s i = (if i < length s then s ! i else NUL)"

text \<open>The value of a (signed) \<^verbatim>\<open>char\<close> as an \<^verbatim>\<open>int\<close>.\<close>

definition c_ord :: "char \<Rightarrow> int" where
  "c_ord c = (let n = int (of_char c :: nat) in if n < 128 then n else n - 256)"

text \<open>\<^verbatim>\<open>strchr(s, c)\<close> for a character other than zero: the rest of the string from its first occurrence.\<close>

definition strchr :: "string \<Rightarrow> char \<Rightarrow> string option" where
  "strchr s c = (let r = dropWhile (\<lambda>x. x \<noteq> c) s in if r = [] then None else Some r)"

subsection \<open>State\<close>

datatype has_arg = ya_no_argument | ya_required_argument | ya_optional_argument

record longopt =
  lo_name :: string
  lo_has_arg :: has_arg
  lo_flag :: "nat option"
  lo_val :: int

record getopt =
  optarg :: "string option"
  optind :: int
  opterr :: bool
  optopt :: int
  optnext :: "string option"
  posixly_correct :: int
  handle_nonopt_argv :: bool
  perm_start :: int
  perm_end :: int
  argv :: "string list"
  longindex :: "int option"
  flags :: "nat \<rightharpoonup> int"
  messages :: "string list"

definition getopt_init :: "string list \<Rightarrow> getopt" where
  "getopt_init args = \<lparr> optarg = None, optind = 1, opterr = True, optopt = c_ord (CHR ''?''),
     optnext = None, posixly_correct = -1, handle_nonopt_argv = False, perm_start = 0, perm_end = 0,
     argv = args, longindex = None, flags = Map.empty, messages = [] \<rparr>"

definition argc :: "getopt \<Rightarrow> int" where
  "argc g = int (length (argv g))"

definition arg_at :: "getopt \<Rightarrow> int \<Rightarrow> string" where
  "arg_at g i = argv g ! nat i"

definition ya_getopt_error :: "string \<Rightarrow> string \<Rightarrow> getopt \<Rightarrow> getopt" where
  "ya_getopt_error optstring msg g =
     (if opterr g \<and> char_at optstring 0 \<noteq> CHR '':'' then g\<lparr>messages := messages g @ [msg]\<rparr> else g)"

text \<open>\<open>env\<close> tells whether \<^verbatim>\<open>POSIXLY_CORRECT\<close> is in the environment.\<close>

definition check_gnu_extension :: "bool \<Rightarrow> string \<Rightarrow> getopt \<Rightarrow> getopt" where
  "check_gnu_extension env optstring g = g\<lparr>
     posixly_correct := (if char_at optstring 0 = CHR ''+'' \<or> env then 1 else 0),
     handle_nonopt_argv := (char_at optstring 0 = CHR ''-'')\<rparr>"

definition is_option :: "string \<Rightarrow> bool" where
  "is_option arg \<longleftrightarrow> char_at arg 0 = CHR ''-'' \<and> char_at arg 1 \<noteq> NUL"

subsection \<open>Permuting the arguments\<close>

text \<open>The inner loop moves the following arguments down by one place.\<close>

function shift_loop :: "int \<Rightarrow> int \<Rightarrow> string list \<Rightarrow> int \<times> string list" where
  "shift_loop i last_pos av =
     (if i < last_pos then shift_loop (i + 1) last_pos (av[nat i := av ! nat (i + 1)]) else (i, av))"
  by pat_completeness auto
termination by (relation "measure (\<lambda>(i, last_pos, av). nat (last_pos - i))") auto

text \<open>The outer loop: \<^verbatim>\<open>while (start < end--)\<close>.\<close>

function permute_loop :: "int \<Rightarrow> int \<Rightarrow> int \<Rightarrow> string list \<Rightarrow> int \<times> string list" where
  "permute_loop start end last_pos av =
     (if start < end then
        (case shift_loop (end - 1) last_pos av of (i, av') \<Rightarrow>
           permute_loop start (end - 1) (last_pos - 1) (av'[nat i := av ! nat (end - 1)]))
      else (end - 1, av))"
  by pat_completeness auto
termination by (relation "measure (\<lambda>(start, end, last_pos, av). nat (end - start))") auto

declare shift_loop.simps [simp del] permute_loop.simps [simp del]

definition permute :: "getopt \<Rightarrow> getopt" where
  "permute g =
     (let i = optind g - (perm_end g - perm_start g) in
      case permute_loop (perm_start g) (perm_end g) (optind g - 1) (argv g) of (e, av) \<Rightarrow>
        g\<lparr>optind := (if i \<le> 0 then 1 else i), perm_end := e, argv := av, perm_start := 0\<rparr>)"

subsection \<open>Short options\<close>

definition ya_getopt_shortopts :: "string \<Rightarrow> bool \<Rightarrow> getopt \<Rightarrow> int \<times> getopt" where
  "ya_getopt_shortopts optstring long_only g =
     (let next = the (optnext g); opt = char_at next 0 in
      case strchr optstring opt of
        None \<Rightarrow>
          let g = g\<lparr>optarg := None\<rparr> in
          if long_only then
            let g = ya_getopt_error optstring
              (arg_at g 0 @ '': unrecognized option '' @ [CHR 0x27] @ ''-'' @ next @ [CHR 0x27, CHR 0x0A]) g
            in (c_ord (CHR ''?''), g\<lparr>optind := optind g + 1, optnext := None\<rparr>)
          else
            let g = ya_getopt_error optstring
              (arg_at g 0 @ '': invalid option -- '' @ [CHR 0x27, opt, CHR 0x27, CHR 0x0A]) (g\<lparr>optopt := c_ord opt\<rparr>)
            in (c_ord (CHR ''?''),
                if char_at next 1 = NUL then g\<lparr>optind := optind g + 1, optnext := None\<rparr>
                else g\<lparr>optnext := Some (tl next)\<rparr>)
      | Some os \<Rightarrow>
          if char_at os 1 = CHR '':'' then
            if char_at next 1 = NUL then
              let g = g\<lparr>optind := optind g + 1, optnext := None\<rparr> in
              if char_at os 2 = CHR '':'' then (c_ord opt, g\<lparr>optarg := None\<rparr>)
              else if optind g = argc g then
                let g = ya_getopt_error optstring
                  (arg_at g 0 @ '': option requires an argument -- '' @ [CHR 0x27, opt, CHR 0x27, CHR 0x0A])
                  (g\<lparr>optarg := None, optopt := c_ord opt\<rparr>)
                in (c_ord (if char_at optstring 0 = CHR '':'' then CHR '':'' else CHR ''?''), g)
              else (c_ord opt, g\<lparr>optarg := Some (arg_at g (optind g)), optind := optind g + 1\<rparr>)
            else (c_ord opt, g\<lparr>optarg := Some (tl next), optind := optind g + 1, optnext := None\<rparr>)
          else
            (c_ord opt,
             if char_at next 1 = NUL then g\<lparr>optarg := None, optnext := None, optind := optind g + 1\<rparr>
             else g\<lparr>optarg := None, optnext := Some (tl next)\<rparr>))"

subsection \<open>Long options\<close>

text \<open>The code behind the label \<^verbatim>\<open>found\<close>.\<close>

definition longopt_found :: "longopt \<Rightarrow> int \<Rightarrow> string option \<Rightarrow> getopt \<Rightarrow> int \<times> getopt" where
  "longopt_found opt idx val g =
     (let g = g\<lparr>optarg := val, optind := optind g + 1, longindex := Some idx\<rparr> in
      case lo_flag opt of
        None \<Rightarrow> (lo_val opt, g)
      | Some f \<Rightarrow> (0, g\<lparr>flags := (flags g)(f \<mapsto> lo_val opt)\<rparr>))"

text \<open>
  The loop over the options from index \<open>idx\<close>; the third component of the result is the flag
  that \<^verbatim>\<open>getopt_long_only\<close> passes, and it is passed when \<open>long_only\<close> holds.
\<close>

fun ya_getopt_longopts ::
  "string \<Rightarrow> string \<Rightarrow> longopt list \<Rightarrow> int \<Rightarrow> bool \<Rightarrow> getopt \<Rightarrow> int \<times> getopt \<times> bool" where
  "ya_getopt_longopts arg optstring [] idx long_only g =
     (if long_only then (c_ord (CHR ''?''), g, True)
      else
        let g = ya_getopt_error optstring
          (arg_at g 0 @ '': unrecognized option '' @ [CHR 0x27] @ arg_at g (optind g) @ [CHR 0x27, CHR 0x0A]) g
        in (c_ord (CHR ''?''), g\<lparr>optind := optind g + 1\<rparr>, False))"
| "ya_getopt_longopts arg optstring (opt # opts) idx long_only g =
     (let namelen = length (lo_name opt) in
      if starts_with (lo_name opt) arg \<and> char_at arg namelen = NUL then
        (if lo_has_arg opt = ya_required_argument then
           let g = g\<lparr>optind := optind g + 1\<rparr> in
           if optind g = argc g then
             let g = ya_getopt_error optstring
               (arg_at g 0 @ '': option '' @ [CHR 0x27] @ ''--'' @ lo_name opt @ [CHR 0x27] @
                '' requires an argument'' @ [CHR 0x0A])
               (g\<lparr>optarg := None, optopt := lo_val opt\<rparr>)
             in (c_ord (if char_at optstring 0 = CHR '':'' then CHR '':'' else CHR ''?''), g, False)
           else (case longopt_found opt idx (Some (arg_at g (optind g))) g of (r, g') \<Rightarrow> (r, g', False))
         else (case longopt_found opt idx None g of (r, g') \<Rightarrow> (r, g', False)))
      else if starts_with (lo_name opt) arg \<and> char_at arg namelen = CHR ''='' then
        (if lo_has_arg opt = ya_no_argument then
           let hyphens = (if char_at (arg_at g (optind g)) 1 = CHR ''-'' then ''--'' else ''-'');
               g = ya_getopt_error optstring
                 (arg_at g 0 @ '': option '' @ [CHR 0x27] @ hyphens @ lo_name opt @ [CHR 0x27] @
                  '' doesn'' @ [CHR 0x27] @ ''t allow an argument'' @ [CHR 0x0A])
                 (g\<lparr>optind := optind g + 1, optarg := None, optopt := lo_val opt\<rparr>)
           in (c_ord (CHR ''?''), g, False)
         else (case longopt_found opt idx (Some (drop (namelen + 1) arg)) g of (r, g') \<Rightarrow> (r, g', False)))
      else ya_getopt_longopts arg optstring opts (idx + 1) long_only g)"

subsection \<open>The entry points\<close>

text \<open>The part of \<^verbatim>\<open>ya_getopt_internal\<close> before the tests of \<^verbatim>\<open>ya_optind\<close> and \<^verbatim>\<open>ya_optnext\<close>.\<close>

definition getopt_prepare :: "bool \<Rightarrow> string \<Rightarrow> getopt \<Rightarrow> getopt" where
  "getopt_prepare env optstring g =
     (let g = (if optopt g = c_ord (CHR ''?'') then g\<lparr>optopt := 0\<rparr> else g);
          g = (if posixly_correct g = -1 then check_gnu_extension env optstring g else g);
          g = (if optind g = 0
               then (check_gnu_extension env optstring g)\<lparr>optind := 1, optnext := None\<rparr> else g)
      in if optnext g = None \<and> perm_start g \<noteq> 0 then permute g else g)"

definition skip_prefix :: "string \<Rightarrow> string" where
  "skip_prefix optstring =
     (if char_at optstring 0 = CHR ''+'' \<or> char_at optstring 0 = CHR ''-'' then tl optstring else optstring)"

text \<open>The index of the next option from \<open>i\<close> on, \<open>None\<close> when the loop reaches \<^verbatim>\<open>argc\<close>.\<close>

function next_option :: "getopt \<Rightarrow> int \<Rightarrow> int option" where
  "next_option g i =
     (if i < argc g then if is_option (arg_at g i) then Some i else next_option g (i + 1) else None)"
  by pat_completeness auto
termination by (relation "measure (\<lambda>(g, i). nat (argc g - i))") auto

declare next_option.simps [simp del]

text \<open>The end of the function: the rest of an argument of short options.\<close>

definition getopt_next ::
  "string \<Rightarrow> longopt list option \<Rightarrow> bool \<Rightarrow> getopt \<Rightarrow> int \<times> getopt" where
  "getopt_next optstring longopts long_only g =
     (let g = (case optnext g of None \<Rightarrow> g\<lparr>optnext := Some (tl (arg_at g (optind g)))\<rparr> | Some _ \<Rightarrow> g) in
      if long_only then
        (case ya_getopt_longopts (the (optnext g)) optstring (the longopts) 0 True g of (rv, g', flag) \<Rightarrow>
           if \<not> flag then (rv, g'\<lparr>optnext := None\<rparr>) else ya_getopt_shortopts optstring long_only g')
      else ya_getopt_shortopts optstring long_only g)"

text \<open>An argument that is an option, at \<^verbatim>\<open>ya_optind\<close>.\<close>

definition getopt_option ::
  "string \<Rightarrow> longopt list option \<Rightarrow> bool \<Rightarrow> getopt \<Rightarrow> int \<times> getopt" where
  "getopt_option optstring longopts long_only g =
     (let arg = arg_at g (optind g) in
      if arg = ''--'' then (-1, g\<lparr>optind := optind g + 1\<rparr>)
      else if longopts \<noteq> None \<and> char_at arg 1 = CHR ''-'' then
        (case ya_getopt_longopts (drop 2 arg) optstring (the longopts) 0 False g of (rv, g', _) \<Rightarrow> (rv, g'))
      else getopt_next optstring longopts long_only g)"

definition ya_getopt_internal ::
  "bool \<Rightarrow> string \<Rightarrow> longopt list option \<Rightarrow> bool \<Rightarrow> getopt \<Rightarrow> int \<times> getopt" where
  "ya_getopt_internal env optstring longopts long_only g =
     (let g = getopt_prepare env optstring g; os = skip_prefix optstring in
      if argc g \<le> optind g then (-1, g\<lparr>optarg := None\<rparr>)
      else if optnext g \<noteq> None then getopt_next os longopts long_only g
      else if is_option (arg_at g (optind g)) then getopt_option os longopts long_only g
      else if handle_nonopt_argv g then
        (1, g\<lparr>optarg := Some (arg_at g (optind g)), optind := optind g + 1, perm_start := 0\<rparr>)
      else if posixly_correct g \<noteq> 0 then (-1, g\<lparr>optarg := None\<rparr>)
      else case next_option g (optind g + 1) of
        None \<Rightarrow> (-1, g\<lparr>perm_start := optind g, optarg := None\<rparr>)
      | Some i \<Rightarrow>
          getopt_option os longopts long_only (g\<lparr>perm_start := optind g, perm_end := i, optind := i\<rparr>))"

definition ya_getopt :: "bool \<Rightarrow> string \<Rightarrow> getopt \<Rightarrow> int \<times> getopt" where
  "ya_getopt env optstring g = ya_getopt_internal env optstring None False g"

definition ya_getopt_long :: "bool \<Rightarrow> string \<Rightarrow> longopt list \<Rightarrow> getopt \<Rightarrow> int \<times> getopt" where
  "ya_getopt_long env optstring longopts g = ya_getopt_internal env optstring (Some longopts) False g"

definition ya_getopt_long_only :: "bool \<Rightarrow> string \<Rightarrow> longopt list \<Rightarrow> getopt \<Rightarrow> int \<times> getopt" where
  "ya_getopt_long_only env optstring longopts g = ya_getopt_internal env optstring (Some longopts) True g"

subsection \<open>The permutation rotates two blocks\<close>

text \<open>Moving the element at \<open>i\<close> to \<open>j\<close>, as the two loops do it.\<close>

definition move :: "nat \<Rightarrow> nat \<Rightarrow> 'a list \<Rightarrow> 'a list" where
  "move i j xs = take i xs @ drop (Suc i) (take (Suc j) xs) @ [xs ! i] @ drop (Suc j) xs"

lemma shift_loop_spec:
  assumes "0 \<le> i" and "i \<le> last_pos" and "last_pos < int (length av)"
  shows "shift_loop i last_pos av =
    (last_pos, take (nat i) av @ drop (Suc (nat i)) (take (Suc (nat last_pos)) av) @ drop (nat last_pos) av)"
  using assms
proof (induction i last_pos av rule: shift_loop.induct)
  case (1 i last_pos av)
  show ?case
  proof (cases "i < last_pos")
    case False
    with 1 have "i = last_pos" by simp
    with 1 show ?thesis by (simp add: shift_loop.simps)
  next
    case True
    define k where "k = nat i"
    let ?av = "av[nat i := av ! nat (i + 1)]"
    have k: "nat i = k" "nat (i + 1) = Suc k" "Suc k < length av" "Suc k \<le> nat last_pos" "nat last_pos < length av"
      using True 1(2-4) by (auto simp: k_def)
    have "shift_loop (i + 1) last_pos ?av =
        (last_pos, take (Suc k) ?av @ drop (Suc (Suc k)) (take (Suc (nat last_pos)) ?av) @ drop (nat last_pos) ?av)"
      using 1(1) [OF True] 1(2-4) True by (simp add: k)
    also have "take (Suc k) ?av = take k av @ [av ! Suc k]"
      using k by (simp add: take_Suc_conv_app_nth)
    also have "drop (Suc (Suc k)) (take (Suc (nat last_pos)) ?av) = drop (Suc (Suc k)) (take (Suc (nat last_pos)) av)"
      by (simp add: k drop_take)
    also have "drop (nat last_pos) ?av = drop (nat last_pos) av" using k by simp
    also have "(take k av @ [av ! Suc k]) @ drop (Suc (Suc k)) (take (Suc (nat last_pos)) av) @ drop (nat last_pos) av =
        take k av @ drop (Suc k) (take (Suc (nat last_pos)) av) @ drop (nat last_pos) av"
      using k Cons_nth_drop_Suc [of "Suc k" "take (Suc (nat last_pos)) av"] by simp
    finally show ?thesis using True by (simp add: shift_loop.simps [of i] k)
  qed
qed

lemma shift_loop_move:
  assumes "0 \<le> i" and "i \<le> last_pos" and "last_pos < int (length av)"
    and "shift_loop i last_pos av = (j, av')"
  shows "av'[nat j := av ! nat i] = move (nat i) (nat last_pos) av"
proof -
  have "nat last_pos < length av" using assms by auto
  then have "drop (nat last_pos) av = av ! nat last_pos # drop (Suc (nat last_pos)) av"
    by (simp add: Cons_nth_drop_Suc)
  with assms shift_loop_spec [OF assms(1-3)] show ?thesis
    by (auto simp: move_def list_update_append)
qed

lemma move_append: "move (length xs) (length xs + length ys) (xs @ x # ys @ zs) = xs @ ys @ x # zs"
  by (simp add: move_def)

lemma permute_loop_rotate:
  assumes "start = int (length as)" and "end = int (length (as @ bs))"
    and "last_pos = int (length (as @ bs @ cs)) - 1"
  shows "permute_loop start end last_pos (as @ bs @ cs @ ds) = (start - 1, as @ cs @ bs @ ds)"
  using assms
proof (induction bs arbitrary: "end" last_pos ds rule: rev_induct)
  case Nil
  then show ?case by (simp add: permute_loop.simps)
next
  case (snoc b bs)
  let ?av = "as @ (bs @ [b]) @ cs @ ds"
  have b: "nat (end - 1) = length (as @ bs)" "nat last_pos = length (as @ bs) + length cs"
    using snoc.prems by auto
  obtain j av' where sh: "shift_loop (end - 1) last_pos ?av = (j, av')" by fastforce
  have "av'[nat j := ?av ! nat (end - 1)] = move (nat (end - 1)) (nat last_pos) ?av"
    by (rule shift_loop_move [OF _ _ _ sh]) (use snoc.prems in auto)
  also have "\<dots> = as @ bs @ cs @ b # ds" unfolding b using move_append [of "as @ bs" cs b ds] by simp
  finally have "permute_loop start end last_pos ?av =
      permute_loop start (end - 1) (last_pos - 1) (as @ bs @ cs @ b # ds)"
    using snoc.prems sh by (subst permute_loop.simps) simp
  with snoc.IH [of "end - 1" "last_pos - 1" "b # ds"] snoc.prems show ?case by simp
qed

text \<open>
  The invariant between calls that did not end the parsing: the index is in range, a pending
  block of non-options lies before it, a pointer into the current argument is not at its end.
\<close>

definition getopt_ok :: "getopt \<Rightarrow> bool" where
  "getopt_ok g \<longleftrightarrow> 1 \<le> optind g \<and> optind g \<le> argc g \<and>
     (perm_start g \<noteq> 0 \<longrightarrow> 1 \<le> perm_start g \<and> perm_start g < perm_end g \<and> perm_end g \<le> optind g) \<and>
     (\<forall>s. optnext g = Some s \<longrightarrow> s \<noteq> '''' \<and> NUL \<notin> set s \<and> optind g < argc g) \<and>
     (\<forall>a \<in> set (argv g). NUL \<notin> set a)"

text \<open>The arguments that are still to be parsed: the pending non-options and those from the index on.\<close>

definition pending :: "getopt \<Rightarrow> string list" where
  "pending g = (if perm_start g = 0 then [] else take (nat (perm_end g - perm_start g)) (drop (nat (perm_start g)) (argv g)))"

definition rest_args :: "getopt \<Rightarrow> string list" where
  "rest_args g = drop (nat (optind g)) (argv g)"

lemma permute_spec:
  assumes "getopt_ok g" and "perm_start g \<noteq> 0"
  shows "\<exists>as cs. argv g = as @ pending g @ cs @ rest_args g \<and> length as = nat (perm_start g) \<and>
    permute g = g\<lparr>optind := int (length (as @ cs)), perm_end := perm_start g - 1,
      argv := as @ cs @ pending g @ rest_args g, perm_start := 0\<rparr> \<and> 1 \<le> length as"
proof -
  have ge: "0 \<le> perm_start g" "0 \<le> perm_end g" "0 \<le> optind g" using assms by (auto simp: getopt_ok_def)
  then obtain s e i where st: "perm_start g = int s" "perm_end g = int e" "optind g = int i"
    by (metis zero_le_imp_eq_int)
  have r: "1 \<le> s" "s < e" "e \<le> i" "i \<le> length (argv g)"
    using assms st by (auto simp: getopt_ok_def argc_def)
  define as where "as = take s (argv g)"
  define cs where "cs = take (i - e) (drop e (argv g))"
  have sub: "nat (int e - int s) = e - s" by simp
  have pen: "pending g = take (e - s) (drop s (argv g))"
    using r(1) by (simp add: pending_def st sub)
  have rest: "rest_args g = drop i (argv g)" by (simp add: rest_args_def st)
  have len: "length as = s" "length (pending g) = e - s" "length cs = i - e"
    using r by (simp_all add: as_def cs_def pen)
  have "drop e (argv g) = cs @ rest_args g"
    unfolding cs_def rest using r append_take_drop_id [of "i - e" "drop e (argv g)"] by simp
  moreover have "drop s (argv g) = pending g @ drop e (argv g)"
    unfolding pen using r append_take_drop_id [of "e - s" "drop s (argv g)"] by simp
  ultimately have av: "argv g = as @ pending g @ cs @ rest_args g"
    unfolding as_def using append_take_drop_id [of s "argv g"] by simp
  have "permute_loop (int s) (int e) (int i - 1) (as @ pending g @ cs @ rest_args g) =
      (int s - 1, as @ cs @ pending g @ rest_args g)"
    by (rule permute_loop_rotate) (use len r in auto)
  with av have loop: "permute_loop (int s) (int e) (int i - 1) (argv g) = (int s - 1, as @ cs @ pending g @ rest_args g)"
    by simp
  have idx: "int i - (int e - int s) = int (length (as @ cs))" "\<not> int i - (int e - int s) \<le> 0"
    using len r by auto
  have "permute g = g\<lparr>optind := int (length (as @ cs)), perm_end := perm_start g - 1,
      argv := as @ cs @ pending g @ rest_args g, perm_start := 0\<rparr>"
    using idx(2) by (simp add: permute_def Let_def st loop idx(1))
  moreover have "length as = nat (perm_start g)" "1 \<le> length as" using len r st by simp_all
  ultimately show ?thesis using av by blast
qed

subsection \<open>Parsing makes progress\<close>

text \<open>What is left to parse, in characters, each argument with its terminator.\<close>

definition arg_weight :: "string list \<Rightarrow> nat" where
  "arg_weight xs = sum_list (map (\<lambda>a. Suc (length a)) xs)"

definition todo :: "getopt \<Rightarrow> nat" where
  "todo g = arg_weight (pending g) + (case optnext g of
     None \<Rightarrow> arg_weight (rest_args g)
   | Some s \<Rightarrow> length s + arg_weight (tl (rest_args g)))"

lemma arg_weight_simps [simp]:
  "arg_weight [] = 0" "arg_weight (a # xs) = Suc (length a) + arg_weight xs"
  "arg_weight (xs @ ys) = arg_weight xs + arg_weight ys"
  by (simp_all add: arg_weight_def)

lemma arg_weight_drop: "arg_weight (drop n xs) \<le> arg_weight xs"
  by (metis append_take_drop_id arg_weight_simps(3) le_add2)

lemma rest_args_Cons:
  assumes "0 \<le> optind g" and "optind g < argc g"
  shows "rest_args g = arg_at g (optind g) # drop (Suc (nat (optind g))) (argv g)"
  using assms by (simp add: rest_args_def arg_at_def argc_def Cons_nth_drop_Suc)

text \<open>
  The part of the state that the parsing of one argument leaves alone, and how it moves on: to the
  next character of the argument, or to a later argument.
\<close>

definition moves_on :: "getopt \<Rightarrow> getopt \<Rightarrow> bool" where
  "moves_on g g' \<longleftrightarrow> argv g' = argv g \<and> perm_start g' = perm_start g \<and> perm_end g' = perm_end g \<and>
     ((\<exists>c s. optnext g = Some (c # s) \<and> s \<noteq> '''' \<and> optnext g' = Some s \<and> optind g' = optind g) \<or>
      (optnext g' = None \<and> optind g < optind g' \<and> optind g' \<le> argc g))"

lemma moves_on_ok:
  assumes "getopt_ok g" and "moves_on g g'"
  shows "getopt_ok g'"
  using assms by (auto simp: getopt_ok_def moves_on_def argc_def)

lemma moves_on_todo:
  assumes "getopt_ok g" and "moves_on g g'"
  shows "todo g' < todo g"
proof -
  have ix: "0 \<le> optind g" using assms(1) by (simp add: getopt_ok_def)
  have pen: "pending g' = pending g" using assms(2) by (simp add: pending_def moves_on_def)
  from assms(2) consider (char) c s where "optnext g = Some (c # s)" "optnext g' = Some s" "rest_args g' = rest_args g"
    | (arg) "optnext g' = None" "optind g < optind g'" "optind g' \<le> argc g" "argv g' = argv g"
    by (auto simp: moves_on_def rest_args_def)
  then show ?thesis
  proof cases
    case char
    then show ?thesis by (simp add: todo_def pen)
  next
    case arg
    have lt: "optind g < argc g" using arg by simp
    have "Suc (nat (optind g)) \<le> nat (optind g')" using arg ix by auto
    then obtain k where "nat (optind g') = k + Suc (nat (optind g))" using le_iff_add by (metis add.commute)
    then have "arg_weight (rest_args g') \<le> arg_weight (drop (Suc (nat (optind g))) (argv g))"
      using arg_weight_drop [of k "drop (Suc (nat (optind g))) (argv g)"] arg(4) by (simp add: rest_args_def)
    moreover have "arg_weight (drop (Suc (nat (optind g))) (argv g)) = arg_weight (tl (rest_args g))"
      "arg_weight (tl (rest_args g)) < arg_weight (rest_args g)"
      using rest_args_Cons [OF ix lt] by simp_all
    ultimately have w: "arg_weight (rest_args g') \<le> arg_weight (tl (rest_args g))"
      "arg_weight (rest_args g') < arg_weight (rest_args g)" by linarith+
    show ?thesis
    proof (cases "optnext g")
      case None
      with w arg(1) show ?thesis by (simp add: todo_def pen)
    next
      case (Some x)
      with assms(1) have "0 < length x" by (auto simp: getopt_ok_def)
      with w(1) have "arg_weight (rest_args g') < length x + arg_weight (tl (rest_args g))" by linarith
      with Some arg(1) show ?thesis by (simp add: todo_def pen)
    qed
  qed
qed

lemma error_fields [simp]:
  "argv (ya_getopt_error os m g) = argv g" "perm_start (ya_getopt_error os m g) = perm_start g"
  "perm_end (ya_getopt_error os m g) = perm_end g" "optnext (ya_getopt_error os m g) = optnext g"
  "optind (ya_getopt_error os m g) = optind g" "argc (ya_getopt_error os m g) = argc g"
  by (simp_all add: ya_getopt_error_def argc_def)

lemma argc_fields [simp]:
  "argc (g\<lparr>optind := i\<rparr>) = argc g" "argc (g\<lparr>optarg := a\<rparr>) = argc g" "argc (g\<lparr>optnext := n\<rparr>) = argc g"
  "argc (g\<lparr>optopt := c\<rparr>) = argc g" "argc (g\<lparr>perm_start := c\<rparr>) = argc g" "argc (g\<lparr>perm_end := c\<rparr>) = argc g"
  "argc (g\<lparr>longindex := l\<rparr>) = argc g" "argc (g\<lparr>flags := f\<rparr>) = argc g"
  by (simp_all add: argc_def)

lemma shortopts_moves_on:
  assumes "optnext g = Some (c # s)" and "NUL \<notin> set s" and "optind g < argc g"
  shows "moves_on g (snd (ya_getopt_shortopts os lo g))"
proof -
  have "char_at (c # s) 1 = NUL \<longleftrightarrow> s = ''''"
    using assms(2) by (cases s) (auto simp: char_at_def)
  then show ?thesis using assms
    by (auto simp: ya_getopt_shortopts_def moves_on_def Let_def split: option.splits)
qed

lemma longopts_moves_on:
  assumes "optnext g = None" and "optind g < argc g"
  shows "moves_on g (fst (snd (ya_getopt_longopts arg os opts idx False g)))"
  using assms
  by (induction opts arbitrary: idx)
    (auto simp: moves_on_def Let_def longopt_found_def split: option.splits)


text \<open>What happens before the next argument is looked at: the pending block, if any, goes behind the parsed options.\<close>

lemma check_gnu_extension_fields [simp]:
  "argv (check_gnu_extension env os g) = argv g" "perm_start (check_gnu_extension env os g) = perm_start g"
  "perm_end (check_gnu_extension env os g) = perm_end g" "optnext (check_gnu_extension env os g) = optnext g"
  "optind (check_gnu_extension env os g) = optind g" "argc (check_gnu_extension env os g) = argc g"
  by (simp_all add: check_gnu_extension_def argc_def)

definition same_position :: "getopt \<Rightarrow> getopt \<Rightarrow> bool" where
  "same_position g h \<longleftrightarrow> argv h = argv g \<and> perm_start h = perm_start g \<and> perm_end h = perm_end g \<and>
     optnext h = optnext g \<and> optind h = optind g"

lemma same_position_ok: "same_position g h \<Longrightarrow> getopt_ok h \<longleftrightarrow> getopt_ok g"
  by (simp add: same_position_def getopt_ok_def argc_def)

lemma same_position_todo: "same_position g h \<Longrightarrow> todo h = todo g"
  by (auto simp: same_position_def todo_def pending_def rest_args_def split: option.splits)

lemma getopt_prepare_cases:
  assumes "getopt_ok g"
  obtains h where "same_position g h"
    and "getopt_prepare env os g = (if optnext h = None \<and> perm_start h \<noteq> 0 then permute h else h)"
proof
  let ?a = "if optopt g = c_ord (CHR ''?'') then g\<lparr>optopt := 0\<rparr> else g"
  let ?h = "if posixly_correct ?a = -1 then check_gnu_extension env os ?a else ?a"
  show s: "same_position g ?h" by (simp add: same_position_def)
  have "optind ?h \<noteq> 0" using assms s by (auto simp: getopt_ok_def same_position_def)
  then show "getopt_prepare env os g = (if optnext ?h = None \<and> perm_start ?h \<noteq> 0 then permute ?h else ?h)"
    unfolding getopt_prepare_def Let_def by (simp only: if_False if_True refl)
qed

lemma permute_keeps:
  assumes "getopt_ok g" and "optnext g = None" and "perm_start g \<noteq> 0"
  shows "getopt_ok (permute g) \<and> todo (permute g) = todo g \<and> mset (argv (permute g)) = mset (argv g) \<and>
    optnext (permute g) = None \<and> perm_start (permute g) = 0"
proof -
  obtain as cs where p: "argv g = as @ pending g @ cs @ rest_args g" "1 \<le> length as"
    "permute g = g\<lparr>optind := int (length (as @ cs)), perm_end := perm_start g - 1,
      argv := as @ cs @ pending g @ rest_args g, perm_start := 0\<rparr>"
    using permute_spec [OF assms(1,3)] by blast
  have set: "set (as @ cs @ pending g @ rest_args g) = set (argv g)" by (subst p(1)) auto
  have "getopt_ok (permute g)"
    using assms(1,2) p(2) set by (simp add: getopt_ok_def p(3) argc_def)
  moreover have "pending (permute g) = []"
    unfolding pending_def by (simp add: p(3))
  moreover have "rest_args (permute g) = pending g @ rest_args g"
    unfolding rest_args_def [of "permute g"] by (simp add: p(3) nat_int_add)
  ultimately have "getopt_ok (permute g)" "todo (permute g) = todo g"
    using assms(2) by (simp_all add: todo_def p(3))
  moreover have "mset (argv (permute g)) = mset (argv g)" using arg_cong [OF p(1), of mset] by (simp add: p(3))
  ultimately show ?thesis by (simp add: p(3) assms(2))
qed

lemma getopt_prepare_keeps:
  assumes "getopt_ok g"
  shows "getopt_ok (getopt_prepare env os g) \<and> todo (getopt_prepare env os g) = todo g \<and>
    mset (argv (getopt_prepare env os g)) = mset (argv g) \<and>
    (optnext (getopt_prepare env os g) = None \<longrightarrow> perm_start (getopt_prepare env os g) = 0)"
proof -
  obtain h where h: "same_position g h"
    "getopt_prepare env os g = (if optnext h = None \<and> perm_start h \<noteq> 0 then permute h else h)"
    by (rule getopt_prepare_cases [OF assms])
  have ok: "getopt_ok h" "todo h = todo g" "mset (argv h) = mset (argv g)"
    using assms same_position_ok [OF h(1)] same_position_todo [OF h(1)] h(1) [unfolded same_position_def] by simp_all
  show ?thesis
  proof (cases "optnext h = None \<and> perm_start h \<noteq> 0")
    case True
    then show ?thesis using permute_keeps [OF ok(1)] ok unfolding h(2) by simp
  next
    case False
    then show ?thesis using ok unfolding h(2) by auto
  qed
qed


subsection \<open>One call\<close>

lemma is_optionD:
  assumes "is_option a" and "NUL \<notin> set a"
  obtains c s where "a = CHR ''-'' # c # s" and "NUL \<notin> set (c # s)"
proof (cases a)
  case Nil
  then show ?thesis using assms by (simp add: is_option_def char_at_def)
next
  case (Cons d u)
  then have "d = CHR ''-''" "u \<noteq> []" using assms by (auto simp: is_option_def char_at_def split: if_splits)
  with Cons assms that show ?thesis by (cases u) auto
qed

lemma next_option_SomeD:
  "next_option g i = Some j \<Longrightarrow> i \<le> j \<and> j < argc g \<and> is_option (arg_at g j)"
proof (induction g i rule: next_option.induct)
  case (1 g i)
  then show ?case by (subst (asm) (2) next_option.simps) (auto split: if_splits)
qed

lemma getopt_next_moves_on:
  assumes ok: "getopt_ok g" and ix: "optind g < argc g"
    and op: "optnext g = None \<Longrightarrow> is_option (arg_at g (optind g))"
  shows "moves_on g (snd (getopt_next os lopts False g)) \<or>
    todo (snd (getopt_next os lopts False g)) < todo g \<and> getopt_ok (snd (getopt_next os lopts False g)) \<and>
      argv (snd (getopt_next os lopts False g)) = argv g"
proof (cases "optnext g")
  case (Some x)
  with ok obtain c s where "x = c # s" "NUL \<notin> set s" by (cases x) (auto simp: getopt_ok_def)
  with Some have "moves_on g (snd (ya_getopt_shortopts os False g))"
    using shortopts_moves_on ix by simp
  with Some show ?thesis by (simp add: getopt_next_def)
next
  case None
  have "arg_at g (optind g) \<in> set (argv g)"
    using ok ix by (auto simp: arg_at_def argc_def getopt_ok_def)
  with ok None op obtain c s where a: "arg_at g (optind g) = CHR ''-'' # c # s" "NUL \<notin> set (c # s)"
    by (metis is_optionD getopt_ok_def)
  let ?h = "g\<lparr>optnext := Some (c # s)\<rparr>"
  have m: "moves_on ?h (snd (ya_getopt_shortopts os False ?h))"
    by (rule shortopts_moves_on [of _ c s]) (use a ix in simp_all)
  have okh: "getopt_ok ?h" using ok ix a by (auto simp: getopt_ok_def argc_def)
  have "0 \<le> optind g" using ok by (simp add: getopt_ok_def)
  then have "todo ?h < todo g"
    using rest_args_Cons [of g] ix a None
    by (simp add: todo_def pending_def [of ?h] pending_def [of g] rest_args_def [of ?h] rest_args_def [of g, symmetric])
  moreover have "getopt_next os lopts False g = ya_getopt_shortopts os False ?h"
    using None a by (simp add: getopt_next_def)
  moreover have "argv (snd (ya_getopt_shortopts os False ?h)) = argv g" using m by (simp add: moves_on_def)
  ultimately show ?thesis
    using moves_on_todo [OF okh m] moves_on_ok [OF okh m] by (simp add: less_trans)
qed

text \<open>One call parses something, unless it ends the parsing.\<close>

definition progresses :: "getopt \<Rightarrow> int \<times> getopt \<Rightarrow> bool" where
  "progresses g p \<longleftrightarrow> mset (argv (snd p)) = mset (argv g) \<and>
     (fst p = -1 \<or> getopt_ok (snd p) \<and> todo (snd p) < todo g)"

lemma moves_on_progresses: "getopt_ok g \<Longrightarrow> moves_on g (snd p) \<Longrightarrow> progresses g p"
  using moves_on_ok [of g "snd p"] moves_on_todo [of g "snd p"]
  by (simp add: progresses_def moves_on_def)

lemma getopt_next_progresses:
  assumes "getopt_ok g" and "optind g < argc g" and "optnext g = None \<Longrightarrow> is_option (arg_at g (optind g))"
  shows "progresses g (getopt_next os lopts False g)"
  using getopt_next_moves_on [OF assms, of os lopts] moves_on_progresses [OF assms(1), of "getopt_next os lopts False g"]
  by (auto simp: progresses_def)

lemma getopt_option_progresses:
  assumes "getopt_ok g" and "optnext g = None" and "optind g < argc g" and "is_option (arg_at g (optind g))"
  shows "progresses g (getopt_option os lopts False g)"
proof -
  let ?a = "arg_at g (optind g)"
  consider (dashes) "?a = ''--''" | (long) "?a \<noteq> ''--''" "lopts \<noteq> None \<and> char_at ?a 1 = CHR ''-''"
    | (short) "?a \<noteq> ''--''" "\<not> (lopts \<noteq> None \<and> char_at ?a 1 = CHR ''-'')" by blast
  then show ?thesis
  proof cases
    case dashes
    then show ?thesis by (simp add: getopt_option_def progresses_def)
  next
    case long
    obtain rv h b where r: "ya_getopt_longopts (drop 2 ?a) os (the lopts) 0 False g = (rv, h, b)"
      by (metis prod_cases3)
    with longopts_moves_on [OF assms(2,3), of "drop 2 ?a" os "the lopts" 0]
    have "progresses g (rv, h)" by (intro moves_on_progresses [OF assms(1)]) simp
    moreover have "getopt_option os lopts False g = (rv, h)" using long r by (simp add: getopt_option_def)
    ultimately show ?thesis by simp
  next
    case short
    then have "getopt_option os lopts False g = getopt_next os lopts False g"
      by (auto simp: getopt_option_def)
    with getopt_next_progresses [of g] assms show ?thesis by simp
  qed
qed


text \<open>Jumping over the non-options leaves what is to do.\<close>

lemma jump_keeps:
  assumes "getopt_ok g" and "optnext g = None" and "perm_start g = 0" and "optind g < j" and "j < argc g"
  shows "getopt_ok (g\<lparr>perm_start := optind g, perm_end := j, optind := j\<rparr>)"
    and "todo (g\<lparr>perm_start := optind g, perm_end := j, optind := j\<rparr>) = todo g"
proof -
  have "1 \<le> optind g" using assms(1) by (simp add: getopt_ok_def)
  with assms show "getopt_ok (g\<lparr>perm_start := optind g, perm_end := j, optind := j\<rparr>)"
    by (simp add: getopt_ok_def)
  define a b where "a = nat (optind g)" and "b = nat j"
  then have ab: "optind g = int a" "j = int b" "a < b" "1 \<le> a" using \<open>1 \<le> optind g\<close> assms(4) by auto
  have "drop a (argv g) = take (b - a) (drop a (argv g)) @ drop b (argv g)"
    using ab(3) append_take_drop_id [of "b - a" "drop a (argv g)"] by simp
  then have "arg_weight (take (b - a) (drop a (argv g))) + arg_weight (drop b (argv g)) = arg_weight (drop a (argv g))"
    by (metis arg_weight_simps(3))
  moreover have "nat (int b - int a) = b - a" by simp
  ultimately show "todo (g\<lparr>perm_start := optind g, perm_end := j, optind := j\<rparr>) = todo g"
    using assms(2,3) ab(1,2,4) by (simp add: todo_def pending_def rest_args_def)
qed

lemma ya_getopt_internal_progresses:
  assumes "getopt_ok g"
  shows "progresses g (ya_getopt_internal env os lopts False g)"
proof -
  let ?h = "getopt_prepare env os g" and ?r = "ya_getopt_internal env os lopts False g"
  let ?k = "\<lambda>j. ?h\<lparr>perm_start := optind ?h, perm_end := j, optind := j\<rparr>"
  note keep = getopt_prepare_keeps [OF assms, of env os]
  have ok: "getopt_ok ?h" and todo: "todo ?h = todo g" and ms: "mset (argv ?h) = mset (argv g)" using keep by blast+
  have lift: "progresses g p" if "progresses ?h p" for p using that todo ms by (simp add: progresses_def)
  have stop: "progresses g (-1, h')" if "argv h' = argv ?h" for h' using that ms by (simp add: progresses_def)
  consider (over) "argc ?h \<le> optind ?h" | (short) "optind ?h < argc ?h" "optnext ?h \<noteq> None"
    | (opt) "optind ?h < argc ?h" "optnext ?h = None" "is_option (arg_at ?h (optind ?h))"
    | (nonopt) "optind ?h < argc ?h" "optnext ?h = None" "\<not> is_option (arg_at ?h (optind ?h))"
    by linarith
  then show ?thesis
  proof cases
    case over
    then show ?thesis by (simp add: ya_getopt_internal_def Let_def stop)
  next
    case short
    with getopt_next_progresses [OF ok, of "skip_prefix os" lopts] show ?thesis
      by (auto simp: ya_getopt_internal_def Let_def intro: lift)
  next
    case opt
    with getopt_option_progresses [OF ok, of "skip_prefix os" lopts] show ?thesis
      by (auto simp: ya_getopt_internal_def Let_def intro: lift)
  next
    case nonopt
    then have ps: "perm_start ?h = 0" using keep by blast
    have ix: "1 \<le> optind ?h" using ok by (simp add: getopt_ok_def)
    let ?m = "?h\<lparr>optarg := Some (arg_at ?h (optind ?h)), optind := optind ?h + 1, perm_start := 0\<rparr>"
    have "moves_on ?h ?m" using nonopt ps by (simp add: moves_on_def)
    then have operand: "progresses g (1, ?m)" by (intro lift moves_on_progresses [OF ok]) simp
    have jump: "progresses g (getopt_option (skip_prefix os) lopts False (?k j))"
      if "next_option ?h (optind ?h + 1) = Some j" for j
    proof -
      have j: "optind ?h < j" "j < argc ?h" "is_option (arg_at ?h j)" using next_option_SomeD [OF that] by auto
      have "getopt_ok (?k j)" "todo (?k j) = todo ?h" using ok nonopt j ix ps by (simp_all add: jump_keeps)
      with getopt_option_progresses [of "?k j" "skip_prefix os" lopts] nonopt j ms todo show ?thesis
        by (simp add: progresses_def arg_at_def argc_def)
    qed
    show ?thesis
      using nonopt operand jump stop
      by (cases "next_option ?h (optind ?h + 1)") (simp_all add: ya_getopt_internal_def Let_def)
  qed
qed


lemma getopt_init_ok: "args \<noteq> [] \<Longrightarrow> \<forall>a \<in> set args. NUL \<notin> set a \<Longrightarrow> getopt_ok (getopt_init args)"
  by (cases args) (auto simp: getopt_ok_def getopt_init_def argc_def)

subsection \<open>The interface to loops over the options\<close>

text \<open>
  What a loop that calls the parser until it returns -1 relies on: a measure that every other
  call decreases. The rule is the induction such a loop is reasoned with.
\<close>

locale option_parser =
  fixes call :: "'s \<Rightarrow> int \<times> 's"
    and ok :: "'s \<Rightarrow> bool"
    and left :: "'s \<Rightarrow> nat"
  assumes call_ok: "ok s \<Longrightarrow> call s = (r, s') \<Longrightarrow> r \<noteq> -1 \<Longrightarrow> ok s'"
    and call_left: "ok s \<Longrightarrow> call s = (r, s') \<Longrightarrow> r \<noteq> -1 \<Longrightarrow> left s' < left s"
begin

lemma call_induct [consumes 1, case_names call]:
  assumes "ok s"
    and step: "\<And>s. ok s \<Longrightarrow> (\<And>r s'. call s = (r, s') \<Longrightarrow> r \<noteq> -1 \<Longrightarrow> ok s' \<Longrightarrow> P s') \<Longrightarrow> P s"
  shows "P s"
  using assms(1)
proof (induction "left s" arbitrary: s rule: less_induct)
  case less
  show ?case
    by (rule step [OF less.prems]) (use less call_ok call_left in blast)
qed

end

interpretation opt: option_parser "ya_getopt_long env optstring longopts" getopt_ok todo
  for env optstring longopts
proof
  fix g g' :: getopt and r :: int
  assume g: "getopt_ok g" "ya_getopt_long env optstring longopts g = (r, g')" "r \<noteq> -1"
  with ya_getopt_internal_progresses [OF g(1), of env optstring "Some longopts"]
  show "getopt_ok g'" "todo g' < todo g" by (simp_all add: progresses_def ya_getopt_long_def)
qed

subsection \<open>The theorems\<close>

text \<open>
  C18. Equivalence of the in-place permutation with a rotation: when a block \<open>bs\<close> of
  non-options stands before a block \<open>cs\<close> of options that was just parsed, the two nested
  loops of \<^verbatim>\<open>ya_getopt_internal\<close> exchange the blocks and keep the order inside each, for
  blocks of any length, and the index is moved to the first of the non-options.
\<close>

theorem permute_rotates:
  assumes "as \<noteq> []"
    and "argv g = as @ bs @ cs @ ds"
    and "perm_start g = int (length as)" and "perm_end g = int (length (as @ bs))"
    and "optind g = int (length (as @ bs @ cs))"
  shows "permute g = g\<lparr>argv := as @ cs @ bs @ ds, optind := int (length (as @ cs)),
    perm_start := 0, perm_end := int (length as) - 1\<rparr>"
proof -
  have "permute_loop (int (length as)) (int (length (as @ bs))) (int (length (as @ bs @ cs)) - 1) (as @ bs @ cs @ ds) =
      (int (length as) - 1, as @ cs @ bs @ ds)"
    by (rule permute_loop_rotate) simp_all
  moreover have "\<not> int (length as) + int (length cs) \<le> 0" using assms(1) by (cases as) simp_all
  ultimately show ?thesis using assms by (simp add: permute_def Let_def)
qed

theorem permute_rotates_witness:
  "permute ((getopt_init [''p'', ''x'', ''y'', ''-a'', ''1'', ''z''])\<lparr>perm_start := 1, perm_end := 3, optind := 5\<rparr>) =
   (getopt_init [''p'', ''-a'', ''1'', ''x'', ''y'', ''z''])\<lparr>optind := 3, perm_start := 0, perm_end := 0\<rparr>"
  using permute_rotates [of "[''p'']"
    "(getopt_init [''p'', ''x'', ''y'', ''-a'', ''1'', ''z''])\<lparr>perm_start := 1, perm_end := 3, optind := 5\<rparr>"
    "[''x'', ''y'']" "[''-a'', ''1'']" "[''z'']"]
  by (simp add: getopt_init_def)

text \<open>
  C24. Progress of the option parser: from a state between two calls, a call of
  \<^verbatim>\<open>ya_getopt_long\<close> only permutes the arguments (none is lost or made up), and unless it ends
  the parsing it leaves such a state again with strictly less to parse, whatever the option
  tables. A loop that calls it until it returns -1 therefore ends.
\<close>

theorem ya_getopt_long_progress:
  assumes "getopt_ok g" and "ya_getopt_long env optstring longopts g = (r, g')"
  shows "mset (argv g') = mset (argv g) \<and> (r = -1 \<or> getopt_ok g' \<and> todo g' < todo g)"
  using ya_getopt_internal_progresses [OF assms(1), of env optstring "Some longopts"] assms(2)
  by (simp add: progresses_def ya_getopt_long_def)

theorem ya_getopt_long_progress_witness:
  "\<exists>r g'. ya_getopt_long False ''ab:'' [] (getopt_init [''p'', ''x'', ''-ab'', ''1'']) = (r, g') \<and>
     mset (argv g') = mset [''p'', ''x'', ''-ab'', ''1''] \<and>
     (r = -1 \<or> getopt_ok g' \<and> todo g' < todo (getopt_init [''p'', ''x'', ''-ab'', ''1'']))"
proof -
  let ?g = "getopt_init [''p'', ''x'', ''-ab'', ''1'']"
  have "getopt_ok ?g" by (rule getopt_init_ok) simp_all
  moreover obtain r g' where r: "ya_getopt_long False ''ab:'' [] ?g = (r, g')" by fastforce
  ultimately have "mset (argv g') = mset (argv ?g) \<and> (r = -1 \<or> getopt_ok g' \<and> todo g' < todo ?g)"
    by (rule ya_getopt_long_progress)
  moreover have "argv ?g = [''p'', ''x'', ''-ab'', ''1'']" by (simp add: getopt_init_def)
  ultimately show ?thesis using r by metis
qed

text \<open>
  Operands before a double hyphen: when the next argument is an operand and the first option
  after it is the double hyphen, the call ends the parsing with the index behind the double hyphen
  and the argument vector as it was, so the operands it jumped over lie before the index, where
  the caller does not look for them.
\<close>

theorem double_hyphen_skips_operands:
  assumes "argv g = prog # as @ ''--'' # bs" and "as \<noteq> []" and "\<forall>a \<in> set as. \<not> is_option a"
    and "optind g = 1" and "optnext g = None" and "perm_start g = 0" and "posixly_correct g = -1"
    and "char_at optstring 0 \<noteq> CHR ''+''" and "char_at optstring 0 \<noteq> CHR ''-''"
  shows "\<exists>g'. ya_getopt_long False optstring longopts g = (-1, g') \<and> argv g' = argv g \<and>
    rest_args g' = bs \<and> take (nat (optind g')) (argv g') = prog # as @ [''--'']"
proof -
  define h where "h = getopt_prepare False optstring g"
  have h: "argv h = argv g" "optind h = 1" "optnext h = None" "handle_nonopt_argv h = False" "posixly_correct h = 0"
    using assms by (simp_all add: h_def getopt_prepare_def check_gnu_extension_def Let_def)
  have nxt: "next_option h (int (Suc n)) = Some (int (Suc (length as)))" if "n \<le> length as" for n
    using that
  proof (induction n rule: inc_induct)
    case base
    have "arg_at h (int (Suc (length as))) = ''--''" "int (Suc (length as)) < argc h"
      using h(1) assms(1) by (simp_all add: arg_at_def argc_def nat_add_distrib)
    then show ?case by (subst next_option.simps) (simp add: is_option_def char_at_def)
  next
    case (step n)
    have "\<not> is_option (arg_at h (int (Suc n)))" "int (Suc n) < argc h"
      using step h(1) assms(1,3) by (simp_all add: arg_at_def argc_def nth_append)
    with step.IH show ?case by (subst next_option.simps) (simp add: add.commute)
  qed
  have first: "\<not> is_option (arg_at h 1)" "1 < argc h" using assms(1-3) h(1)
    by (cases as; simp add: arg_at_def argc_def)+
  have at: "arg_at (h\<lparr>perm_start := 1, perm_end := i, optind := i\<rparr>) (int (Suc (length as))) = ''--''" for i
    using assms(1) h(1) by (simp add: arg_at_def nat_add_distrib)
  have "next_option h 2 = Some (int (Suc (length as)))"
    using nxt [of 1] assms(2) by (cases as) simp_all
  with h first at have "ya_getopt_long False optstring longopts g =
      (-1, h\<lparr>perm_start := 1, perm_end := int (Suc (length as)), optind := int (Suc (length as)) + 1\<rparr>)"
    unfolding ya_getopt_long_def ya_getopt_internal_def Let_def h_def [symmetric]
    by (simp add: getopt_option_def)
  then show ?thesis using assms(1) h(1) by (simp add: rest_args_def nat_add_distrib)
qed

theorem double_hyphen_skips_operands_witness:
  "\<exists>g'. ya_getopt_long False ''a'' [] (getopt_init [''p'', ''x'', ''--'', ''y'']) = (-1, g') \<and>
     argv g' = argv (getopt_init [''p'', ''x'', ''--'', ''y'']) \<and>
     rest_args g' = [''y''] \<and> take (nat (optind g')) (argv g') = [''p'', ''x'', ''--'']"
  using double_hyphen_skips_operands [of "getopt_init [''p'', ''x'', ''--'', ''y'']" "''p''" "[''x'']" "[''y'']" "''a''" "[]"]
  by (simp add: getopt_init_def is_option_def char_at_def)

end
