(* ===== verification/LoadTestArgs.thy ===== *)
theory LoadTestArgs
  imports Getopt
begin

text \<open>
  The command line of the load test (\<^verbatim>\<open>loadtest/loadtest.cc\<close>, first part): \<^verbatim>\<open>strtoull\<close>, the
  configuration, \<^verbatim>\<open>show_help\<close> and \<^verbatim>\<open>parse_args\<close>, a loop over the calls of the option parser.
  Ending the process is the value \<open>Inl\<close> of the exit status. The reference it is compared
  with reads a list of options one by one; a round trip follows for every configuration.
\<close>

subsection \<open>strtoull\<close>

definition is_space :: "char \<Rightarrow> bool" where
  "is_space c \<longleftrightarrow> c = CHR '' '' \<or> c \<in> {CHR 0x09, CHR 0x0A, CHR 0x0B, CHR 0x0C, CHR 0x0D}"

definition is_digit :: "char \<Rightarrow> bool" where
  "is_digit c \<longleftrightarrow> 48 \<le> (of_char c :: nat) \<and> (of_char c :: nat) \<le> 57"

definition digits_value :: "string \<Rightarrow> nat" where
  "digits_value s = foldl (\<lambda>n c. 10 * n + (of_char c - 48)) 0 s"

definition ULLONG_MAX :: nat where "ULLONG_MAX = 2 ^ 64 - 1"

text \<open>\<^verbatim>\<open>strtoull(s, nullptr, 10)\<close>: a minus sign negates modulo \<open>2^64\<close>, an overflow gives the maximum.\<close>

definition strtoull :: "string \<Rightarrow> 64 word" where
  "strtoull s =
     (let t = dropWhile is_space s;
          neg = (char_at t 0 = CHR ''-'');
          u = (if neg \<or> char_at t 0 = CHR ''+'' then tl t else t);
          n = digits_value (takeWhile is_digit u)
      in if ULLONG_MAX < n then of_nat ULLONG_MAX else if neg then - of_nat n else of_nat n)"

subsection \<open>Config\<close>

datatype ClientType = NoClient | TCP | SSL

record Config =
  client_type :: ClientType
  n_attempts :: "64 word"
  n_threads :: "64 word"
  run_server_opt :: bool

definition default_config :: Config where
  "default_config = \<lparr> client_type = NoClient, n_attempts = 1, n_threads = 1, run_server_opt = False \<rparr>"

definition EXIT_SUCCESS :: int where "EXIT_SUCCESS = 0"
definition EXIT_FAILURE :: int where "EXIT_FAILURE = 1"

subsection \<open>show\_help and parse\_args\<close>

text \<open>\<^verbatim>\<open>fprintf(stderr, ...)\<close>\<close>

definition eprint :: "string \<Rightarrow> getopt \<Rightarrow> getopt" where
  "eprint msg g = g\<lparr>messages := messages g @ [msg @ lf]\<rparr>"

definition show_help :: "getopt \<Rightarrow> (int + unit) \<times> getopt" where
  "show_help g =
     (let g = eprint ''Usage: neblina-load-test [--tcp|--ssl] [--attempts N] [--threads N] [--run-server]'' g;
          g = eprint ''  -t, --tcp          Use TCP client'' g;
          g = eprint ''  -s, --ssl          Use SSL client'' g;
          g = eprint ''  -a, --attempts     Number of attempts (default 1)'' g;
          g = eprint ''  -n, --threads      Number of threads  (default 1)'' g;
          g = eprint ''  -r, --run-server   Execute server'' g
      in (Inl EXIT_FAILURE, g))"

definition long_opts :: "longopt list" where
  "long_opts =
     [\<lparr> lo_name = ''tcp'', lo_has_arg = ya_no_argument, lo_flag = None, lo_val = c_ord (CHR ''t'') \<rparr>,
      \<lparr> lo_name = ''ssl'', lo_has_arg = ya_no_argument, lo_flag = None, lo_val = c_ord (CHR ''s'') \<rparr>,
      \<lparr> lo_name = ''attempts'', lo_has_arg = ya_required_argument, lo_flag = None, lo_val = c_ord (CHR ''a'') \<rparr>,
      \<lparr> lo_name = ''threads'', lo_has_arg = ya_required_argument, lo_flag = None, lo_val = c_ord (CHR ''n'') \<rparr>,
      \<lparr> lo_name = ''run-server'', lo_has_arg = ya_required_argument, lo_flag = None, lo_val = c_ord (CHR ''r'') \<rparr>,
      \<lparr> lo_name = ''help'', lo_has_arg = ya_no_argument, lo_flag = None, lo_val = c_ord (CHR ''h'') \<rparr>]"

definition set_client_type :: "ClientType \<Rightarrow> Config \<Rightarrow> getopt \<Rightarrow> (int + Config) \<times> getopt" where
  "set_client_type ct cfg g =
     (if client_type cfg \<noteq> NoClient
      then (Inl EXIT_FAILURE, eprint ''Only one of --tcp or --ssl may be specified'' g)
      else (Inr (cfg\<lparr>client_type := ct\<rparr>), g))"

text \<open>The \<^verbatim>\<open>switch\<close> on the option.\<close>

definition parse_option :: "int \<Rightarrow> Config \<Rightarrow> getopt \<Rightarrow> (int + Config) \<times> getopt" where
  "parse_option opt cfg g =
     (if opt = c_ord (CHR ''t'') then set_client_type TCP cfg g
      else if opt = c_ord (CHR ''s'') then set_client_type SSL cfg g
      else if opt = c_ord (CHR ''a'') then (Inr (cfg\<lparr>n_attempts := strtoull (the (optarg g))\<rparr>), g)
      else if opt = c_ord (CHR ''n'') then (Inr (cfg\<lparr>n_threads := strtoull (the (optarg g))\<rparr>), g)
      else if opt = c_ord (CHR ''r'') then (Inr (cfg\<lparr>run_server_opt := True\<rparr>), g)
      else if opt = c_ord (CHR ''?'') then (Inr cfg, g)
      else
        (case show_help g of
           (Inl status, g') \<Rightarrow> (Inl status, g')
         | (Inr _, g') \<Rightarrow> (Inl (if opt = c_ord (CHR ''h'') then EXIT_SUCCESS else EXIT_FAILURE), g')))"

partial_function (option) parse_loop ::
  "bool \<Rightarrow> Config \<Rightarrow> getopt \<Rightarrow> ((int + Config) \<times> getopt) option"
where
  "parse_loop env cfg g =
     (case ya_getopt_long env ''tsa:n:rh'' long_opts g of (opt, g1) \<Rightarrow>
        if opt = -1 then Some (Inr cfg, g1)
        else
          (case parse_option opt cfg g1 of
             (Inl status, g2) \<Rightarrow> Some (Inl status, g2)
           | (Inr cfg', g2) \<Rightarrow> parse_loop env cfg' g2))"

text \<open>\<open>None\<close> is a loop that does not end; the process may end in \<^verbatim>\<open>parse_args\<close> itself.\<close>

definition parse_args :: "bool \<Rightarrow> string list \<Rightarrow> ((int + Config) \<times> getopt) option" where
  "parse_args env args =
     (case parse_loop env default_config (getopt_init args) of
        None \<Rightarrow> None
      | Some (Inl status, g) \<Rightarrow> Some (Inl status, g)
      | Some (Inr cfg, g) \<Rightarrow>
          if client_type cfg = NoClient
          then Some (Inl EXIT_FAILURE, eprint ''Error: one of --tcp or --ssl is required'' g)
          else Some (Inr cfg, g))"

subsection \<open>The loop ends\<close>

lemma parse_option_state:
  "parse_option opt cfg g = (Inr cfg', g') \<Longrightarrow> g' = g"
  by (auto simp: parse_option_def set_client_type_def show_help_def Let_def split: if_splits)

lemma parse_option_status:
  "parse_option opt cfg g = (Inl status, g') \<Longrightarrow> status = EXIT_FAILURE"
  by (auto simp: parse_option_def set_client_type_def show_help_def Let_def split: if_splits)

lemma parse_loop_returns: "getopt_ok g \<Longrightarrow> \<exists>res. parse_loop env cfg g = Some res"
proof (induction arbitrary: cfg rule: opt.call_induct [where env = env and optstring = "''tsa:n:rh''" and longopts = long_opts])
  case (call g)
  obtain opt g1 where o: "ya_getopt_long env ''tsa:n:rh'' long_opts g = (opt, g1)" by fastforce
  show ?case
  proof (cases "opt = -1")
    case False
    have IH: "\<exists>res. parse_loop env c g1 = Some res" for c
      using call(2) [OF o False] opt.call_ok [OF call(1) o False] by blast
    obtain r g2 where p: "parse_option opt cfg g1 = (r, g2)" by fastforce
    show ?thesis
    proof (cases r)
      case (Inr c)
      with p parse_option_state have "g2 = g1" by blast
      with p o False Inr IH [of c] show ?thesis by (subst parse_loop.simps) simp
    qed (use p o False in \<open>subst parse_loop.simps, simp\<close>)
  qed (use o in \<open>subst parse_loop.simps, simp\<close>)
qed


lemma parse_loop_status:
  assumes "parse_loop env cfg g = Some (Inl status, g')"
  shows "status = EXIT_FAILURE"
proof -
  have "\<forall>st. fst (Inl status :: int + Config, g') = Inl st \<longrightarrow> st = EXIT_FAILURE"
    by (rule parse_loop.raw_induct [where P = "\<lambda>e c g r. \<forall>st. fst r = Inl st \<longrightarrow> st = EXIT_FAILURE", OF _ assms])
      (fastforce split: prod.splits if_splits sum.splits dest: parse_option_status)
  then show ?thesis by simp
qed

subsection \<open>Reading one option\<close>

text \<open>
  A state between two calls in front of the arguments \<open>rest\<close>, with no operand pending.
\<close>

definition at_args :: "getopt \<Rightarrow> string list \<Rightarrow> string list \<Rightarrow> bool" where
  "at_args g pre rest \<longleftrightarrow> argv g = pre @ rest \<and> optind g = int (length pre) \<and> pre \<noteq> [] \<and>
     optnext g = None \<and> perm_start g = 0"

lemma char_at_Cons [simp]: "char_at (c # s) n = (if n = 0 then c else char_at s (n - 1))"
  by (cases n) (simp_all add: char_at_def)

lemma char_at_Nil [simp]: "char_at '''' n = NUL"
  by (simp add: char_at_def)

lemma at_argsD:
  assumes "at_args g pre (a # rest)"
  shows "arg_at (g\<lparr>optnext := n\<rparr>) (optind g) = a" "arg_at g (optind g) = a" "optnext g = None"
    "optind g + 1 \<le> argc g" "optind g + 1 = argc g \<longleftrightarrow> rest = []"
    "arg_at (g\<lparr>optind := i, optnext := n\<rparr>) (optind g + 1) = arg_at g (optind g + 1)"
    "rest = b # bs \<Longrightarrow> arg_at g (optind g + 1) = b"
  using assms by (simp_all add: at_args_def arg_at_def argc_def nat_add_distrib nth_append)

lemma at_args_advance:
  assumes "at_args g pre (a # rest)" and "argv g' = argv g" and "optnext g' = None" and "perm_start g' = perm_start g"
  shows "optind g' = optind g + 1 \<Longrightarrow> at_args g' (pre @ [a]) rest"
    and "optind g' = optind g + 2 \<Longrightarrow> rest = b # bs \<Longrightarrow> at_args g' (pre @ [a, b]) bs"
  using assms by (simp_all add: at_args_def)

lemma at_args_init: "at_args (getopt_init (prog # args)) [prog] args"
  by (simp add: at_args_def getopt_init_def)

lemma at_args_prepare: "at_args g pre rest \<Longrightarrow>
  at_args (getopt_prepare env os g) pre rest \<and> messages (getopt_prepare env os g) = messages g"
  by (simp add: at_args_def getopt_prepare_def check_gnu_extension_def Let_def)

lemma at_args_end:
  assumes "at_args g pre []"
  shows "\<exists>g'. ya_getopt_long env os lopts g = (-1, g') \<and> messages g' = messages g"
proof -
  have "at_args (getopt_prepare env os g) pre []" "messages (getopt_prepare env os g) = messages g"
    using at_args_prepare [OF assms] by simp_all
  then show ?thesis
    unfolding ya_getopt_long_def ya_getopt_internal_def by (simp add: at_args_def argc_def Let_def)
qed

text \<open>In front of an option the call reads that argument.\<close>

lemma at_args_option:
  assumes "at_args g pre (a # rest)" and "is_option a"
  obtains h where "at_args h pre (a # rest)" and "messages h = messages g"
    and "ya_getopt_long env os lopts g = getopt_option (skip_prefix os) (Some lopts) False h"
proof
  let ?h = "getopt_prepare env os g"
  show h: "at_args ?h pre (a # rest)" and "messages ?h = messages g" using at_args_prepare [OF assms(1)] by simp_all
  have "optind ?h < argc ?h" "optnext ?h = None" "arg_at ?h (optind ?h) = a"
    using h by (simp_all add: at_args_def argc_def arg_at_def)
  with assms(2) show "ya_getopt_long env os lopts g = getopt_option (skip_prefix os) (Some lopts) False ?h"
    by (simp add: ya_getopt_long_def ya_getopt_internal_def Let_def)
qed

text \<open>A short option alone in its argument.\<close>

lemma short_flag:
  assumes "at_args h pre ([CHR ''-'', c] # rest)" and "c \<noteq> CHR ''-''"
    and "strchr os c = Some o'" and "char_at o' 1 \<noteq> CHR '':''"
  shows "\<exists>g'. getopt_option os (Some lopts) False h = (c_ord c, g') \<and> at_args g' (pre @ [[CHR ''-'', c]]) rest \<and>
    optarg g' = None \<and> messages g' = messages h"
proof -
  note d = at_argsD [OF assms(1)]
  let ?g = "h\<lparr>optarg := None, optnext := None, optind := optind h + 1\<rparr>"
  have "getopt_option os (Some lopts) False h = (c_ord c, ?g)"
    using assms(2-4) d(1-3) by (simp add: getopt_option_def getopt_next_def ya_getopt_shortopts_def Let_def)
  moreover have "at_args ?g (pre @ [[CHR ''-'', c]]) rest" by (rule at_args_advance(1) [OF assms(1)]) simp_all
  ultimately show ?thesis by simp
qed

text \<open>A short option with its argument in the next place, whatever that argument is.\<close>

lemma short_value:
  assumes "at_args h pre ([CHR ''-'', c] # v # rest)" and "c \<noteq> CHR ''-''"
    and "strchr os c = Some o'" and "char_at o' 1 = CHR '':''" and "char_at o' 2 \<noteq> CHR '':''"
  shows "\<exists>g'. getopt_option os (Some lopts) False h = (c_ord c, g') \<and> at_args g' (pre @ [[CHR ''-'', c], v]) rest \<and>
    optarg g' = Some v \<and> messages g' = messages h"
proof -
  note d = at_argsD [OF assms(1)]
  let ?g = "h\<lparr>optnext := None, optarg := Some v, optind := optind h + 2\<rparr>"
  have "getopt_option os (Some lopts) False h = (c_ord c, ?g)"
    using assms(2-5) d by (simp add: getopt_option_def getopt_next_def ya_getopt_shortopts_def Let_def)
  moreover have "at_args ?g (pre @ [[CHR ''-'', c], v]) rest" by (rule at_args_advance(2) [OF assms(1)]) simp_all
  ultimately show ?thesis by simp
qed


subsection \<open>The reference\<close>

text \<open>
  The options as a user writes them: \<open>long\<close> tells the spelling. \<open>RunServerArg\<close> is the
  long form of the server option, which takes the argument that follows it.
\<close>

datatype item =
    UseTcp bool | UseSsl bool | NAttempts bool string | NThreads bool string | RunServer | RunServerArg string

fun render_item :: "item \<Rightarrow> string list" where
  "render_item (UseTcp long) = [if long then ''--tcp'' else ''-t'']"
| "render_item (UseSsl long) = [if long then ''--ssl'' else ''-s'']"
| "render_item (NAttempts long v) = [if long then ''--attempts'' else ''-a'', v]"
| "render_item (NThreads long v) = [if long then ''--threads'' else ''-n'', v]"
| "render_item RunServer = [''-r'']"
| "render_item (RunServerArg v) = [''--run-server'', v]"

fun item_value :: "item \<Rightarrow> string option" where
  "item_value (NAttempts long v) = Some v"
| "item_value (NThreads long v) = Some v"
| "item_value (RunServerArg v) = Some v"
| "item_value _ = None"

fun item_code :: "item \<Rightarrow> int" where
  "item_code (UseTcp long) = c_ord (CHR ''t'')"
| "item_code (UseSsl long) = c_ord (CHR ''s'')"
| "item_code (NAttempts long v) = c_ord (CHR ''a'')"
| "item_code (NThreads long v) = c_ord (CHR ''n'')"
| "item_code RunServer = c_ord (CHR ''r'')"
| "item_code (RunServerArg v) = c_ord (CHR ''r'')"

text \<open>The meaning of one option and of a list of them; \<open>None\<close> is a client type given twice.\<close>

fun apply_item :: "item \<Rightarrow> Config \<Rightarrow> Config option" where
  "apply_item (UseTcp long) cfg = (if client_type cfg = NoClient then Some (cfg\<lparr>client_type := TCP\<rparr>) else None)"
| "apply_item (UseSsl long) cfg = (if client_type cfg = NoClient then Some (cfg\<lparr>client_type := SSL\<rparr>) else None)"
| "apply_item (NAttempts long v) cfg = Some (cfg\<lparr>n_attempts := strtoull v\<rparr>)"
| "apply_item (NThreads long v) cfg = Some (cfg\<lparr>n_threads := strtoull v\<rparr>)"
| "apply_item RunServer cfg = Some (cfg\<lparr>run_server_opt := True\<rparr>)"
| "apply_item (RunServerArg v) cfg = Some (cfg\<lparr>run_server_opt := True\<rparr>)"

fun apply_items :: "item list \<Rightarrow> Config \<Rightarrow> Config option" where
  "apply_items [] cfg = Some cfg"
| "apply_items (i # its) cfg = (case apply_item i cfg of None \<Rightarrow> None | Some cfg' \<Rightarrow> apply_items its cfg')"

lemma long_flag:
  assumes "at_args h pre ((''--'' @ n) # rest)" and "n \<noteq> ''''"
    and "\<And>g. ya_getopt_longopts n os lopts 0 False g =
      (r, g\<lparr>optarg := None, optind := optind g + 1, longindex := Some idx\<rparr>, False)"
  shows "\<exists>g'. getopt_option os (Some lopts) False h = (r, g') \<and> at_args g' (pre @ [''--'' @ n]) rest \<and>
    optarg g' = None \<and> messages g' = messages h"
proof -
  note d = at_argsD [OF assms(1)]
  let ?g = "h\<lparr>optarg := None, optind := optind h + 1, longindex := Some idx\<rparr>"
  have "getopt_option os (Some lopts) False h = (r, ?g)"
    using assms(2,3) d by (simp add: getopt_option_def)
  moreover have "at_args ?g (pre @ [''--'' @ n]) rest"
    by (rule at_args_advance(1) [OF assms(1)]) (simp_all add: d)
  ultimately show ?thesis by simp
qed

lemma long_value:
  assumes "at_args h pre ((''--'' @ n) # v # rest)" and "n \<noteq> ''''"
    and "\<And>g. optind g + 1 \<noteq> argc g \<Longrightarrow> ya_getopt_longopts n os lopts 0 False g =
      (r, g\<lparr>optarg := Some (arg_at g (optind g + 1)), optind := optind g + 2, longindex := Some idx\<rparr>, False)"
  shows "\<exists>g'. getopt_option os (Some lopts) False h = (r, g') \<and> at_args g' (pre @ [''--'' @ n, v]) rest \<and>
    optarg g' = Some v \<and> messages g' = messages h"
proof -
  note d = at_argsD [OF assms(1)]
  let ?g = "h\<lparr>optarg := Some v, optind := optind h + 2, longindex := Some idx\<rparr>"
  have "getopt_option os (Some lopts) False h = (r, ?g)"
    using assms(2,3) d by (simp add: getopt_option_def)
  moreover have "at_args ?g (pre @ [''--'' @ n, v]) rest"
    by (rule at_args_advance(2) [OF assms(1)]) (simp_all add: d)
  ultimately show ?thesis by simp
qed

lemmas long_table = long_opts_def longopt_found_def Let_def arg_at_def

lemma long_flags:
  "ya_getopt_longopts ''tcp'' os long_opts 0 False g =
     (c_ord (CHR ''t''), g\<lparr>optarg := None, optind := optind g + 1, longindex := Some 0\<rparr>, False)"
  "ya_getopt_longopts ''ssl'' os long_opts 0 False g =
     (c_ord (CHR ''s''), g\<lparr>optarg := None, optind := optind g + 1, longindex := Some 1\<rparr>, False)"
  by (simp_all add: long_table)

lemma long_values:
  assumes "optind g + 1 \<noteq> argc g"
  shows "ya_getopt_longopts ''attempts'' os long_opts 0 False g =
     (c_ord (CHR ''a''), g\<lparr>optarg := Some (arg_at g (optind g + 1)), optind := optind g + 2, longindex := Some 2\<rparr>, False)"
  and "ya_getopt_longopts ''threads'' os long_opts 0 False g =
     (c_ord (CHR ''n''), g\<lparr>optarg := Some (arg_at g (optind g + 1)), optind := optind g + 2, longindex := Some 3\<rparr>, False)"
  and "ya_getopt_longopts ''run-server'' os long_opts 0 False g =
     (c_ord (CHR ''r''), g\<lparr>optarg := Some (arg_at g (optind g + 1)), optind := optind g + 2, longindex := Some 4\<rparr>, False)"
  using assms by (simp_all add: long_table)

lemma item_option:
  assumes "at_args h pre (render_item i @ rest)"
  shows "\<exists>g'. getopt_option ''tsa:n:rh'' (Some long_opts) False h = (item_code i, g') \<and>
    at_args g' (pre @ render_item i) rest \<and> optarg g' = item_value i \<and> messages g' = messages h"
  using assms
  by (cases i)
    (auto intro!: short_flag short_value long_flag [of h pre "''tcp''" rest, simplified] long_flag [of h pre "''ssl''" rest, simplified]
      long_value [of h pre "''attempts''", simplified] long_value [of h pre "''threads''", simplified]
      long_value [of h pre "''run-server''", simplified] simp: strchr_def long_flags long_values split: if_splits)


lemma item_call:
  assumes "at_args g pre (render_item i @ rest)"
  shows "\<exists>g'. ya_getopt_long env ''tsa:n:rh'' long_opts g = (item_code i, g') \<and>
    at_args g' (pre @ render_item i) rest \<and> optarg g' = item_value i \<and> messages g' = messages g"
proof -
  obtain a as where a: "render_item i = a # as" "is_option a"
    by (cases i) (auto simp: is_option_def)
  with assms have "at_args g pre (a # as @ rest)" by simp
  then obtain h where h: "at_args h pre (a # as @ rest)" "messages h = messages g"
    "ya_getopt_long env ''tsa:n:rh'' long_opts g = getopt_option (skip_prefix ''tsa:n:rh'') (Some long_opts) False h"
    by (rule at_args_option [OF _ a(2)])
  moreover have "skip_prefix ''tsa:n:rh'' = ''tsa:n:rh''" by (simp add: skip_prefix_def)
  ultimately show ?thesis using item_option [of h pre i rest] a(1) by simp
qed

lemma parse_option_item:
  assumes "optarg g = item_value i"
  shows "parse_option (item_code i) cfg g = (case apply_item i cfg of
      Some cfg' \<Rightarrow> (Inr cfg', g)
    | None \<Rightarrow> (Inl EXIT_FAILURE, eprint ''Only one of --tcp or --ssl may be specified'' g))"
  using assms by (cases i) (simp_all add: parse_option_def set_client_type_def c_ord_def)

lemma item_code_ge: "item_code i \<noteq> -1"
  by (cases i) (simp_all add: c_ord_def)

lemma parse_loop_items:
  assumes "at_args g pre (concat (map render_item its))"
  shows "\<exists>g'. parse_loop env cfg g = Some (case apply_items its cfg of
      Some cfg' \<Rightarrow> (Inr cfg', g')
    | None \<Rightarrow> (Inl EXIT_FAILURE, eprint ''Only one of --tcp or --ssl may be specified'' g')) \<and> messages g' = messages g"
  using assms
proof (induction its arbitrary: g pre cfg)
  case Nil
  then obtain g' where "ya_getopt_long env ''tsa:n:rh'' long_opts g = (-1, g')" "messages g' = messages g"
    using at_args_end by (metis concat.simps(1) list.simps(8))
  then show ?case by (subst parse_loop.simps) simp
next
  case (Cons i its)
  then obtain g1 where g1: "ya_getopt_long env ''tsa:n:rh'' long_opts g = (item_code i, g1)"
    "at_args g1 (pre @ render_item i) (concat (map render_item its))" "optarg g1 = item_value i" "messages g1 = messages g"
    using item_call [of g pre i "concat (map render_item its)" env] by auto
  note p = parse_option_item [OF g1(3), of cfg]
  show ?case
  proof (cases "apply_item i cfg")
    case None
    with g1(1,4) p item_code_ge show ?thesis by (subst parse_loop.simps) auto
  next
    case (Some cfg')
    with g1(1) p item_code_ge have "parse_loop env cfg g = parse_loop env cfg' g1" by (subst parse_loop.simps) simp
    with Cons.IH [OF g1(2), of cfg'] g1(4) Some show ?thesis by simp
  qed
qed

subsection \<open>Numbers\<close>

lemma of_char_digit: "d < 10 \<Longrightarrow> (of_char (digit d) :: nat) = 48 + d"
  by (simp add: digit_def)

lemma digits_value_snoc: "digits_value (s @ [c]) = 10 * digits_value s + (of_char c - 48)"
  by (simp add: digits_value_def)

lemma show_nat_digits: "\<forall>c \<in> set (show_nat n). is_digit c"
proof (induction n rule: show_nat.induct)
  case (1 n)
  then show ?case by (subst show_nat.simps) (auto simp: is_digit_def of_char_digit)
qed

lemma digits_value_show_nat: "digits_value (show_nat n) = n"
proof (induction n rule: show_nat.induct)
  case (1 n)
  show ?case
  proof (cases "n < 10")
    case True
    then show ?thesis by (subst show_nat.simps) (simp add: digits_value_def of_char_digit)
  next
    case False
    with 1 have "digits_value (show_nat (n div 10) @ [digit (n mod 10)]) = n"
      by (simp only: digits_value_snoc of_char_digit) simp
    with False show ?thesis by (subst show_nat.simps) simp
  qed
qed

lemma strtoull_show_nat:
  assumes "n < 2 ^ 64"
  shows "strtoull (show_nat n) = of_nat n"
proof -
  obtain c s where cs: "show_nat n = c # s" using show_nat_nonempty [of n] by (cases "show_nat n") auto
  have "is_digit c" using show_nat_digits [of n] cs by simp
  then have "\<not> is_space c" "c \<noteq> CHR ''-''" "c \<noteq> CHR ''+''" by (auto simp: is_digit_def is_space_def)
  moreover have "takeWhile is_digit (show_nat n) = show_nat n" using show_nat_digits [of n] by (simp add: takeWhile_eq_all_conv)
  ultimately show ?thesis
    using assms digits_value_show_nat [of n] by (simp add: strtoull_def cs ULLONG_MAX_def)
qed

lemma strtoull_show_word: "strtoull (show_nat (unat w)) = w" for w :: "64 word"
  by (subst strtoull_show_nat) (use unsigned_less [of w] in simp_all)


text \<open>The long server option at the end of the arguments is an error, which the caller ignores.\<close>

lemma missing_argument:
  assumes "at_args g pre [''--run-server'']"
  shows "\<exists>g'. ya_getopt_long env ''tsa:n:rh'' long_opts g = (c_ord (CHR ''?''), g') \<and>
    at_args g' (pre @ [''--run-server'']) []"
proof -
  obtain h where h: "at_args h pre [''--run-server'']"
    "ya_getopt_long env ''tsa:n:rh'' long_opts g = getopt_option (skip_prefix ''tsa:n:rh'') (Some long_opts) False h"
    by (rule at_args_option [OF assms]) (auto simp: is_option_def)
  note d = at_argsD [OF h(1)]
  have "\<exists>g'. getopt_option (skip_prefix ''tsa:n:rh'') (Some long_opts) False h = (c_ord (CHR ''?''), g') \<and>
      argv g' = argv h \<and> optnext g' = None \<and> perm_start g' = perm_start h \<and> optind g' = optind h + 1"
    using d(2-5) by (simp add: getopt_option_def skip_prefix_def long_opts_def Let_def)
  then show ?thesis using at_args_advance(1) [OF h(1)] h(2) by auto
qed

text \<open>A configuration as arguments.\<close>

definition config_items :: "Config \<Rightarrow> item list" where
  "config_items cfg =
     [case client_type cfg of SSL \<Rightarrow> UseSsl True | _ \<Rightarrow> UseTcp False,
      NAttempts False (show_nat (unat (n_attempts cfg))), NThreads True (show_nat (unat (n_threads cfg)))] @
     (if run_server_opt cfg then [RunServer] else [])"

lemma apply_config_items:
  "client_type cfg \<noteq> NoClient \<Longrightarrow> apply_items (config_items cfg) default_config = Some cfg"
  by (cases cfg; cases "client_type cfg")
    (auto simp: config_items_def default_config_def strtoull_show_word)

lemma parse_args_items:
  "\<exists>g'. parse_args env (prog # concat (map render_item its)) = Some (case apply_items its default_config of
      Some cfg \<Rightarrow> if client_type cfg = NoClient
        then (Inl EXIT_FAILURE, eprint ''Error: one of --tcp or --ssl is required'' g') else (Inr cfg, g')
    | None \<Rightarrow> (Inl EXIT_FAILURE, eprint ''Only one of --tcp or --ssl may be specified'' g')) \<and> messages g' = []"
proof -
  have "messages (getopt_init (prog # concat (map render_item its))) = []" by (simp add: getopt_init_def)
  then show ?thesis
    using parse_loop_items [OF at_args_init [of prog "concat (map render_item its)"], of env default_config]
    by (auto simp: parse_args_def split: option.splits)
qed

subsection \<open>The theorems\<close>

text \<open>
  C26. \<^verbatim>\<open>parse_args\<close> terminates on every command line and is total in its outcome: it returns a
  configuration with a client type, or the process ends with a failure status; no command line,
  one with \<^verbatim>\<open>--help\<close> included, ends it with success.
\<close>

theorem parse_args_returns:
  assumes "args \<noteq> []" and "\<forall>a \<in> set args. NUL \<notin> set a"
  shows "\<exists>res g. parse_args env args = Some (res, g) \<and>
    (case res of Inr cfg \<Rightarrow> client_type cfg \<noteq> NoClient | Inl status \<Rightarrow> status = EXIT_FAILURE)"
proof -
  obtain r g where l: "parse_loop env default_config (getopt_init args) = Some (r, g)"
    using parse_loop_returns [OF getopt_init_ok [OF assms]] by fastforce
  show ?thesis using l parse_loop_status [of env default_config "getopt_init args"]
    by (cases r) (auto simp: parse_args_def)
qed

theorem parse_args_returns_witness:
  "\<exists>res g. parse_args False [''load'', ''x'', ''-h''] = Some (res, g) \<and>
    (case res of Inr cfg \<Rightarrow> client_type cfg \<noteq> NoClient | Inl status \<Rightarrow> status = EXIT_FAILURE)"
  by (rule parse_args_returns) simp_all

text \<open>
  C17. Equivalence of \<^verbatim>\<open>parse_args\<close> with a reference that reads the options from left to right: for
  every sequence of options, short or long, with arbitrary values, the configuration is the one
  the reference computes (a later count overrides an earlier one), and no message is printed; a
  second client type, or none at the end, ends the process with a failure status and one message.
\<close>

theorem parse_args_reference:
  "\<exists>res g. parse_args env (prog # concat (map render_item its)) = Some (res, g) \<and>
    (case apply_items its default_config of
       Some cfg \<Rightarrow> if client_type cfg = NoClient then res = Inl EXIT_FAILURE \<and> length (messages g) = 1
                   else res = Inr cfg \<and> messages g = []
     | None \<Rightarrow> res = Inl EXIT_FAILURE \<and> length (messages g) = 1)"
proof -
  obtain g' where "parse_args env (prog # concat (map render_item its)) = Some (case apply_items its default_config of
      Some cfg \<Rightarrow> if client_type cfg = NoClient
        then (Inl EXIT_FAILURE, eprint ''Error: one of --tcp or --ssl is required'' g') else (Inr cfg, g')
    | None \<Rightarrow> (Inl EXIT_FAILURE, eprint ''Only one of --tcp or --ssl may be specified'' g'))" "messages g' = []"
    using parse_args_items [of env prog its] by blast
  moreover have "length (messages (eprint m g')) = 1" for m using calculation(2) by (simp add: eprint_def)
  ultimately show ?thesis by (cases "apply_items its default_config") (simp_all only: option.simps, auto)
qed

text \<open>
  C25. Round trip of the command line: every configuration with a client type and any 64 bit
  numbers of attempts and threads is what \<^verbatim>\<open>parse_args\<close> reads back from its rendering, through
  decimal printing, the option parser and \<^verbatim>\<open>strtoull\<close>.
\<close>

theorem parse_args_roundtrip:
  assumes "client_type cfg \<noteq> NoClient"
  shows "\<exists>g. parse_args env (prog # concat (map render_item (config_items cfg))) = Some (Inr cfg, g)"
  using parse_args_items [of env prog "config_items cfg"] apply_config_items [OF assms] assms by auto

theorem parse_args_roundtrip_witness:
  "\<exists>g. parse_args False (''load'' # concat (map render_item (config_items
     \<lparr> client_type = SSL, n_attempts = 18446744073709551615, n_threads = 8, run_server_opt = True \<rparr>))) =
     Some (Inr \<lparr> client_type = SSL, n_attempts = 18446744073709551615, n_threads = 8, run_server_opt = True \<rparr>, g)"
  by (rule parse_args_roundtrip) simp

text \<open>
  The long form of the server option takes the argument after it, although the usage text shows
  none: \<^verbatim>\<open>--run-server --tcp\<close> ends with the message that a client type is required, and
  \<^verbatim>\<open>--tcp --run-server\<close> is accepted but does not ask for the server, while the short form does.
\<close>

theorem run_server_option_takes_argument:
  "(\<exists>g. parse_args env [prog, ''--run-server'', ''--tcp''] = Some (Inl EXIT_FAILURE, g)) \<and>
   (\<exists>g. parse_args env [prog, ''--tcp'', ''--run-server''] =
      Some (Inr (default_config\<lparr>client_type := TCP\<rparr>), g)) \<and>
   (\<exists>g. parse_args env [prog, ''--tcp'', ''-r''] =
      Some (Inr (default_config\<lparr>client_type := TCP, run_server_opt := True\<rparr>), g))"
proof (intro conjI)
  show "\<exists>g. parse_args env [prog, ''--run-server'', ''--tcp''] = Some (Inl EXIT_FAILURE, g)"
    using parse_args_items [of env prog "[RunServerArg ''--tcp'']"] by (auto simp: default_config_def)
  show "\<exists>g. parse_args env [prog, ''--tcp'', ''-r''] =
      Some (Inr (default_config\<lparr>client_type := TCP, run_server_opt := True\<rparr>), g)"
    using parse_args_items [of env prog "[UseTcp True, RunServer]"] by (auto simp: default_config_def)
  obtain g1 where g1: "ya_getopt_long env ''tsa:n:rh'' long_opts (getopt_init [prog, ''--tcp'', ''--run-server'']) =
      (c_ord (CHR ''t''), g1)" "at_args g1 ([prog] @ [''--tcp'']) [''--run-server'']"
    using item_call [OF at_args_init [of prog "render_item (UseTcp True) @ [''--run-server'']"], of env] by auto
  obtain g2 where g2: "ya_getopt_long env ''tsa:n:rh'' long_opts g1 = (c_ord (CHR ''?''), g2)"
    "at_args g2 [prog, ''--tcp'', ''--run-server''] []"
    using missing_argument [OF g1(2), of env] by auto
  obtain g3 where g3: "ya_getopt_long env ''tsa:n:rh'' long_opts g2 = (-1, g3)"
    using at_args_end [OF g2(2), of env] by blast
  have "parse_loop env default_config (getopt_init [prog, ''--tcp'', ''--run-server'']) =
      Some (Inr (default_config\<lparr>client_type := TCP\<rparr>), g3)"
    using g1(1) g2(1) g3
    by (subst parse_loop.simps, simp add: parse_option_def set_client_type_def default_config_def c_ord_def)
      (subst parse_loop.simps, simp add: parse_option_def c_ord_def, subst parse_loop.simps, simp)
  then show "\<exists>g. parse_args env [prog, ''--tcp'', ''--run-server''] =
      Some (Inr (default_config\<lparr>client_type := TCP\<rparr>), g)" by (simp add: parse_args_def)
qed

end
