(* ===== verification/Client.thy ===== *)
theory Client
  imports Net
begin

text \<open>
  The client side (\<^verbatim>\<open>client/\<close>): class \<^verbatim>\<open>Client\<close> with the busy-waiting \<^verbatim>\<open>recv_spinlock\<close> and
  \<^verbatim>\<open>recv_future\<close>, \<^verbatim>\<open>TCPClient\<close> and \<^verbatim>\<open>SSLClient\<close>. The steady clock is a parameter, a call that
  returns the time in nanoseconds. What the spinning methods need of the virtual \<^verbatim>\<open>recv\<close> is
  the locale \<open>client_class\<close>, interpreted for both subclasses; \<open>got\<close> observes the bytes
  the client has received so far.
\<close>

subsection \<open>Class Client\<close>

partial_function (option) spin_loop ::
  "(nat \<Rightarrow> (string, 'w) io) \<Rightarrow> ('w \<Rightarrow> int \<times> 'w) \<Rightarrow> int \<Rightarrow> nat \<Rightarrow> string \<Rightarrow> 'w \<Rightarrow>
     ((failure + string option) \<times> 'w) option"
where
  "spin_loop recv now deadline n_bytes buf w =
     (case now w of (t, w1) \<Rightarrow>
        if t < deadline then
          (case recv (n_bytes - length buf) w1 of
             (Inl e, w2) \<Rightarrow> Some (Inl e, w2)
           | (Inr r, w2) \<Rightarrow>
               if r \<noteq> '''' then
                 (if n_bytes \<le> length (buf @ r) then Some (Inr (Some (buf @ r)), w2)
                  else spin_loop recv now deadline n_bytes (buf @ r) w2)
               else spin_loop recv now deadline n_bytes buf w2)
        else Some (Inr None, w1))"

definition recv_spinlock ::
  "(nat \<Rightarrow> (string, 'w) io) \<Rightarrow> ('w \<Rightarrow> int \<times> 'w) \<Rightarrow> nat \<Rightarrow> int \<Rightarrow> (string option, 'w) io" where
  "recv_spinlock recv now n_bytes timeout w =
     (case now w of (start, w1) \<Rightarrow>
        io_loop w1 (spin_loop recv now (start + timeout * 1000000) n_bytes '''' w1))"

definition FUTURE_BUF_SZ :: nat where "FUTURE_BUF_SZ = 16 * 1024"

text \<open>The value of the future, computed by the task the call starts.\<close>

definition recv_future ::
  "(nat \<Rightarrow> (string, 'w) io) \<Rightarrow> ('w \<Rightarrow> int \<times> 'w) \<Rightarrow> int \<Rightarrow> (string, 'w) io" where
  "recv_future recv now ms =
     io_bind (recv_spinlock recv now FUTURE_BUF_SZ ms) (\<lambda>r.
       io_return (case r of Some s \<Rightarrow> s | None \<Rightarrow> ''''))"

text \<open>The default argument of \<^verbatim>\<open>recv_future\<close>, thirty seconds in milliseconds.\<close>

definition future_timeout :: int where "future_timeout = 30000"

subsection \<open>Class TCPClient\<close>

definition client_hints :: addrinfo where
  "client_hints = \<lparr> ai_flags = 0, ai_family = AF_UNSPEC, ai_socktype = SOCK_STREAM,
     ai_protocol = 0, ai_addr = no_addr \<rparr>"

text \<open>A pointer to the address proper, that is the bytes of the structure from there on.\<close>

definition get_in_addr :: "sockaddr \<Rightarrow> string" where
  "get_in_addr sa = (if sa_family sa = AF_INET then drop 2 (sa_data sa) else drop 6 (sa_data sa))"

text \<open>The texts of address and port that the messages hold.\<close>

definition peer_text :: "('w, 'n) net_scheme \<Rightarrow> addrinfo \<Rightarrow> string \<Rightarrow> string" where
  "peer_text nt p sport = net_inet_ntop nt (ai_family p) (get_in_addr (ai_addr p)) @ '':'' @ sport"

text \<open>
  The loop over the addresses; it ends with the address it connected to, or at the end of the list
  (\<open>None\<close>, \<^verbatim>\<open>p == nullptr\<close>).
\<close>

fun connect_loop ::
  "('w, 'z) os_scheme \<Rightarrow> ('w, 'n) net_scheme \<Rightarrow> string \<Rightarrow> addrinfo list \<Rightarrow> ((SOCKET \<times> addrinfo) option, 'w) io" where
  "connect_loop os nt sport [] = io_return None"
| "connect_loop os nt sport (p # ps) =
     io_bind (io_call (net_socket nt (ai_family p) (ai_socktype p) (ai_protocol p))) (\<lambda>sockfd.
       if sockfd = -1 then connect_loop os nt sport ps
       else io_bind (io_do (log_with os (DBG (''client: attempting connection to '' @ peer_text nt p sport)))) (\<lambda>_.
         io_bind (io_call (net_connect nt sockfd (ai_addr p))) (\<lambda>r.
         if r = -1
         then io_bind (io_read (os_errno os)) (\<lambda>e.
           io_bind (io_do (log_with os (DBG (''connect() to '' @ peer_text nt p sport @ '' failed: '' @ os_strerror os e)))) (\<lambda>_.
           io_bind (io_call (os_close os sockfd)) (\<lambda>_. connect_loop os nt sport ps)))
         else io_return (Some (sockfd, p)))))"

definition open_connection ::
  "('w, 'z) os_scheme \<Rightarrow> ('w, 'n) net_scheme \<Rightarrow> string \<Rightarrow> 16 word \<Rightarrow> (SOCKET, 'w) io" where
  "open_connection os nt host port =
     io_bind (io_call (net_getaddrinfo nt (Some (takeWhile (\<lambda>c. c \<noteq> NUL) host))
         (show_nat (unat port)) client_hints)) (\<lambda>(rv, servinfo).
       if rv \<noteq> 0
       then io_bind (io_read (os_errno os)) (\<lambda>e. io_throw (RuntimeError
         (''getaddrinfo: '' @ os_strerror os e @ '' // '' @ net_gai_strerror nt rv)))
       else io_bind (connect_loop os nt (show_nat (unat port)) servinfo) (\<lambda>res. case res of
           None \<Rightarrow> io_throw (RuntimeError ''client: Failed to connect.'')
         | Some (sockfd, p) \<Rightarrow>
             io_bind (io_do (log_with os (DBG (''client: connected to '' @ peer_text nt p (show_nat (unat port)))))) (\<lambda>_.
             io_bind (io_call (\<lambda>w. ((), net_freeaddrinfo nt servinfo w))) (\<lambda>_.
             io_bind (socket_mark_as_nonblocking os sockfd) (\<lambda>_. io_return sockfd)))))"

definition TCPClient_send :: "('w, 'z) os_scheme \<Rightarrow> SOCKET \<Rightarrow> string \<Rightarrow> (unit, 'w) io" where
  "TCPClient_send os fd data w =
     io_loop w (send_loop (os_send os fd data) (send_error os) (length data) 0 w)"

definition TCPClient_recv :: "('w, 'z) os_scheme \<Rightarrow> SOCKET \<Rightarrow> nat \<Rightarrow> (string, 'w) io" where
  "TCPClient_recv os fd n_bytes =
     io_bind (io_call (os_recv os fd n_bytes)) (\<lambda>(r, bytes).
       recv_result os r (overwrite bytes (replicate n_bytes NUL)))"

subsection \<open>Class SSLClient\<close>

text \<open>The OpenSSL calls only the client makes; \<open>sc_new\<close> is \<^verbatim>\<open>SSL_new\<close> on the client's context.\<close>

record 'w sslcli =
  sc_ctx_new :: "'w \<Rightarrow> nat \<times> 'w"
  sc_default_paths :: "nat \<Rightarrow> 'w \<Rightarrow> int \<times> 'w"
  sc_new :: "nat \<Rightarrow> 'w \<Rightarrow> SSL \<times> 'w"
  sc_set_host :: "SSL \<Rightarrow> string \<Rightarrow> 'w \<Rightarrow> int \<times> 'w"
  sc_connect :: "SSL \<Rightarrow> 'w \<Rightarrow> int \<times> 'w"
  sc_get_error :: "SSL \<Rightarrow> int \<Rightarrow> 'w \<Rightarrow> int \<times> 'w"

definition SSL_ERROR_WANT_READ :: int where "SSL_ERROR_WANT_READ = 2"

text \<open>
  \<^verbatim>\<open>SSLClient::initialize_ctx\<close> on the static member \<^verbatim>\<open>ctx_\<close>, under its mutex. The member is set
  before the certificate store is loaded.
\<close>

definition initialize_ctx ::
  "('w, 'c) sslcli_scheme \<Rightarrow> nat option \<Rightarrow> 'w \<Rightarrow> (failure + unit) \<times> nat option \<times> 'w" where
  "initialize_ctx sc ctx w =
     (case ctx of
        Some c \<Rightarrow> (Inr (), Some c, w)
      | None \<Rightarrow>
          (case sc_ctx_new sc w of (c, w1) \<Rightarrow>
           case sc_default_paths sc c w1 of (r, w2) \<Rightarrow>
             (if r = 0 then Inl (NonRecoverableException ''Failed to load system CA store'') else Inr (),
              Some c, w2)))"

text \<open>The handshake: \<^verbatim>\<open>SSL_connect\<close> is repeated while it wants to read.\<close>

partial_function (option) handshake_loop ::
  "('w, 'c) sslcli_scheme \<Rightarrow> SSL \<Rightarrow> 'w \<Rightarrow> 'w option"
where
  "handshake_loop sc ssl w =
     (case sc_connect sc ssl w of (r, w1) \<Rightarrow>
        if r < 0 then
          (case sc_get_error sc ssl r w1 of (err, w2) \<Rightarrow>
             if err = SSL_ERROR_WANT_READ then handshake_loop sc ssl w2 else Some w2)
        else Some w1)"

text \<open>The callback for errors of OpenSSL, which the client defines and never passes on.\<close>

definition sslclient_err :: "('w, 'z) os_scheme \<Rightarrow> string \<Rightarrow> ('a, 'w) io" where
  "sslclient_err os str =
     io_bind (io_do (log_with os (ERR (''ssl client: '' @ str)))) (\<lambda>_.
       io_throw (NonRecoverableException (''ssl server: {}'' @ str)))"

datatype client = TCPClient SOCKET | SSLClient SOCKET SSL

text \<open>
  The constructor, with the static context as state. When \<^verbatim>\<open>initialize_ctx\<close> raises, the base class
  is complete and its destructor closes the socket.
\<close>

definition SSLClient_new ::
  "('w, 'z) os_scheme \<Rightarrow> ('w, 'y) openssl_scheme \<Rightarrow> ('w, 'n) net_scheme \<Rightarrow> ('w, 'c) sslcli_scheme \<Rightarrow>
     string \<Rightarrow> 16 word \<Rightarrow> nat option \<Rightarrow> 'w \<Rightarrow> (failure + client) \<times> nat option \<times> 'w" where
  "SSLClient_new os sl nt sc host port ctx w =
     (case open_connection os nt host port w of
        (Inl e, w1) \<Rightarrow> (Inl e, ctx, w1)
      | (Inr fd, w1) \<Rightarrow>
     (case initialize_ctx sc ctx w1 of
        (Inl e, ctx', w2) \<Rightarrow> (Inl e, ctx', close_socket os fd w2)
      | (Inr _, ctx', w2) \<Rightarrow>
     (case sc_new sc (the ctx') w2 of (ssl, w3) \<Rightarrow>
      case sc_set_host sc ssl (takeWhile (\<lambda>c. c \<noteq> NUL) host) w3 of (_, w4) \<Rightarrow>
      case ssl_set_fd sl ssl fd w4 of (_, w5) \<Rightarrow>
        (case handshake_loop sc ssl w5 of
           None \<Rightarrow> (Inl Diverges, ctx', w5)
         | Some w6 \<Rightarrow> (Inr (SSLClient fd ssl), ctx', w6)))))"

definition TCPClient_new ::
  "('w, 'z) os_scheme \<Rightarrow> ('w, 'n) net_scheme \<Rightarrow> string \<Rightarrow> 16 word \<Rightarrow> (client, 'w) io" where
  "TCPClient_new os nt host port = io_bind (open_connection os nt host port) (\<lambda>fd. io_return (TCPClient fd))"

definition SSLClient_send ::
  "('w, 'z) os_scheme \<Rightarrow> ('w, 'y) openssl_scheme \<Rightarrow> SSL \<Rightarrow> string \<Rightarrow> (unit, 'w) io" where
  "SSLClient_send os sl ssl data w =
     io_loop w (send_loop (ssl_write sl ssl data (c_int (length data))) (send_error os) (length data) 0 w)"

definition SSLClient_recv ::
  "('w, 'z) os_scheme \<Rightarrow> ('w, 'y) openssl_scheme \<Rightarrow> SSL \<Rightarrow> nat \<Rightarrow> (string, 'w) io" where
  "SSLClient_recv os sl ssl n_bytes =
     io_bind (io_call (ssl_read sl ssl (c_int n_bytes))) (\<lambda>(r, bytes).
       recv_result os r (overwrite bytes (replicate n_bytes NUL)))"

subsection \<open>Dynamic dispatch and destruction\<close>

fun client_send ::
  "('w, 'z) os_scheme \<Rightarrow> ('w, 'y) openssl_scheme \<Rightarrow> client \<Rightarrow> string \<Rightarrow> (unit, 'w) io" where
  "client_send os sl (TCPClient fd) = TCPClient_send os fd"
| "client_send os sl (SSLClient fd ssl) = SSLClient_send os sl ssl"

fun client_recv ::
  "('w, 'z) os_scheme \<Rightarrow> ('w, 'y) openssl_scheme \<Rightarrow> client \<Rightarrow> nat \<Rightarrow> (string, 'w) io" where
  "client_recv os sl (TCPClient fd) = TCPClient_recv os fd"
| "client_recv os sl (SSLClient fd ssl) = SSLClient_recv os sl ssl"

fun client_fd :: "client \<Rightarrow> SOCKET" where
  "client_fd (TCPClient fd) = fd"
| "client_fd (SSLClient fd ssl) = fd"

text \<open>\<^verbatim>\<open>~SSLClient\<close> frees the SSL object, then \<^verbatim>\<open>~Client\<close> closes the socket.\<close>

fun client_destroy ::
  "('w, 'z) os_scheme \<Rightarrow> ('w, 'y) openssl_scheme \<Rightarrow> client \<Rightarrow> 'w \<Rightarrow> 'w" where
  "client_destroy os sl (TCPClient fd) w = close_socket os fd w"
| "client_destroy os sl (SSLClient fd ssl) w = close_socket os fd (ssl_free sl ssl w)"

subsection \<open>Documented behaviour\<close>

text \<open>
  The clock: a query returns the time, \<open>time\<close> observing the world, and time passes from one
  query to the next.
\<close>

definition clock_contract :: "('w \<Rightarrow> int \<times> 'w) \<Rightarrow> ('w \<Rightarrow> int) \<Rightarrow> bool" where
  [contract_defs]: "clock_contract now time \<longleftrightarrow>
     (\<forall>w t w'. now w = (t, w') \<longrightarrow> t = time w' \<and> time w < time w')"

text \<open>\<open>got\<close> observes the bytes received on a descriptor or an SSL object so far.\<close>

definition recv_stream :: "('w, 'z) os_scheme \<Rightarrow> SOCKET \<Rightarrow> ('w \<Rightarrow> string) \<Rightarrow> bool" where
  [contract_defs]: "recv_stream os fd got \<longleftrightarrow>
     (\<forall>n w r bytes w'. os_recv os fd n w = ((r, bytes), w') \<longrightarrow> got w' = got w @ bytes)"

definition ssl_stream :: "('w, 'y) openssl_scheme \<Rightarrow> SSL \<Rightarrow> ('w \<Rightarrow> string) \<Rightarrow> bool" where
  [contract_defs]: "ssl_stream sl ssl got \<longleftrightarrow>
     (\<forall>n w r bytes w'. ssl_read sl ssl n w = ((r, bytes), w') \<longrightarrow> got w' = got w @ bytes)"

text \<open>
  The rounds of the spinning loop as an induction rule: the time is over, the receive raised, it
  got nothing, it got the last bytes, or it got some and there are more to come.
\<close>

lemma spin_loop_rounds [consumes 1, case_names over error idle full more]:
  assumes ret: "spin_loop recv now deadline n buf w = Some (res, w')"
    and over: "\<And>buf w t w1. now w = (t, w1) \<Longrightarrow> deadline \<le> t \<Longrightarrow> P buf w (Inr None) w1"
    and error: "\<And>buf w t w1 e w2. now w = (t, w1) \<Longrightarrow> recv (n - length buf) w1 = (Inl e, w2) \<Longrightarrow> P buf w (Inl e) w2"
    and idle: "\<And>buf w t w1 w2 res w'. now w = (t, w1) \<Longrightarrow> recv (n - length buf) w1 = (Inr '''', w2) \<Longrightarrow>
      P buf w2 res w' \<Longrightarrow> P buf w res w'"
    and full: "\<And>buf w t w1 s w2. now w = (t, w1) \<Longrightarrow> recv (n - length buf) w1 = (Inr s, w2) \<Longrightarrow> s \<noteq> '''' \<Longrightarrow>
      n \<le> length (buf @ s) \<Longrightarrow> P buf w (Inr (Some (buf @ s))) w2"
    and more: "\<And>buf w t w1 s w2 res w'. now w = (t, w1) \<Longrightarrow> recv (n - length buf) w1 = (Inr s, w2) \<Longrightarrow> s \<noteq> '''' \<Longrightarrow>
      length (buf @ s) < n \<Longrightarrow> P (buf @ s) w2 res w' \<Longrightarrow> P buf w res w'"
  shows "P buf w res w'"
proof -
  let ?Q = "\<lambda>r nw d m buf w (p :: (failure + string option) \<times> _). r = recv \<longrightarrow> nw = now \<longrightarrow> d = deadline \<longrightarrow> m = n \<longrightarrow>
      P buf w (fst p) (snd p)"
  have "?Q recv now deadline n buf w (res, w')"
  proof (rule spin_loop.raw_induct [where P = ?Q, OF _ ret], intro impI)
    fix loop rc nw d m buf w p
    assume IH: "\<And>r nw d m buf w p. loop r nw d m buf w = Some p \<Longrightarrow> ?Q r nw d m buf w p"
      and eq: "(case nw w of (t, w1) \<Rightarrow> if t < d then
            (case rc (m - length buf) w1 of (Inl e, w2) \<Rightarrow> Some (Inl e, w2)
             | (Inr r, w2) \<Rightarrow> if r \<noteq> '''' then
                 (if m \<le> length (buf @ r) then Some (Inr (Some (buf @ r)), w2) else loop rc nw d m (buf @ r) w2)
               else loop rc nw d m buf w2)
          else Some (Inr None, w1)) = Some p"
      and [simp]: "rc = recv" "nw = now" "d = deadline" "m = n"
    obtain t w1 where t: "now w = (t, w1)" by fastforce
    obtain rr w2 where r: "recv (n - length buf) w1 = (rr, w2)" by fastforce
    have next_round: "P b w2 (fst p) (snd p)" if "loop recv now deadline n b w2 = Some p" for b using IH [OF that] by simp
    consider (late) "deadline \<le> t" | (raised) e where "t < deadline" "rr = Inl e"
      | (got) s where "t < deadline" "rr = Inr s" by (cases rr) force+
    then show "P buf w (fst p) (snd p)"
    proof cases
      case late
      with eq t over [OF t] show ?thesis by auto
    next
      case raised
      with eq t r error [OF t] show ?thesis by auto
    next
      case (got s)
      with eq t r next_round [of buf] next_round [of "buf @ s"] idle [OF t] full [OF t] more [OF t] show ?thesis
        by (auto split: if_splits simp: not_le)
    qed
  qed
  then show ?thesis by simp
qed

subsection \<open>The virtual recv\<close>

locale client_class =
  fixes recv :: "nat \<Rightarrow> (string, 'w) io"
    and got :: "'w \<Rightarrow> string"
    and contract :: bool
  assumes recv_got: "contract \<Longrightarrow> recv n w = (res, w') \<Longrightarrow>
      got w' = got w @ (case res of Inr s \<Rightarrow> s | Inl e \<Rightarrow> '''')"
    and recv_len: "contract \<Longrightarrow> recv n w = (Inr s, w') \<Longrightarrow> length s \<le> n"
    and recv_error: "recv n w = (Inl e, w') \<Longrightarrow> \<exists>m. e = RuntimeError m"
begin

text \<open>
  What a run of the loop does to the bytes received: all of them are in the result, or the
  call timed out or raised and they are lost.
\<close>

lemma spin_result:
  assumes c: contract and now: "keeps got now"
    and ret: "spin_loop recv now deadline n buf w = Some (res, w')" and len: "length buf < n \<or> buf = ''''"
  shows "\<exists>t. got w' = got w @ t \<and> (case res of
      Inr (Some b) \<Rightarrow> b = buf @ t \<and> length b = n
    | Inr None \<Rightarrow> length (buf @ t) < n \<or> t = ''''
    | Inl e \<Rightarrow> \<exists>m. e = RuntimeError m)"
  using ret len
proof (induction rule: spin_loop_rounds)
  case (over buf w t w1)
  then show ?case using keepsD [OF now over(1)] by (intro exI [of _ "''''"]) auto
next
  case (error buf w t w1 e w2)
  then show ?case using keepsD [OF now error(1)] recv_got [OF c error(2)] recv_error by (intro exI [of _ "''''"]) auto
next
  case (idle buf w t w1 w2 res w')
  then show ?case using keepsD [OF now idle(1)] recv_got [OF c idle(2)] by simp
next
  case (full buf w t w1 s w2)
  have "length (buf @ s) = n" using full recv_len [OF c full(2)] by auto
  then show ?case using keepsD [OF now full(1)] recv_got [OF c full(2)] by (intro exI [of _ s]) simp
next
  case (more buf w t w1 s w2 res w')
  then obtain u where "got w' = got w2 @ u" "case res of
      Inr (Some b) \<Rightarrow> b = (buf @ s) @ u \<and> length b = n
    | Inr None \<Rightarrow> length ((buf @ s) @ u) < n \<or> u = ''''
    | Inl e \<Rightarrow> \<exists>m. e = RuntimeError m" by auto
  then show ?case using keepsD [OF now more(1)] recv_got [OF c more(2)] more(4)
    by (intro exI [of _ "s @ u"]) (auto split: sum.splits option.splits)
qed

lemma spin_total:
  assumes clk: "clock_contract now time" and mono: "\<And>k v r v'. recv k v = (r, v') \<Longrightarrow> time v \<le> time v'"
  shows "\<exists>p. spin_loop recv now deadline n buf w = Some p"
proof (induction "nat (deadline - time w)" arbitrary: buf w rule: less_induct)
  case less
  obtain t w1 where t: "now w = (t, w1)" by fastforce
  with clk have t1: "t = time w1" "time w < time w1" unfolding clock_contract_def by blast+
  obtain rr w2 where r: "recv (n - length buf) w1 = (rr, w2)" by fastforce
  show ?case
  proof (cases "t < deadline")
    case False
    with t show ?thesis by (subst spin_loop.simps) simp
  next
    case True
    with t1 mono [OF r] have "nat (deadline - time w2) < nat (deadline - time w)" by linarith
    note IH = less.hyps [OF this]
    show ?thesis using IH [of buf] IH [of "buf @ projr rr"] True t r
      by (subst spin_loop.simps) (cases rr; auto)
  qed
qed

lemma spinlock_result:
  assumes c: contract and now: "keeps got now" and ret: "recv_spinlock recv now n timeout w = (res, w')"
    and res: "res \<noteq> Inl Diverges"
  shows "\<exists>t. got w' = got w @ t \<and> (case res of
      Inr (Some b) \<Rightarrow> b = t \<and> length b = n
    | Inr None \<Rightarrow> length t < n \<or> t = ''''
    | Inl e \<Rightarrow> \<exists>m. e = RuntimeError m)"
proof -
  obtain s w1 where s: "now w = (s, w1)" by fastforce
  with ret res have "spin_loop recv now (s + timeout * 1000000) n '''' w1 = Some (res, w')"
    by (auto simp: recv_spinlock_def io_loop_def split: option.splits)
  from spin_result [OF c now this, unfolded append_Nil] keepsD [OF now s] show ?thesis by simp
qed

lemma spinlock_returns:
  assumes c: contract and now: "keeps got now" and clk: "clock_contract now time"
    and mono: "\<And>k v r v'. recv k v = (r, v') \<Longrightarrow> time v \<le> time v'"
  shows "fst (recv_spinlock recv now n timeout w) \<noteq> Inl Diverges"
proof -
  obtain s w1 where s: "now w = (s, w1)" by fastforce
  from spin_total [OF clk mono] obtain res w' where
    p: "spin_loop recv now (s + timeout * 1000000) n '''' w1 = Some (res, w')" by fastforce
  from spin_result [OF c now p] show ?thesis
    by (auto simp: recv_spinlock_def s p split: sum.splits)
qed

end

subsection \<open>Both classes of clients\<close>

lemma recv_result_got:
  assumes "length bytes = nat r" and "nat r \<le> n"
    and "recv_result os r (overwrite bytes (replicate n NUL)) w = (res, w')"
  shows "bytes = (case res of Inr s \<Rightarrow> s | Inl e \<Rightarrow> '''')"
proof (cases "0 < r")
  case True
  with assms recv_result_data [OF True, of os] show ?thesis by auto
next
  case False
  with assms(1) have "bytes = ''''" by simp
  with recv_result_cases [OF assms(3)] False show ?thesis by auto
qed

interpretation tcpc: client_class "TCPClient_recv os fd" got "recv_contract os \<and> recv_stream os fd got"
  for os :: "('w, 'z) os_scheme" and fd :: SOCKET and got :: "'w \<Rightarrow> string"
proof unfold_locales
  fix n w res w' s e
  obtain r bytes w1 where r: "os_recv os fd n w = ((r, bytes), w1)" by (metis prod.exhaust)
  have eq: "TCPClient_recv os fd n w = recv_result os r (overwrite bytes (replicate n NUL)) w1"
    by (simp add: TCPClient_recv_def io_bind_call r)
  show "\<exists>m. e = RuntimeError m" if "TCPClient_recv os fd n w = (Inl e, w')"
    using that unfolding eq by (rule recv_result_failure)
  assume c: "recv_contract os \<and> recv_stream os fd got"
  then have b: "length bytes = nat r" "nat r \<le> n" and g: "got w1 = got w @ bytes"
    using recv_contractD [OF _ r] r by (auto simp: recv_stream_def)
  show "got w' = got w @ (case res of Inr s \<Rightarrow> s | Inl e \<Rightarrow> '''')" if "TCPClient_recv os fd n w = (res, w')"
    using that unfolding eq using recv_result_got [OF b] g recv_result_world by metis
  show "length s \<le> n" if "TCPClient_recv os fd n w = (Inr s, w')"
    using that b(2) recv_result_length unfolding eq by fastforce
qed

interpretation sslc: client_class "SSLClient_recv os sl ssl" got "ssl_read_contract sl \<and> ssl_stream sl ssl got"
  for os :: "('w, 'z) os_scheme" and sl :: "('w, 'y) openssl_scheme" and ssl :: SSL and got :: "'w \<Rightarrow> string"
proof unfold_locales
  fix n w res w' s e
  obtain r bytes w1 where r: "ssl_read sl ssl (c_int n) w = ((r, bytes), w1)" by (metis prod.exhaust)
  have eq: "SSLClient_recv os sl ssl n w = recv_result os r (overwrite bytes (replicate n NUL)) w1"
    by (simp add: SSLClient_recv_def io_bind_call r)
  show "\<exists>m. e = RuntimeError m" if "SSLClient_recv os sl ssl n w = (Inl e, w')"
    using that unfolding eq by (rule recv_result_failure)
  assume c: "ssl_read_contract sl \<and> ssl_stream sl ssl got"
  then have "r \<le> max 0 (c_int n)" and b1: "length bytes = nat r" and g: "got w1 = got w @ bytes"
    using r unfolding ssl_read_contract_def ssl_stream_def by blast+
  with c_int_le [of n] have b: "length bytes = nat r" "nat r \<le> n" by auto
  show "got w' = got w @ (case res of Inr s \<Rightarrow> s | Inl e \<Rightarrow> '''')" if "SSLClient_recv os sl ssl n w = (res, w')"
    using that unfolding eq using recv_result_got [OF b] g recv_result_world by metis
  show "length s \<le> n" if "SSLClient_recv os sl ssl n w = (Inr s, w')"
    using that b(2) recv_result_length unfolding eq by fastforce
qed

definition client_contract ::
  "('w, 'z) os_scheme \<Rightarrow> ('w, 'y) openssl_scheme \<Rightarrow> client \<Rightarrow> ('w \<Rightarrow> string) \<Rightarrow> bool" where
  [contract_defs]: "client_contract os sl c got \<longleftrightarrow> (case c of
       TCPClient fd \<Rightarrow> recv_contract os \<and> recv_stream os fd got
     | SSLClient fd ssl \<Rightarrow> ssl_read_contract sl \<and> ssl_stream sl ssl got)"

interpretation cli: client_class "client_recv os sl c" got "client_contract os sl c got"
  for os :: "('w, 'z) os_scheme" and sl :: "('w, 'y) openssl_scheme" and c :: client and got :: "'w \<Rightarrow> string"
proof unfold_locales
  fix n w res w' s e
  show "\<exists>m. e = RuntimeError m" if "client_recv os sl c n w = (Inl e, w')"
    using that tcpc.recv_error sslc.recv_error by (cases c) auto
  assume k: "client_contract os sl c got"
  show "got w' = got w @ (case res of Inr s \<Rightarrow> s | Inl e \<Rightarrow> '''')" if "client_recv os sl c n w = (res, w')"
    using that k tcpc.recv_got sslc.recv_got by (cases c) (simp_all add: client_contract_def)
  show "length s \<le> n" if "client_recv os sl c n w = (Inr s, w')"
  proof (cases c)
    case (TCPClient fd)
    with that k tcpc.recv_len [of os fd got n w s w'] show ?thesis by (simp add: client_contract_def)
  next
    case (SSLClient fd ssl)
    with that k sslc.recv_len [of sl ssl got os n w s w'] show ?thesis by (simp add: client_contract_def)
  qed
qed

subsection \<open>A concrete environment\<close>

record sim_cli = sim_net +
  sim_got :: string
  sim_time :: int

definition sim_cli_os :: "sim_cli os" where
  "sim_cli_os = sim_os\<lparr>os_recv := (\<lambda>fd n w. case sim_recv fd n w of ((r, b), w') \<Rightarrow>
     ((r, b), w'\<lparr>sim_got := sim_got w @ b\<rparr>))\<rparr>"

definition sim_now :: "sim_cli \<Rightarrow> int \<times> sim_cli" where
  "sim_now w = (sim_time w + 1000000, w\<lparr>sim_time := sim_time w + 1000000\<rparr>)"

definition sim_cli_world :: sim_cli where
  "sim_cli_world = sim_net.extend sim_net_world (sim_cli.fields '''' 0)"

lemma sim_cli_contract: "client_contract sim_cli_os sim_ssl (TCPClient 7) sim_got"
  using sim_recv_contract
  by (auto simp: client_contract_def recv_contract_def recv_stream_def sim_cli_os_def sim_os_def
      split: prod.splits)

lemma sim_now_keeps: "keeps sim_got sim_now"
  by (simp add: keeps_def sim_now_def)

lemma sim_clock: "clock_contract sim_now sim_time"
  by (auto simp: clock_contract_def sim_now_def)

lemma sim_recv_time: "client_recv sim_cli_os sim_ssl (TCPClient 7) k v = (r, v') \<Longrightarrow> sim_time v \<le> sim_time v'"
  by (auto simp: TCPClient_recv_def io_bind_call sim_cli_os_def sim_os_def sim_recv_def
      dest!: recv_result_world split: prod.splits list.splits)

lemma sim_client_recv:
  "TCPClient_recv sim_cli_os fd n w = (case sim_recvs w of
     [] \<Rightarrow> (Inr '''', w\<lparr>sim_errno := EAGAIN\<rparr>)
   | b # bs \<Rightarrow> (Inr (take n b), w\<lparr>sim_recvs := (if n < length b then drop n b # bs else bs),
       sim_got := sim_got w @ take n b\<rparr>))"
proof (cases "sim_recvs w")
  case Nil
  then show ?thesis
    by (simp add: TCPClient_recv_def io_bind_call sim_cli_os_def sim_os_def sim_recv_def recv_result_def)
next
  case (Cons b bs)
  obtain w1 where call: "os_recv sim_cli_os fd n w = ((int (length (take n b)), take n b), w1)"
    and w1: "w1 = w\<lparr>sim_recvs := (if n < length b then drop n b # bs else bs), sim_got := sim_got w @ take n b\<rparr>"
    using Cons by (simp add: sim_cli_os_def sim_os_def sim_recv_def)
  obtain res w' where r: "recv_result sim_cli_os (int (length (take n b))) (overwrite (take n b) (replicate n NUL)) w1 = (res, w')"
    by fastforce
  have "w' = w1" "\<exists>s. res = Inr s" using recv_result_cases [OF r] by auto
  moreover have "take n b = (case res of Inr s \<Rightarrow> s | Inl e \<Rightarrow> '''')" by (rule recv_result_got [OF _ _ r]) simp_all
  ultimately show ?thesis using r by (auto simp: TCPClient_recv_def io_bind_call call Cons w1)
qed

lemmas sim_cli_eval = sim_net_eval sim_cli_os_def sim_now_def sim_cli_world_def sim_cli.defs

subsection \<open>Properties\<close>

text \<open>
  C27. \<^verbatim>\<open>Client::recv_spinlock\<close>, for both classes of clients: a string it returns has exactly the
  requested length and is what the client received during the call, in order. When it times
  out it received fewer bytes than requested, and those bytes are in no result: the next call
  starts behind them. Nothing but a \<^verbatim>\<open>recv error\<close> exception escapes.
\<close>

theorem recv_spinlock_outcome:
  assumes "client_contract os sl c got" and "keeps got now"
    and "recv_spinlock (client_recv os sl c) now n timeout w = (res, w')" and "res \<noteq> Inl Diverges"
  shows "\<exists>t. got w' = got w @ t \<and> (case res of
      Inr (Some b) \<Rightarrow> b = t \<and> length b = n
    | Inr None \<Rightarrow> length t < n \<or> t = ''''
    | Inl e \<Rightarrow> \<exists>m. e = RuntimeError m)"
  using assms by (rule cli.spinlock_result)

lemma sim_spin_partial:
  "recv_spinlock (client_recv sim_cli_os sim_ssl (TCPClient 7)) sim_now 5 3
     (sim_cli_world\<lparr>sim_recvs := [''he'']\<rparr>) =
   (Inr None, sim_cli_world\<lparr>sim_got := ''he'', sim_time := 4000000, sim_errno := EAGAIN\<rparr>)"
  by (simp add: recv_spinlock_def spin_loop.simps sim_client_recv sim_now_def)
    (simp add: sim_cli_eval)

theorem recv_spinlock_outcome_witness:
  "\<exists>t. sim_got (snd (recv_spinlock (client_recv sim_cli_os sim_ssl (TCPClient 7)) sim_now 5 3
     (sim_cli_world\<lparr>sim_recvs := [''he'']\<rparr>))) = t \<and> t = ''he'' \<and> length t < 5"
proof -
  from recv_spinlock_outcome [OF sim_cli_contract sim_now_keeps sim_spin_partial]
  show ?thesis unfolding sim_spin_partial by (auto simp: sim_cli_eval)
qed

text \<open>
  C28. \<^verbatim>\<open>Client::recv_spinlock\<close> returns, normally or with an exception, whatever the peer does, since
  time passes while it spins.
\<close>

theorem recv_spinlock_returns:
  assumes "client_contract os sl c got" and "keeps got now" and "clock_contract now time"
    and "\<And>k v r v'. client_recv os sl c k v = (r, v') \<Longrightarrow> time v \<le> time v'"
  shows "fst (recv_spinlock (client_recv os sl c) now n timeout w) \<noteq> Inl Diverges"
  using assms by (rule cli.spinlock_returns)

theorem recv_spinlock_returns_witness:
  "fst (recv_spinlock (client_recv sim_cli_os sim_ssl (TCPClient 7)) sim_now 5 30000 sim_cli_world) \<noteq> Inl Diverges"
  by (rule recv_spinlock_returns [OF sim_cli_contract sim_now_keeps sim_clock sim_recv_time])

text \<open>
  The value of \<^verbatim>\<open>Client::recv_future\<close> is the empty string or exactly 16384 bytes: a shorter
  response is received, waited for until the timeout and then thrown away.
\<close>

theorem recv_future_all_or_nothing:
  assumes "client_contract os sl c got" and "keeps got now"
    and "recv_future (client_recv os sl c) now ms w = (Inr s, w')"
  shows "(length s = 16384 \<and> got w' = got w @ s) \<or>
    (s = '''' \<and> (\<exists>t. got w' = got w @ t \<and> length t < 16384))"
proof -
  from assms(3) obtain r where r: "recv_spinlock (client_recv os sl c) now FUTURE_BUF_SZ ms w = (Inr r, w')"
    and s: "s = (case r of Some s \<Rightarrow> s | None \<Rightarrow> '''')"
    by (auto simp: recv_future_def io_bind_eq_Inr)
  from cli.spinlock_result [OF assms(1,2) r] s show ?thesis
    by (cases r) (auto simp: FUTURE_BUF_SZ_def)
qed

theorem recv_future_all_or_nothing_witness:
  "fst (recv_future (client_recv sim_cli_os sim_ssl (TCPClient 7)) sim_now 3
     (sim_cli_world\<lparr>sim_recvs := [''hello'']\<rparr>)) = Inr '''' \<and>
   (\<exists>t. sim_got (snd (recv_future (client_recv sim_cli_os sim_ssl (TCPClient 7)) sim_now 3
     (sim_cli_world\<lparr>sim_recvs := [''hello'']\<rparr>))) = t \<and> length t < 16384)"
proof -
  let ?run = "recv_future (client_recv sim_cli_os sim_ssl (TCPClient 7)) sim_now 3
     (sim_cli_world\<lparr>sim_recvs := [''hello'']\<rparr>)"
  have "fst ?run = Inr ''''"
    by (simp add: recv_future_def FUTURE_BUF_SZ_def recv_spinlock_def spin_loop.simps sim_client_recv sim_now_def
        io_bind_def sim_cli_world_def sim_net_world_def sim_poll_world_def sim_world_def sim_cli.defs sim_net.defs
        sim_poll.defs sim.defs)
  then obtain w' where run: "?run = (Inr '''', w')" by (metis prod.collapse)
  from recv_future_all_or_nothing [OF sim_cli_contract sim_now_keeps run]
  show ?thesis unfolding run by (auto simp: sim_cli_eval)
qed

lemma connect_loop_open:
  assumes "fd_table_contract os" and "net_contract os nt" and "connect_loop os nt sport ps w = (r, w')"
  shows "(r = Inr None \<and> os_open os w' = os_open os w) \<or>
    (\<exists>fd p. r = Inr (Some (fd, p)) \<and> fd \<notin> os_open os w \<and> os_open os w' = insert fd (os_open os w))"
  using assms(3)
proof (induction ps arbitrary: w)
  case Nil
  then show ?case by auto
next
  case (Cons p ps)
  obtain l w1 where so: "net_socket nt (ai_family p) (ai_socktype p) (ai_protocol p) w = (l, w1)" by fastforce
  obtain w2 where w2: "w2 = log_with os (DBG (''client: attempting connection to '' @ peer_text nt p sport)) w1" by simp
  obtain r3 w3 where cn: "net_connect nt l (ai_addr p) w2 = (r3, w3)" by fastforce
  obtain v where v: "v = log_with os (DBG (''connect() to '' @ peer_text nt p sport @ '' failed: '' @ os_strerror os (os_errno os w3))) w3"
    by simp
  obtain r4 w4 where cs: "os_close os l v = (r4, w4)" by fastforce
  note n = net_contractD [OF assms(2)]
  have eq: "os_open os w3 = os_open os w1" "os_open os v = os_open os w1"
    using keepsD [OF n(8) cn] log_open [OF assms(1)] by (simp_all add: w2 v)
  note run = io_bind_call so w2 [symmetric, simplified] cn v [symmetric, simplified] cs
  show ?case
  proof (cases "l = INVALID_SOCKET")
    case True
    with Cons.prems Cons.IH [of w1] opensD(1) [OF n(1) so] show ?thesis
      by (simp add: io_bind_call so INVALID_SOCKET_def)
  next
    case False
    from opensD(2) [OF n(1) so False] have l: "l \<notin> os_open os w" "os_open os w1 = insert l (os_open os w)" by simp_all
    have "os_open os w4 = os_open os w"
      using close_socket_open [OF assms(1), of l v] l by (simp add: close_socket_def cs eq)
    with Cons.IH [of w4] Cons.prems False l eq show ?thesis
      by (auto simp: run INVALID_SOCKET_def split: if_splits)
  qed
qed

lemma open_connection_eq:
  assumes "net_getaddrinfo nt (Some (takeWhile (\<lambda>c. c \<noteq> NUL) host)) (show_nat (unat port)) client_hints w = ((0, l), w1)"
    and "connect_loop os nt (show_nat (unat port)) l w1 = (Inr b, w2)"
  shows "open_connection os nt host port w = (case b of
      None \<Rightarrow> (Inl (RuntimeError ''client: Failed to connect.''), w2)
    | Some (fd, p) \<Rightarrow> (case socket_mark_as_nonblocking os fd (net_freeaddrinfo nt l
          (log_with os (DBG (''client: connected to '' @ peer_text nt p (show_nat (unat port)))) w2)) of
        (Inl e, w3) \<Rightarrow> (Inl e, w3)
      | (Inr _, w3) \<Rightarrow> (Inr fd, w3)))"
proof -
  have "open_connection os nt host port w = (case b of
      None \<Rightarrow> (Inl (RuntimeError ''client: Failed to connect.''), w2)
    | Some (fd, p) \<Rightarrow> io_bind (socket_mark_as_nonblocking os fd) (\<lambda>_. io_return fd) (net_freeaddrinfo nt l
        (log_with os (DBG (''client: connected to '' @ peer_text nt p (show_nat (unat port)))) w2)))"
    using assms by (cases b) (auto simp: open_connection_def io_bind_call)
  then show ?thesis by (simp add: io_bind_def split: option.splits prod.splits sum.splits)
qed

lemma open_connection_open:
  assumes "fd_table_contract os" and "net_contract os nt" and "open_connection os nt host port w = (r, w')"
  shows "case r of
      Inr fd \<Rightarrow> fd \<notin> os_open os w \<and> os_open os w' = insert fd (os_open os w)
    | Inl (RuntimeError m) \<Rightarrow> os_open os w' = os_open os w
    | Inl e \<Rightarrow> \<exists>fd. fd \<notin> os_open os w \<and> os_open os w' = insert fd (os_open os w)"
proof -
  obtain rv l w1 where gai: "net_getaddrinfo nt (Some (takeWhile (\<lambda>c. c \<noteq> NUL) host))
      (show_nat (unat port)) client_hints w = ((rv, l), w1)" by (metis prod.exhaust)
  obtain b w2 where cl: "connect_loop os nt (show_nat (unat port)) l w1 = (b, w2)" by fastforce
  note n = net_contractD [OF assms(2)]
  have op: "os_open os w1 = os_open os w" using keepsD [OF n(3) gai] .
  note C = connect_loop_open [OF assms(1,2) cl, unfolded op]
  show ?thesis
  proof (cases "rv = 0 \<and> b \<noteq> Inr None")
    case False
    show ?thesis
    proof (cases "rv = 0")
      case True
      with False assms(3) op C show ?thesis by (auto simp: open_connection_def io_bind_call gai cl)
    qed (use assms(3) op in \<open>auto simp: open_connection_def io_bind_call gai\<close>)
  next
    case True
    with C obtain fd p where b: "b = Inr (Some (fd, p))" "fd \<notin> os_open os w" "os_open os w2 = insert fd (os_open os w)" by auto
    obtain v where v: "v = net_freeaddrinfo nt l (log_with os (DBG (''client: connected to '' @ peer_text nt p (show_nat (unat port)))) w2)"
      by simp
    obtain q w3 where nb: "socket_mark_as_nonblocking os fd v = (q, w3)" by fastforce
    have "os_open os w3 = insert fd (os_open os w)"
      using mark_nonblocking_open [OF assms(1) nb] b n(4) log_open [OF assms(1)] by (simp add: v)
    moreover have "w' = w3 \<and> (r = Inr fd \<or> (\<exists>m. r = Inl (NonRecoverableException m)))"
      using assms(3) open_connection_eq [OF gai [unfolded conjunct1 [OF True]] cl [unfolded b(1)], folded v] nb
        mark_nonblocking_failure [of os fd v]
      by (cases q) (auto simp: v)
    ultimately show ?thesis using b(2) by auto
  qed
qed

text \<open>The constructors and the methods of the clients leave every other descriptor as it is.\<close>

definition sslcli_contract :: "('w, 'z) os_scheme \<Rightarrow> ('w, 'c) sslcli_scheme \<Rightarrow> bool" where
  [contract_defs]: "sslcli_contract os sc \<longleftrightarrow>
     keeps (os_open os) (sc_ctx_new sc) \<and> (\<forall>c. keeps (os_open os) (sc_default_paths sc c)) \<and>
     (\<forall>c. keeps (os_open os) (sc_new sc c)) \<and> (\<forall>ssl h. keeps (os_open os) (sc_set_host sc ssl h)) \<and>
     (\<forall>ssl. keeps (os_open os) (sc_connect sc ssl)) \<and> (\<forall>ssl r. keeps (os_open os) (sc_get_error sc ssl r))"

lemma handshake_keeps:
  assumes "\<And>ssl. keeps obs (sc_connect sc ssl)" and "\<And>ssl r. keeps obs (sc_get_error sc ssl r)"
    and "handshake_loop sc ssl w = Some w'"
  shows "obs w' = obs w"
proof -
  let ?P = "\<lambda>sc' ssl w w'. sc' = sc \<longrightarrow> obs w' = obs w"
  have "?P sc ssl w w'"
    by (rule handshake_loop.raw_induct [where P = ?P, OF _ assms(3)])
      (auto split: prod.splits if_splits dest!: keepsD [OF assms(1)] keepsD [OF assms(2)])
  then show ?thesis by simp
qed

lemma spin_loop_keeps:
  assumes recv: "\<And>k. keeps obs (recv k)" and now: "keeps obs now"
    and "spin_loop recv now deadline n buf w = Some (res, w')"
  shows "obs w' = obs w"
  using assms(3)
  by (induction rule: spin_loop_rounds) (auto dest!: keepsD [OF now] keepsD [OF recv])

lemma recv_spinlock_keeps:
  assumes "\<And>k. keeps obs (recv k)" and "keeps obs now" and "recv_spinlock recv now n timeout w = (res, w')"
  shows "obs w' = obs w"
proof -
  obtain t w1 where t: "now w = (t, w1)" by fastforce
  let ?r = "spin_loop recv now (t + timeout * 1000000) n '''' w1"
  have "io_loop w1 ?r = (res, w')" using assms(3) t by (simp add: recv_spinlock_def)
  then have "obs w' = obs w1" using spin_loop_keeps [OF assms(1,2)]
    by (cases ?r) auto
  then show ?thesis using keepsD [OF assms(2) t] by simp
qed

lemma client_send_keeps:
  assumes "calls_keep os sl obs" and "client_send os sl c d w = (r, w')"
  shows "obs w' = obs w"
  using assms(2) keepsD [OF calls_keepD(2) [OF assms(1)]] keepsD [OF calls_keepD(11) [OF assms(1)]]
  by (cases c) (auto simp: TCPClient_send_def SSLClient_send_def dest!: io_loop_send_frame [where obs = obs])

lemma client_recv_keeps:
  assumes "calls_keep os sl obs"
  shows "keeps obs (client_recv os sl c n)"
  unfolding keeps_def
proof (rule allI)
  fix w
  show "obs (snd (client_recv os sl c n w)) = obs w"
    using keepsD [OF calls_keepD(1) [OF assms]] keepsD [OF calls_keepD(10) [OF assms]]
    by (cases c) (auto simp: TCPClient_recv_def SSLClient_recv_def io_bind_call recv_result_def
        dest: recv_result_world split: prod.splits)
qed

text \<open>
  C29. \<^verbatim>\<open>TCPClient::open_connection\<close> leaves exactly the descriptor it returns open in addition to those
  open before; when it raises \<^verbatim>\<open>std::runtime_error\<close> (no address, no connection) it leaves none
  open, whatever addresses it tried.
\<close>

theorem open_connection_descriptors:
  assumes "fd_table_contract os" and "net_contract os nt" and "open_connection os nt host port w = (r, w')"
  shows "case r of
      Inr fd \<Rightarrow> fd \<notin> os_open os w \<and> os_open os w' = insert fd (os_open os w)
    | Inl (RuntimeError m) \<Rightarrow> os_open os w' = os_open os w
    | Inl e \<Rightarrow> \<exists>fd. fd \<notin> os_open os w \<and> os_open os w' = insert fd (os_open os w)"
  using assms by (rule open_connection_open)

theorem open_connection_descriptors_witness:
  "sim_open (snd (open_connection sim_os sim_nt ''localhost'' 80
     (sim_net_world\<lparr>sim_addrs := [sim_addr, sim_addr], sim_rets := [-1, -1], sim_open := {0}\<rparr>))) = {0}"
proof -
  let ?run = "open_connection sim_os sim_nt ''localhost'' 80
     (sim_net_world\<lparr>sim_addrs := [sim_addr, sim_addr], sim_rets := [-1, -1], sim_open := {0}\<rparr>)"
  have "fst ?run = Inl (RuntimeError ''client: Failed to connect.'')"
    by (simp add: open_connection_def io_bind_call sim_net_eval sim_new_fd_def INVALID_SOCKET_def upt_conv_Cons log_quiet init_logger_def
        connect_loop.simps)
  then obtain w' where run: "?run = (Inl (RuntimeError ''client: Failed to connect.''), w')" by (metis prod.collapse)
  from open_connection_descriptors [OF sim_fd_table_contract sim_net_contract run]
  show ?thesis unfolding run by (simp add: sim_os_def)
qed

text \<open>
  The constructor of \<^verbatim>\<open>SSLClient\<close> does not report a failed handshake: when \<^verbatim>\<open>SSL_connect\<close> returns
  zero, or a negative value whose error is not that it wants to read, the client is constructed
  as if the handshake had succeeded.
\<close>

theorem SSLClient_new_ignores_failure:
  assumes "open_connection os nt host port w = (Inr fd, w1)" and "initialize_ctx sc ctx w1 = (Inr (), Some cx, w2)"
    and "sc_new sc cx w2 = (ssl, w3)" and "sc_set_host sc ssl (takeWhile (\<lambda>c. c \<noteq> NUL) host) w3 = (a, w4)"
    and "ssl_set_fd sl ssl fd w4 = (b, w5)" and "sc_connect sc ssl w5 = (r, w6)" and "r \<le> 0"
    and "r < 0 \<Longrightarrow> fst (sc_get_error sc ssl r w6) \<noteq> SSL_ERROR_WANT_READ"
  shows "fst (SSLClient_new os sl nt sc host port ctx w) = Inr (SSLClient fd ssl)"
proof -
  have "\<exists>w7. handshake_loop sc ssl w5 = Some w7"
    using assms(6-8) by (subst handshake_loop.simps) (auto split: prod.splits)
  with assms(1-5) show ?thesis by (auto simp: SSLClient_new_def)
qed

definition sim_sslcli :: "sim_net sslcli" where
  "sim_sslcli = \<lparr> sc_ctx_new = (\<lambda>w. (1, w)), sc_default_paths = (\<lambda>c w. (if sim_errno w = EINTR then 0 else 1, w)),
     sc_new = (\<lambda>c w. (2, w)), sc_set_host = (\<lambda>ssl h w. (1, w)), sc_connect = (\<lambda>ssl w. (-1, w)),
     sc_get_error = (\<lambda>ssl r w. (1, w)) \<rparr>"

lemma sim_open_connection:
  "open_connection sim_os sim_nt ''localhost'' 80 (sim_net_world\<lparr>sim_addrs := [sim_addr]\<rparr>) =
   (Inr 0, sim_net_world\<lparr>sim_addrs := [sim_addr], sim_open := {0}\<rparr>)"
  by (simp add: open_connection_def io_bind_call sim_net_eval sim_new_fd_def INVALID_SOCKET_def upt_conv_Cons log_quiet init_logger_def
      socket_mark_as_nonblocking_def)

theorem SSLClient_new_ignores_failure_witness:
  "fst (SSLClient_new sim_os sim_ssl sim_nt sim_sslcli ''localhost'' 80 None
     (sim_net_world\<lparr>sim_addrs := [sim_addr]\<rparr>)) = Inr (SSLClient 0 2)"
  by (rule SSLClient_new_ignores_failure [OF sim_open_connection, where r = "-1"])
    (simp_all add: initialize_ctx_def sim_sslcli_def sim_ssl_def SSL_ERROR_WANT_READ_def sim_net_eval)

text \<open>
  \<^verbatim>\<open>SSLClient::initialize_ctx\<close> reports that the certificate store cannot be loaded only once: the
  context is kept when the first call raises, and every later call succeeds without trying
  again.
\<close>

theorem initialize_ctx_reports_once:
  assumes "initialize_ctx sc None w = (Inl e, ctx, w')"
  shows "ctx \<noteq> None \<and> initialize_ctx sc ctx v = (Inr (), ctx, v)"
  using assms by (auto simp: initialize_ctx_def split: prod.splits if_splits)

theorem initialize_ctx_reports_once_witness:
  "fst (initialize_ctx sim_sslcli None (sim_net_world\<lparr>sim_errno := EINTR\<rparr>)) \<noteq> Inr () \<and>
   initialize_ctx sim_sslcli (Some 1) sim_net_world = (Inr (), Some 1, sim_net_world)"
proof -
  have "initialize_ctx sim_sslcli None (sim_net_world\<lparr>sim_errno := EINTR\<rparr>) =
      (Inl (NonRecoverableException ''Failed to load system CA store''), Some 1, sim_net_world\<lparr>sim_errno := EINTR\<rparr>)"
    by (simp add: initialize_ctx_def sim_sslcli_def)
  from initialize_ctx_reports_once [OF this, of sim_net_world] this show ?thesis by simp
qed

lemma client_destroy_open:
  assumes "fd_table_contract os" and "ssl_fd_contract os sl"
  shows "os_open os (client_destroy os sl c w) = os_open os w - {client_fd c}"
  using assms by (cases c) (simp_all add: close_socket_open ssl_fd_contractD)

text \<open>
  The list of addresses is freed on success and leaked when no address accepts the connection.
\<close>

lemma connect_loop_lists:
  assumes "net_lists_contract os nt"
  shows "connect_loop os nt sport ps w = (r, w') \<Longrightarrow> net_lists nt w' = net_lists nt w"
proof (induction ps arbitrary: w)
  case (Cons p ps)
  have k: "keeps (net_lists nt) (net_socket nt f t q)" "keeps (net_lists nt) (net_connect nt fd a)"
    "keeps (net_lists nt) (os_close os fd)" for f t q fd a
    using assms by (simp_all add: net_lists_contract_def)
  have lg: "net_lists nt (log_with os f v) = net_lists nt v" for f v
    using assms by (simp add: net_lists_contract_def log_with_def)
  from Cons show ?case
    by (auto simp: io_bind_call lg split: prod.splits if_splits
        dest!: keepsD [OF k(1)] keepsD [OF k(2)] keepsD [OF k(3)])
qed simp

lemma open_connection_leaks_list:
  assumes "net_lists_contract os nt"
    and "net_getaddrinfo nt (Some (takeWhile (\<lambda>c. c \<noteq> NUL) host)) (show_nat (unat port)) client_hints w = ((0, l), w1)"
    and "connect_loop os nt (show_nat (unat port)) l w1 = (Inr None, w2)"
  shows "\<exists>w'. open_connection os nt host port w = (Inl (RuntimeError ''client: Failed to connect.''), w') \<and>
    net_lists nt w' = Suc (net_lists nt w)"
proof -
  have "net_lists nt w1 = Suc (net_lists nt w)"
    using assms(1,2) unfolding net_lists_contract_def by metis
  with connect_loop_lists [OF assms(1,3)] open_connection_eq [OF assms(2,3)] show ?thesis by simp
qed

end
