(* ===== verification/LoadTest.thy ===== *)
theory LoadTest
  imports LoadTestArgs Client
begin

text \<open>
  The load test (\<^verbatim>\<open>loadtest/loadtest.cc\<close>): starting and stopping the server process on POSIX
  and on Windows, one attempt of a client, the threads that make the attempts, the report and
  \<^verbatim>\<open>main\<close>. The calls on processes, the clock and the random numbers are parameters. The threads
  are a list of the attempts each has left, run by an explicit schedule; one step of the schedule
  is one attempt, which works on a client of its own and meets the other threads only where it
  appends its result under the mutex.
\<close>

subsection \<open>Running the server\<close>

text \<open>
  How a part of the program ends: it returns, it ends the process, it replaces the process image,
  or an exception leaves a thread and \<^verbatim>\<open>std::terminate\<close> ends the process.
\<close>

datatype 'a outcome = Returns 'a | Exits int | Execs | Terminates failure

text \<open>
  \<open>pr_fork\<close> returns zero in the world of the child. \<open>pr_execlp\<close> is \<open>None\<close> when the image is
  replaced, and the world when the call fails and returns.
\<close>

record 'w proc =
  pr_fork :: "'w \<Rightarrow> int \<times> 'w"
  pr_execlp :: "string \<Rightarrow> string list \<Rightarrow> 'w \<Rightarrow> 'w option"
  pr_perror :: "string \<Rightarrow> 'w \<Rightarrow> 'w"
  pr_sleep :: "int \<Rightarrow> 'w \<Rightarrow> 'w"
  pr_kill :: "int \<Rightarrow> int \<Rightarrow> 'w \<Rightarrow> int \<times> 'w"
  pr_waitpid :: "int \<Rightarrow> 'w \<Rightarrow> int \<times> 'w"

definition SIGTERM :: int where "SIGTERM = 15"

definition server_program :: string where "server_program = ''./neblina-load-test-server''"

definition server_option :: "ClientType \<Rightarrow> string" where
  "server_option type = (if type = TCP then ''-t'' else ''-s'')"

definition run_server :: "('w, 'p) proc_scheme \<Rightarrow> ClientType \<Rightarrow> 'w \<Rightarrow> int outcome \<times> 'w" where
  "run_server pr type w =
     (case pr_fork pr w of (pid, w1) \<Rightarrow>
        if pid = 0 then
          (case pr_execlp pr server_program [server_program, server_option type] w1 of
             None \<Rightarrow> (Execs, w1)
           | Some w2 \<Rightarrow> (Exits 127, pr_perror pr ''execlp'' w2))
        else (Returns pid, pr_sleep pr 300 w1))"

definition kill_server :: "('w, 'p) proc_scheme \<Rightarrow> int \<Rightarrow> 'w \<Rightarrow> 'w" where
  "kill_server pr pid w = snd (pr_waitpid pr pid (snd (pr_kill pr pid SIGTERM w)))"

text \<open>The same on Windows.\<close>

record process_information =
  hProcess :: nat
  hThread :: nat
  dwProcessId :: nat

record 'w winproc =
  wp_CreateProcessA :: "string \<Rightarrow> 'w \<Rightarrow> (bool \<times> process_information) \<times> 'w"
  wp_sleep :: "int \<Rightarrow> 'w \<Rightarrow> 'w"
  wp_GenerateConsoleCtrlEvent :: "nat \<Rightarrow> 'w \<Rightarrow> bool \<times> 'w"
  wp_WaitForSingleObject :: "nat \<Rightarrow> nat \<Rightarrow> 'w \<Rightarrow> nat \<times> 'w"
  wp_TerminateProcess :: "nat \<Rightarrow> nat \<Rightarrow> 'w \<Rightarrow> bool \<times> 'w"
  wp_CloseHandle :: "nat \<Rightarrow> 'w \<Rightarrow> bool \<times> 'w"

definition WAIT_OBJECT_0 :: nat where "WAIT_OBJECT_0 = 0"
definition INFINITE :: nat where "INFINITE = 4294967295"

definition run_server_win ::
  "('w, 'p) winproc_scheme \<Rightarrow> ClientType \<Rightarrow> 'w \<Rightarrow> process_information outcome \<times> 'w" where
  "run_server_win wp type w =
     (case wp_CreateProcessA wp (server_program @ '' '' @ server_option type) w of ((ok, pi), w1) \<Rightarrow>
        if \<not> ok then (Terminates (RuntimeError ''Failed to start server''), w1)
        else (Returns pi, wp_sleep wp 300 w1))"

definition kill_server_win :: "('w, 'p) winproc_scheme \<Rightarrow> process_information \<Rightarrow> 'w \<Rightarrow> 'w" where
  "kill_server_win wp h w =
     (let cleanup = (\<lambda>w. snd (wp_CloseHandle wp (hThread h) (snd (wp_CloseHandle wp (hProcess h) w))));
          force = (\<lambda>w. cleanup (snd (wp_WaitForSingleObject wp (hProcess h) INFINITE
                     (snd (wp_TerminateProcess wp (hProcess h) 1 w)))))
      in case wp_GenerateConsoleCtrlEvent wp (dwProcessId h) w of (sent, w1) \<Rightarrow>
        if sent then
          (case wp_WaitForSingleObject wp (hProcess h) 3000 w1 of (r, w2) \<Rightarrow>
             if r = WAIT_OBJECT_0 then cleanup w2 else force w2)
        else force w1)"

subsection \<open>One attempt\<close>

datatype Output = Success | Timeout | Incorrect | FailedToConnect

text \<open>\<open>None\<close> is the duration of a result that was never assigned one.\<close>

record Result =
  duration :: "int option"
  "output" :: Output

record 'w lt_calls =
  lt_os :: "'w os"
  lt_ssl :: "'w openssl"
  lt_net :: "'w net"
  lt_sslcli :: "'w sslcli"
  lt_now :: "'w \<Rightarrow> int \<times> 'w"
  lt_rand :: "'w \<Rightarrow> int \<times> 'w"
  lt_srand :: "'w \<Rightarrow> 'w"

definition create_client ::
  "('w, 'l) lt_calls_scheme \<Rightarrow> Config \<Rightarrow> nat option \<Rightarrow> 'w \<Rightarrow> (failure + client) \<times> nat option \<times> 'w" where
  "create_client lc cfg ctx w =
     (if client_type cfg = TCP
      then (case TCPClient_new (lt_os lc) (lt_net lc) ''127.0.0.1'' 23456 w of (r, w') \<Rightarrow> (r, ctx, w'))
      else SSLClient_new (lt_os lc) (lt_ssl lc) (lt_net lc) (lt_sslcli lc) ''127.0.0.1'' 23457 ctx w)"

definition alphabet :: string where
  "alphabet = ''0123456789ABCDEFGHIJKLMNOPQRSTUVWXYZabcdefghijklmnopqrstuvwxyz''"

fun random_loop :: "('w \<Rightarrow> int \<times> 'w) \<Rightarrow> nat \<Rightarrow> string \<Rightarrow> 'w \<Rightarrow> string \<times> 'w" where
  "random_loop rand 0 r w = (r, w)"
| "random_loop rand (Suc n) r w =
     (case rand w of (x, w1) \<Rightarrow> random_loop rand n (r @ [alphabet ! nat (x mod 62)]) w1)"

definition random_string :: "('w \<Rightarrow> int \<times> 'w) \<Rightarrow> nat \<Rightarrow> 'w \<Rightarrow> string \<times> 'w" where
  "random_string rand n w = random_loop rand n '''' w"

text \<open>What the handler \<^verbatim>\<open>catch (std::exception&)\<close> catches.\<close>

fun std_exception :: "failure \<Rightarrow> bool" where
  "std_exception (RuntimeError m) = True"
| "std_exception (NonRecoverableException m) = True"
| "std_exception OutOfRange = True"
| "std_exception UndefinedBehaviour = False"
| "std_exception Diverges = False"

definition classify :: "string \<Rightarrow> string \<Rightarrow> Output" where
  "classify str response =
     (if response = str then Success else if response = '''' then Timeout else Incorrect)"

text \<open>
  The body of the loop over the attempts. A failure of the result leaves the thread's function;
  the client is destroyed at the end of the body.
\<close>

definition attempt ::
  "('w, 'l) lt_calls_scheme \<Rightarrow> Config \<Rightarrow> nat option \<Rightarrow> 'w \<Rightarrow> (failure + Result) \<times> nat option \<times> 'w" where
  "attempt lc cfg ctx w =
     (case random_string (lt_rand lc) 10 w of (s, w1) \<Rightarrow>
      let str = s @ lf in
      case lt_now lc w1 of (start, w2) \<Rightarrow>
      (case create_client lc cfg ctx w2 of
         (Inl e, ctx', w3) \<Rightarrow>
           (if std_exception e then Inr \<lparr> duration = None, output = FailedToConnect \<rparr> else Inl e, ctx', w3)
       | (Inr c, ctx', w3) \<Rightarrow>
      (case client_send (lt_os lc) (lt_ssl lc) c str w3 of
         (Inl e, w4) \<Rightarrow> (Inl e, ctx', w4)
       | (Inr _, w4) \<Rightarrow>
      (case recv_spinlock (client_recv (lt_os lc) (lt_ssl lc) c) (lt_now lc) 11 30000 w4 of
         (Inl e, w5) \<Rightarrow> (Inl e, ctx', w5)
       | (Inr r, w5) \<Rightarrow>
           (case lt_now lc w5 of (stop, w6) \<Rightarrow>
              (Inr \<lparr> duration = Some (stop - start),
                     output = classify str (case r of Some b \<Rightarrow> b | None \<Rightarrow> '''') \<rparr>,
               ctx', client_destroy (lt_os lc) (lt_ssl lc) c w6))))))"

subsection \<open>The threads\<close>

text \<open>The attempts each thread has left, the shared vector of results, the static context of the clients, the world.\<close>

record 'w load_state =
  ls_left :: "nat list"
  ls_results :: "Result list"
  ls_ctx :: "nat option"
  ls_world :: 'w

definition load_init :: "Config \<Rightarrow> nat option \<Rightarrow> 'w \<Rightarrow> 'w load_state" where
  "load_init cfg ctx w = \<lparr> ls_left = replicate (unat (n_threads cfg)) (unat (n_attempts cfg)),
     ls_results = [], ls_ctx = ctx, ls_world = w \<rparr>"

text \<open>Thread \<open>i\<close> makes its next attempt; a thread that is at the end of its loop does nothing.\<close>

definition thread_step ::
  "('w, 'l) lt_calls_scheme \<Rightarrow> Config \<Rightarrow> nat \<Rightarrow> 'w load_state \<Rightarrow> failure + 'w load_state" where
  "thread_step lc cfg i st =
     (if i < length (ls_left st) \<and> 0 < ls_left st ! i then
        (case attempt lc cfg (ls_ctx st) (ls_world st) of
           (Inl e, _) \<Rightarrow> Inl e
         | (Inr r, ctx, w) \<Rightarrow> Inr (st\<lparr>ls_left := (ls_left st)[i := ls_left st ! i - 1],
               ls_results := ls_results st @ [r], ls_ctx := ctx, ls_world := w\<rparr>))
      else Inr st)"

fun load_run ::
  "('w, 'l) lt_calls_scheme \<Rightarrow> Config \<Rightarrow> nat list \<Rightarrow> 'w load_state \<Rightarrow> failure + 'w load_state" where
  "load_run lc cfg [] st = Inr st"
| "load_run lc cfg (i # is) st =
     (case thread_step lc cfg i st of Inl e \<Rightarrow> Inl e | Inr st' \<Rightarrow> load_run lc cfg is st')"

text \<open>Every thread can be joined.\<close>

definition load_joined :: "'w load_state \<Rightarrow> bool" where
  "load_joined st \<longleftrightarrow> (\<forall>n \<in> set (ls_left st). n = 0)"

subsection \<open>The report\<close>

text \<open>Times are nanoseconds. The counts are of elements of one vector, whose length fits a \<^verbatim>\<open>size_t\<close>.\<close>

record report =
  success :: nat
  timeout :: nat
  incorrect :: nat
  failed_to_connect :: nat
  total_time :: int
  best_time :: int
  worst_time :: int

definition report_init :: report where
  "report_init = \<lparr> success = 0, timeout = 0, incorrect = 0, failed_to_connect = 0,
     total_time = 0, best_time = 60000 * 1000000, worst_time = 0 \<rparr>"

definition report_result :: "Result \<Rightarrow> report \<Rightarrow> report" where
  "report_result res rp =
     (let rp = (if output res = Success then
                  let d = the (duration res);
                      rp = rp\<lparr>success := success rp + 1, total_time := total_time rp + d\<rparr>;
                      rp = (if worst_time rp < d then rp\<lparr>worst_time := d\<rparr> else rp)
                  in if d < best_time rp then rp\<lparr>best_time := d\<rparr> else rp
                else rp);
          rp = (if output res = Timeout then rp\<lparr>timeout := timeout rp + 1\<rparr> else rp);
          rp = (if output res = Incorrect then rp\<lparr>incorrect := incorrect rp + 1\<rparr> else rp)
      in if output res = FailedToConnect then rp\<lparr>failed_to_connect := failed_to_connect rp + 1\<rparr> else rp)"

definition make_report :: "Result list \<Rightarrow> report" where
  "make_report results = fold report_result results report_init"

definition report_line :: "Result list \<Rightarrow> report \<Rightarrow> string" where
  "report_line results rp =
     ''Out of '' @ show_nat (length results) @ '' requests: '' @ show_nat (success rp) @ '' succeeded, '' @
     show_nat (timeout rp) @ '' timed out, '' @ show_nat (incorrect rp) @ '' returned an incorrect result, and '' @
     show_nat (failed_to_connect rp) @ '' failed to connect.'' @ lf"

text \<open>The average, best and worst time in microseconds, printed when an attempt succeeded.\<close>

definition report_times :: "report \<Rightarrow> (int \<times> int \<times> int) option" where
  "report_times rp =
     (if 0 < success rp
      then Some ((total_time rp div int (success rp)) div 1000, best_time rp div 1000, worst_time rp div 1000)
      else None)"

definition exit_status :: "report \<Rightarrow> int" where
  "exit_status rp = (if 0 < timeout rp + incorrect rp + failed_to_connect rp then EXIT_FAILURE else EXIT_SUCCESS)"

subsection \<open>main\<close>

text \<open>
  \<open>start\<close> and \<open>stop\<close> are the functions that run and kill the server. The status comes with the
  line and the times printed. A schedule that does not bring every thread to its end leaves
  \<^verbatim>\<open>main\<close> waiting in \<^verbatim>\<open>join\<close>, the value \<open>None\<close>.
\<close>

definition load_main ::
  "(ClientType \<Rightarrow> 'w \<Rightarrow> 'pid outcome \<times> 'w) \<Rightarrow> ('pid \<Rightarrow> 'w \<Rightarrow> 'w) \<Rightarrow> ('w, 'l) lt_calls_scheme \<Rightarrow> bool \<Rightarrow>
     string list \<Rightarrow> nat list \<Rightarrow> 'w \<Rightarrow> ((int \<times> string \<times> (int \<times> int \<times> int) option) outcome \<times> 'w) option" where
  "load_main start stop lc env args sched w =
     (let w = lt_srand lc w in
      case parse_args env args of
        None \<Rightarrow> None
      | Some (Inl status, _) \<Rightarrow> Some (Exits status, w)
      | Some (Inr cfg, _) \<Rightarrow>
          (let (server, w1) =
             (if run_server_opt cfg then
                (case start (client_type cfg) w of
                   (Returns pid, v) \<Rightarrow> (Returns (Some pid), v)
                 | (Exits status, v) \<Rightarrow> (Exits status, v)
                 | (Execs, v) \<Rightarrow> (Execs, v)
                 | (Terminates e, v) \<Rightarrow> (Terminates e, v))
              else (Returns None, w))
           in case server of
                Exits status \<Rightarrow> Some (Exits status, w1)
              | Execs \<Rightarrow> Some (Execs, w1)
              | Terminates e \<Rightarrow> Some (Terminates e, w1)
              | Returns pid \<Rightarrow>
                  (case load_run lc cfg sched (load_init cfg None w1) of
                     Inl e \<Rightarrow> Some (Terminates e, w1)
                   | Inr st \<Rightarrow>
                       if \<not> load_joined st then None
                       else
                         (let rp = make_report (ls_results st);
                              w2 = (case pid of Some p \<Rightarrow> stop p (ls_world st) | None \<Rightarrow> ls_world st)
                          in Some (Returns (exit_status rp, report_line (ls_results st) rp, report_times rp), w2)))))"


subsection \<open>Facts on the random line\<close>

lemma alphabet_length: "length alphabet = 62"
  by (simp add: alphabet_def)

lemma random_loop_spec:
  "random_loop rand n r w = (s, w') \<Longrightarrow> \<exists>t. s = r @ t \<and> length t = n \<and> set t \<subseteq> set alphabet"
proof (induction n arbitrary: r w)
  case (Suc n)
  obtain x w1 where x: "rand w = (x, w1)" by fastforce
  have "nat (x mod 62) < 62" by (simp add: nat_less_iff)
  then have c: "alphabet ! nat (x mod 62) \<in> set alphabet" using alphabet_length by simp
  from Suc.IH [of "r @ [alphabet ! nat (x mod 62)]" w1] Suc.prems x
  obtain t where "s = (r @ [alphabet ! nat (x mod 62)]) @ t" "length t = n" "set t \<subseteq> set alphabet" by auto
  with c show ?case by (intro exI [of _ "alphabet ! nat (x mod 62) # t"]) simp
qed simp

lemma random_string_line:
  assumes "random_string rand n w = (s, w')"
  shows "length s = n" and "CHR 0x0A \<notin> set s" and "set s \<subseteq> set alphabet"
proof -
  have "length s = n \<and> set s \<subseteq> set alphabet"
    using random_loop_spec [of rand n "''''" w s w'] assms by (auto simp: random_string_def)
  moreover have "CHR 0x0A \<notin> set alphabet" by (simp add: alphabet_def)
  ultimately show "length s = n" "CHR 0x0A \<notin> set s" "set s \<subseteq> set alphabet" by auto
qed

subsection \<open>Facts on the report\<close>

text \<open>The results of one kind, and the durations of the successful attempts.\<close>

definition results_of :: "Output \<Rightarrow> Result list \<Rightarrow> Result list" where
  "results_of o' rs = filter (\<lambda>r. output r = o') rs"

definition durations :: "Result list \<Rightarrow> int list" where
  "durations rs = map (\<lambda>r. the (duration r)) (results_of Success rs)"

lemma results_of_simps [simp]:
  "results_of o' [] = []"
  "results_of o' (r # rs) = (if output r = o' then r # results_of o' rs else results_of o' rs)"
  by (simp_all add: results_of_def)

lemma durations_simps [simp]:
  "durations [] = []"
  "durations (r # rs) = (if output r = Success then the (duration r) # durations rs else durations rs)"
  by (simp_all add: durations_def)

lemma report_counts:
  "success (fold report_result rs rp) = success rp + length (results_of Success rs)"
  "timeout (fold report_result rs rp) = timeout rp + length (results_of Timeout rs)"
  "incorrect (fold report_result rs rp) = incorrect rp + length (results_of Incorrect rs)"
  "failed_to_connect (fold report_result rs rp) = failed_to_connect rp + length (results_of FailedToConnect rs)"
  by (induction rs arbitrary: rp; simp add: report_result_def Let_def)+

lemma report_total: "total_time (fold report_result rs rp) = total_time rp + sum_list (durations rs)"
  by (induction rs arbitrary: rp) (simp_all add: report_result_def Let_def)

lemma report_best: "best_time (fold report_result rs rp) = fold min (durations rs) (best_time rp)"
  by (induction rs arbitrary: rp) (simp_all add: report_result_def Let_def min_def)

lemma report_worst: "worst_time (fold report_result rs rp) = fold max (durations rs) (worst_time rp)"
  by (induction rs arbitrary: rp) (simp_all add: report_result_def Let_def max_def)

lemmas report_fields = report_counts report_total report_best report_worst

lemma fold_min_Min: "fold min xs (x :: int) = Min (insert x (set xs))"
  using Min.set_eq_fold [of x xs] by simp

lemma fold_max_Max: "fold max xs (x :: int) = Max (insert x (set xs))"
  using Max.set_eq_fold [of x xs] by simp

text \<open>The kinds of results are finitely many, and every result is of one kind.\<close>

instantiation Output :: enum
begin

definition enum_Output :: "Output list" where
  "enum_Output = [Success, Timeout, Incorrect, FailedToConnect]"

definition enum_all_Output :: "(Output \<Rightarrow> bool) \<Rightarrow> bool" where
  "enum_all_Output P \<longleftrightarrow> P Success \<and> P Timeout \<and> P Incorrect \<and> P FailedToConnect"

definition enum_ex_Output :: "(Output \<Rightarrow> bool) \<Rightarrow> bool" where
  "enum_ex_Output P \<longleftrightarrow> P Success \<or> P Timeout \<or> P Incorrect \<or> P FailedToConnect"

instance
proof
  show "UNIV = set (enum_class.enum :: Output list)" by (auto simp: enum_Output_def intro: Output.exhaust)
  show "distinct (enum_class.enum :: Output list)" by (simp add: enum_Output_def)
  show "enum_class.enum_all P \<longleftrightarrow> Ball UNIV P" for P :: "Output \<Rightarrow> bool" unfolding enum_all_Output_def by (metis Output.exhaust UNIV_I)
  show "enum_class.enum_ex P \<longleftrightarrow> Bex UNIV P" for P :: "Output \<Rightarrow> bool" unfolding enum_ex_Output_def by (metis Output.exhaust UNIV_I)
qed

end

lemma results_by_kind: "(\<Sum>k \<in> UNIV. length (results_of k rs)) = length rs"
proof (induction rs)
  case (Cons r rs)
  have "length (results_of k (r # rs)) = (if k = output r then 1 else 0) + length (results_of k rs)" for k by simp
  with Cons show ?case by (simp only: sum.distrib) simp
qed simp

lemma results_partition:
  "length (results_of Success rs) + length (results_of Timeout rs) + length (results_of Incorrect rs) +
   length (results_of FailedToConnect rs) = length rs"
  using results_by_kind [of rs] by (simp add: UNIV_enum enum_Output_def)

lemma mset_results_of: "mset (results_of o' rs) = filter_mset (\<lambda>r. output r = o') (mset rs)"
  by (simp add: results_of_def)

lemma mset_durations: "mset (durations rs) = image_mset (\<lambda>r. the (duration r)) (filter_mset (\<lambda>r. output r = Success) (mset rs))"
  by (simp add: durations_def results_of_def)


lemma make_report_eq:
  "make_report rs = \<lparr> success = length (results_of Success rs), timeout = length (results_of Timeout rs),
     incorrect = length (results_of Incorrect rs), failed_to_connect = length (results_of FailedToConnect rs),
     total_time = sum_list (durations rs), best_time = Min (insert 60000000000 (set (durations rs))),
     worst_time = Max (insert 0 (set (durations rs))) \<rparr>"
  by (rule report.equality)
    (simp_all add: make_report_def report_fields report_init_def fold_min_Min fold_max_Max)

lemma sum_list_lower: "(\<And>x. x \<in> set xs \<Longrightarrow> b \<le> x) \<Longrightarrow> b * int (length xs) \<le> sum_list xs" for xs :: "int list"
  by (induction xs) (force simp: algebra_simps)+

lemma sum_list_upper: "(\<And>x. x \<in> set xs \<Longrightarrow> x \<le> b) \<Longrightarrow> sum_list xs \<le> b * int (length xs)" for xs :: "int list"
  by (induction xs) (force simp: algebra_simps)+

lemma mean_bounds:
  assumes "ds \<noteq> []" and "\<And>d. d \<in> set ds \<Longrightarrow> b \<le> d \<and> d \<le> w"
  shows "b \<le> sum_list ds div int (length ds) \<and> sum_list ds div int (length ds) \<le> w"
proof -
  have n: "0 < int (length ds)" using assms(1) by simp
  have "b = (b * int (length ds)) div int (length ds)" "w = (w * int (length ds)) div int (length ds)" using n by simp_all
  then show ?thesis
    using zdiv_mono1 [OF sum_list_lower [of ds b] n] zdiv_mono1 [OF sum_list_upper [of ds w] n] assms(2) by metis
qed

subsection \<open>Facts on the threads\<close>

lemma thread_step_cases:
  assumes "thread_step lc cfg i st = Inr st'"
  shows "st' = st \<and> \<not> (i < length (ls_left st) \<and> 0 < ls_left st ! i) \<or>
    (\<exists>r ctx w. i < length (ls_left st) \<and> 0 < ls_left st ! i \<and>
       attempt lc cfg (ls_ctx st) (ls_world st) = (Inr r, ctx, w) \<and>
       st' = st\<lparr>ls_left := (ls_left st)[i := ls_left st ! i - 1], ls_results := ls_results st @ [r], ls_ctx := ctx, ls_world := w\<rparr>)"
  using assms by (auto simp: thread_step_def split: if_splits prod.splits sum.splits)

lemma thread_step_count:
  assumes "thread_step lc cfg i st = Inr st'"
  shows "length (ls_results st') + sum_list (ls_left st') = length (ls_results st) + sum_list (ls_left st)"
    and "length (ls_left st') = length (ls_left st)"
    and "\<And>k. k < length (ls_left st) \<Longrightarrow> ls_left st' ! k = ls_left st ! k - (if k = i then 1 else 0)"
proof -
  have "sum_list (xs[i := xs ! i - 1]) + 1 = sum_list xs" if "i < length xs" "0 < xs ! i" for xs :: "nat list"
    using that sum_list_update [of i xs "xs ! i - 1"] member_le_sum_list [of "xs ! i" xs] by simp
  then show "length (ls_results st') + sum_list (ls_left st') = length (ls_results st) + sum_list (ls_left st)"
    using thread_step_cases [OF assms] by fastforce
  show "length (ls_left st') = length (ls_left st)" using thread_step_cases [OF assms] by auto
  show "ls_left st' ! k = ls_left st ! k - (if k = i then 1 else 0)" if "k < length (ls_left st)" for k
    using thread_step_cases [OF assms] that by (auto simp: nth_list_update)
qed

lemma load_run_count:
  assumes "load_run lc cfg sched st = Inr st'"
  shows "length (ls_results st') + sum_list (ls_left st') = length (ls_results st) + sum_list (ls_left st) \<and>
    length (ls_left st') = length (ls_left st) \<and>
    (\<forall>k < length (ls_left st). ls_left st' ! k = ls_left st ! k - count_list sched k)"
  using assms
proof (induction sched arbitrary: st)
  case (Cons i sched)
  obtain st1 where st1: "thread_step lc cfg i st = Inr st1" "load_run lc cfg sched st1 = Inr st'"
    using Cons.prems by (auto split: sum.splits)
  from Cons.IH [OF st1(2)] thread_step_count [OF st1(1)] show ?case by auto
qed simp

lemma load_joined_iff: "load_joined st \<longleftrightarrow> sum_list (ls_left st) = 0"
  by (simp add: load_joined_def)

lemma load_run_init:
  assumes "load_run lc cfg sched (load_init cfg ctx w) = Inr st"
  shows "length (ls_results st) + sum_list (ls_left st) = unat (n_threads cfg) * unat (n_attempts cfg)"
    and "load_joined st \<longleftrightarrow> (\<forall>i < unat (n_threads cfg). unat (n_attempts cfg) \<le> count_list sched i)"
proof -
  note c = load_run_count [OF assms]
  show "length (ls_results st) + sum_list (ls_left st) = unat (n_threads cfg) * unat (n_attempts cfg)"
    using c by (simp add: load_init_def sum_list_replicate)
  have "ls_left st = map (\<lambda>k. unat (n_attempts cfg) - count_list sched k) [0..<unat (n_threads cfg)]"
    using c by (intro nth_equalityI) (simp_all add: load_init_def)
  then show "load_joined st \<longleftrightarrow> (\<forall>i < unat (n_threads cfg). unat (n_attempts cfg) \<le> count_list sched i)"
    by (auto simp: load_joined_def)
qed


subsection \<open>Facts on the descriptors\<close>

text \<open>What an attempt relies on: the contracts of the calls, and that the clock and the random numbers open nothing.\<close>

definition lt_contract :: "('w, 'l) lt_calls_scheme \<Rightarrow> bool" where
  [contract_defs]: "lt_contract lc \<longleftrightarrow>
     fd_table_contract (lt_os lc) \<and> ssl_fd_contract (lt_os lc) (lt_ssl lc) \<and> net_contract (lt_os lc) (lt_net lc) \<and>
     sslcli_contract (lt_os lc) (lt_sslcli lc) \<and> keeps (os_open (lt_os lc)) (lt_now lc) \<and>
     keeps (os_open (lt_os lc)) (lt_rand lc)"

lemma random_loop_keeps: "keeps obs rand \<Longrightarrow> random_loop rand n r w = (s, w') \<Longrightarrow> obs w' = obs w"
proof (induction n arbitrary: r w)
  case (Suc n)
  obtain x w1 where x: "rand w = (x, w1)" by fastforce
  from Suc.IH [OF Suc.prems(1), of "r @ [alphabet ! nat (x mod 62)]" w1] Suc.prems(2) x keepsD [OF Suc.prems(1) x]
  show ?case by simp
qed simp

text \<open>The descriptors after a client was constructed, or not.\<close>

definition new_client_open :: "('w, 'z) os_scheme \<Rightarrow> (failure + client) \<Rightarrow> 'w \<Rightarrow> 'w \<Rightarrow> bool" where
  "new_client_open os r w w' \<longleftrightarrow> (case r of
       Inr c \<Rightarrow> client_fd c \<notin> os_open os w \<and> os_open os w' = insert (client_fd c) (os_open os w)
     | Inl (RuntimeError m) \<Rightarrow> os_open os w' = os_open os w
     | Inl Diverges \<Rightarrow> True
     | Inl e \<Rightarrow> os_open os w' = os_open os w \<or>
         (\<exists>fd. fd \<notin> os_open os w \<and> os_open os w' = insert fd (os_open os w)))"

lemma TCPClient_new_open:
  assumes "fd_table_contract os" and "net_contract os nt" and "TCPClient_new os nt host port w = (r, w')"
  shows "new_client_open os r w w'"
proof -
  obtain q w1 where q: "open_connection os nt host port w = (q, w1)" by fastforce
  from open_connection_open [OF assms(1,2) q] assms(3) q show ?thesis
    by (cases q) (auto simp: TCPClient_new_def new_client_open_def split: failure.splits)
qed

lemma SSLClient_new_client_open:
  assumes "fd_table_contract os" and "ssl_fd_contract os sl" and "net_contract os nt" and sc: "sslcli_contract os sc"
    and "SSLClient_new os sl nt sc host port ctx w = (r, ctx', w')"
  shows "new_client_open os r w w'"
proof -
  obtain q w1 where q: "open_connection os nt host port w = (q, w1)" by fastforce
  note o = open_connection_open [OF assms(1,3) q]
  obtain i cx w2 where i: "initialize_ctx sc ctx w1 = (i, cx, w2)" by (metis prod_cases3)
  have k: "keeps (os_open os) (sc_ctx_new sc)" "keeps (os_open os) (sc_default_paths sc c)"
    "keeps (os_open os) (sc_new sc c)" "keeps (os_open os) (sc_set_host sc ssl h)"
    "keeps (os_open os) (sc_connect sc ssl)" "keeps (os_open os) (sc_get_error sc ssl e)"
    "keeps (os_open os) (ssl_set_fd sl ssl fd)" for c ssl h e fd
    using sc calls_keepD(7) [OF calls_keep_open [OF assms(1,2)]] by (simp_all add: sslcli_contract_def)
  have i2: "os_open os w2 = os_open os w1" "i = Inr () \<or> (\<exists>m. i = Inl (NonRecoverableException m))"
    using i by (auto simp: initialize_ctx_def split: option.splits prod.splits if_splits
        dest!: keepsD [OF k(1)] keepsD [OF k(2)])
  obtain ssl w3 where n: "sc_new sc (the cx) w2 = (ssl, w3)" by fastforce
  obtain a w4 where h: "sc_set_host sc ssl (takeWhile (\<lambda>c. c \<noteq> NUL) host) w3 = (a, w4)" by fastforce
  show ?thesis
  proof (cases q)
    case (Inl e)
    with o assms(5) q show ?thesis by (auto simp: SSLClient_new_def new_client_open_def split: failure.splits)
  next
    case (Inr fd)
    obtain b w5 where s: "ssl_set_fd sl ssl fd w4 = (b, w5)" by fastforce
    have "os_open os w5 = insert fd (os_open os w)" "fd \<notin> os_open os w"
      using o Inr keepsD [OF k(3) n] keepsD [OF k(4) h] keepsD [OF k(7) s] i2(1) by auto
    then show ?thesis
      using assms(5) q i i2 n h s Inr o handshake_keeps [OF k(5,6), of ssl w5]
      by (auto simp: SSLClient_new_def new_client_open_def close_socket_open [OF assms(1)] split: option.splits)
  qed
qed

lemma create_client_open:
  assumes "lt_contract lc" and "create_client lc cfg ctx w = (r, ctx', w')"
  shows "new_client_open (lt_os lc) r w w'"
  using assms TCPClient_new_open SSLClient_new_client_open
  by (fastforce simp: create_client_def lt_contract_def split: if_splits prod.splits)

lemma classify_not_failed: "classify str response \<noteq> FailedToConnect"
  by (simp add: classify_def)

text \<open>An attempt that got to the end of its body, in its parts.\<close>

lemma attempt_cases:
  assumes "attempt lc cfg ctx w = (Inr res, ctx', w')"
  obtains (failed) s w1 start w2 e where "random_string (lt_rand lc) 10 w = (s, w1)" and "lt_now lc w1 = (start, w2)"
      and "create_client lc cfg ctx w2 = (Inl e, ctx', w')" and "std_exception e"
      and "res = \<lparr> duration = None, output = FailedToConnect \<rparr>"
  | (finished) s w1 start w2 c w3 w4 r w5 stop w6 where "random_string (lt_rand lc) 10 w = (s, w1)"
      and "lt_now lc w1 = (start, w2)" and "create_client lc cfg ctx w2 = (Inr c, ctx', w3)"
      and "client_send (lt_os lc) (lt_ssl lc) c (s @ lf) w3 = (Inr (), w4)"
      and "recv_spinlock (client_recv (lt_os lc) (lt_ssl lc) c) (lt_now lc) 11 30000 w4 = (Inr r, w5)"
      and "lt_now lc w5 = (stop, w6)" and "w' = client_destroy (lt_os lc) (lt_ssl lc) c w6"
      and "res = \<lparr> duration = Some (stop - start), output = classify (s @ lf) (case r of Some b \<Rightarrow> b | None \<Rightarrow> '''') \<rparr>"
  using assms unfolding attempt_def Let_def
  by (auto split: prod.splits sum.splits if_splits)


lemma attempt_open:
  assumes lc: "lt_contract lc" and "attempt lc cfg ctx w = (Inr res, ctx', w')"
  shows "os_open (lt_os lc) w' = os_open (lt_os lc) w \<or>
    output res = FailedToConnect \<and> (\<exists>fd. fd \<notin> os_open (lt_os lc) w \<and> os_open (lt_os lc) w' = insert fd (os_open (lt_os lc) w))"
  using assms(2)
proof (cases rule: attempt_cases)
  let ?open = "os_open (lt_os lc)"
  have k: "keeps ?open (lt_now lc)" "keeps ?open (lt_rand lc)" "calls_keep (lt_os lc) (lt_ssl lc) ?open"
    using lc calls_keep_open [of "lt_os lc" "lt_ssl lc"] by (simp_all add: lt_contract_def)
  have start: "?open w2 = ?open w" if "random_string (lt_rand lc) 10 w = (s, w1)" "lt_now lc w1 = (t, w2)" for s w1 t w2
    using random_loop_keeps [OF k(2)] keepsD [OF k(1) that(2)] that(1) by (simp add: random_string_def)
  {
    case (failed s w1 start w2 e)
    from create_client_open [OF lc failed(3)] start [OF failed(1,2)] failed(4,5) show ?thesis
      by (cases e) (auto simp: new_client_open_def)
  next
    case (finished s w1 start w2 c w3 w4 r w5 stop w6)
    have "?open w3 = insert (client_fd c) (?open w)" "client_fd c \<notin> ?open w"
      using create_client_open [OF lc finished(3)] start [OF finished(1,2)] by (auto simp: new_client_open_def)
    moreover have "?open w6 = ?open w3"
      using client_send_keeps [OF k(3) finished(4)] recv_spinlock_keeps [OF client_recv_keeps [OF k(3)] k(1) finished(5)]
        keepsD [OF k(1) finished(6)] by simp
    ultimately show ?thesis using lc finished(7) by (simp add: client_destroy_open lt_contract_def)
  }
qed

subsection \<open>A concrete environment\<close>

definition sim_lt_sslcli :: "sim_cli sslcli" where
  "sim_lt_sslcli = \<lparr> sc_ctx_new = (\<lambda>w. (1, w)), sc_default_paths = (\<lambda>c w. (1, w)),
     sc_new = (\<lambda>c w. (2, w)), sc_set_host = (\<lambda>ssl h w. (1, w)), sc_connect = (\<lambda>ssl w. (1, w)),
     sc_get_error = (\<lambda>ssl r w. (1, w)) \<rparr>"

definition sim_lt :: "sim_cli lt_calls" where
  "sim_lt = \<lparr> lt_os = sim_cli_os, lt_ssl = sim_ssl, lt_net = sim_nt, lt_sslcli = sim_lt_sslcli,
     lt_now = sim_now, lt_rand = (\<lambda>w. (7, w)), lt_srand = (\<lambda>w. w) \<rparr>"

definition sim_tcp_config :: Config where
  "sim_tcp_config = default_config\<lparr>client_type := TCP\<rparr>"

lemma sim_cli_fd_table: "fd_table_contract sim_cli_os"
  by (auto simp: fd_table_contract_def sim_cli_os_def sim_os_def sim_send_def sim_recv_def Let_def
      split: list.splits prod.splits)

lemma sim_cli_open: "os_open sim_cli_os = sim_open"
  by (simp add: sim_cli_os_def sim_os_def)

lemma sim_lt_contract: "lt_contract sim_lt"
proof -
  have "net_contract (sim_os :: sim_cli os) sim_nt" by (rule sim_net_contract)
  then have "net_contract sim_cli_os sim_nt" by (simp add: net_contract_def opens_def sim_cli_os_def)
  moreover have "ssl_fd_contract sim_cli_os sim_ssl"
    by (auto simp: ssl_fd_contract_def sim_cli_os_def sim_os_def sim_ssl_def sim_recv_def sim_send_def Let_def
        split: list.splits prod.splits)
  ultimately show ?thesis
    by (simp add: lt_contract_def sim_lt_def sim_cli_fd_table sslcli_contract_def sim_lt_sslcli_def keeps_def sim_now_def sim_cli_open)
qed

text \<open>No address: the attempt fails to connect.\<close>

lemma sim_random: "\<exists>s. random_loop (lt_rand sim_lt) n r w = (s, w)"
  by (induction n arbitrary: r) (simp_all add: sim_lt_def)

lemma sim_create_failed:
  assumes "sim_addrs w = []"
  shows "\<exists>m. create_client sim_lt sim_tcp_config ctx w = (Inl (RuntimeError m), ctx, w)"
proof -
  have "net_getaddrinfo sim_nt h p hints w = ((-2, []), w)" for h p hints using assms by (simp add: sim_nt_def)
  then have "\<exists>m. open_connection sim_cli_os sim_nt host port w = (Inl (RuntimeError m), w)" for host port
    by (simp add: open_connection_def io_bind_call)
  then obtain m where "open_connection sim_cli_os sim_nt ''127.0.0.1'' 23456 w = (Inl (RuntimeError m), w)" by blast
  then have "TCPClient_new sim_cli_os sim_nt ''127.0.0.1'' 23456 w = (Inl (RuntimeError m), w)" by (simp add: TCPClient_new_def)
  then show ?thesis by (simp add: create_client_def sim_lt_def sim_tcp_config_def default_config_def)
qed

lemma sim_attempt_failed:
  assumes "sim_addrs w = []"
  shows "attempt sim_lt sim_tcp_config ctx w =
     (Inr \<lparr> duration = None, output = FailedToConnect \<rparr>, ctx, w\<lparr>sim_time := sim_time w + 1000000\<rparr>)"
proof -
  obtain s where s: "random_string (lt_rand sim_lt) 10 w = (s, w)" using sim_random by (metis random_string_def)
  have n: "lt_now sim_lt w = (sim_time w + 1000000, w\<lparr>sim_time := sim_time w + 1000000\<rparr>)"
    by (simp add: sim_lt_def sim_now_def)
  obtain m where "create_client sim_lt sim_tcp_config ctx (w\<lparr>sim_time := sim_time w + 1000000\<rparr>) =
      (Inl (RuntimeError m), ctx, w\<lparr>sim_time := sim_time w + 1000000\<rparr>)"
    using sim_create_failed [of "w\<lparr>sim_time := sim_time w + 1000000\<rparr>" ctx] assms by auto
  with s n show ?thesis by (simp add: attempt_def)
qed


subsection \<open>The theorems\<close>

text \<open>
  C30. An attempt of the load test gives back the descriptors it took: whatever the peer does, an
  attempt that connects and ends with a result leaves exactly the descriptors open that were open
  before. Only one that fails to connect can leave one behind, the socket that could not be made
  non-blocking.
\<close>

theorem attempt_closes_client:
  assumes "lt_contract lc" and "attempt lc cfg ctx w = (Inr res, ctx', w')"
  shows "os_open (lt_os lc) w' = os_open (lt_os lc) w \<or>
    output res = FailedToConnect \<and> (\<exists>fd. fd \<notin> os_open (lt_os lc) w \<and> os_open (lt_os lc) w' = insert fd (os_open (lt_os lc) w))"
  using assms by (rule attempt_open)

theorem attempt_closes_client_witness:
  "\<exists>res w'. attempt sim_lt sim_tcp_config None (sim_cli_world\<lparr>sim_open := {0, 5}\<rparr>) = (Inr res, None, w') \<and>
     (sim_open w' = {0, 5} \<or> output res = FailedToConnect \<and> (\<exists>fd. fd \<notin> {0, 5} \<and> sim_open w' = insert fd {0, 5}))"
proof -
  have "sim_addrs (sim_cli_world\<lparr>sim_open := {0, 5}\<rparr>) = []" by (simp add: sim_cli_eval)
  note run = sim_attempt_failed [OF this, of None]
  have "os_open (lt_os sim_lt) = sim_open" by (simp add: sim_lt_def sim_cli_open)
  with attempt_closes_client [OF sim_lt_contract run] run show ?thesis by simp
qed

text \<open>
  C33. The report is exact: each count is the number of results of its kind, the kinds add up to
  the number of requests, the times are the sum, the minimum (at most a minute) and the maximum of
  the durations of the successful attempts, and the exit status is success exactly when every
  request succeeded.
\<close>

theorem report_exact:
  "success (make_report rs) = length (results_of Success rs) \<and>
   timeout (make_report rs) = length (results_of Timeout rs) \<and>
   incorrect (make_report rs) = length (results_of Incorrect rs) \<and>
   failed_to_connect (make_report rs) = length (results_of FailedToConnect rs) \<and>
   success (make_report rs) + timeout (make_report rs) + incorrect (make_report rs) + failed_to_connect (make_report rs)
     = length rs \<and>
   total_time (make_report rs) = sum_list (durations rs) \<and>
   best_time (make_report rs) = Min (insert 60000000000 (set (durations rs))) \<and>
   worst_time (make_report rs) = Max (insert 0 (set (durations rs))) \<and>
   (exit_status (make_report rs) = EXIT_SUCCESS \<longleftrightarrow> length (results_of Success rs) = length rs)"
  using results_partition [of rs]
  by (auto simp: make_report_eq exit_status_def EXIT_SUCCESS_def EXIT_FAILURE_def)

text \<open>
  The report does not depend on the order in which the threads appended their results: two
  vectors with the same results, in any order, give the same report.
\<close>

theorem report_order_irrelevant:
  assumes "mset rs = mset rs'"
  shows "make_report rs = make_report rs'"
proof -
  have r: "length (results_of o' rs) = length (results_of o' rs')" for o'
    using assms by (metis mset_results_of size_mset)
  have d: "mset (durations rs) = mset (durations rs')" using assms by (simp add: mset_durations)
  then have "set (durations rs) = set (durations rs')" "sum_list (durations rs) = sum_list (durations rs')"
    by (metis set_mset_mset, metis sum_mset_sum_list)
  with r show ?thesis by (simp add: make_report_eq)
qed

definition sim_result :: "int \<Rightarrow> Result" where
  "sim_result d = \<lparr> duration = Some d, output = Success \<rparr>"

theorem report_order_irrelevant_witness:
  "make_report [sim_result 5, \<lparr> duration = None, output = FailedToConnect \<rparr>, sim_result 3] =
   make_report [\<lparr> duration = None, output = FailedToConnect \<rparr>, sim_result 3, sim_result 5]"
  by (rule report_order_irrelevant) simp




text \<open>
  C31. For every schedule of the threads no attempt is lost or made twice: the results gathered and the
  attempts left always add up to threads times attempts, and \<^verbatim>\<open>main\<close> gets past its joins exactly
  when the schedule has run every thread at least as often as it has attempts, whatever the order.
\<close>

theorem load_run_complete:
  assumes "load_run lc cfg sched (load_init cfg ctx w) = Inr st"
  shows "length (ls_results st) + sum_list (ls_left st) = unat (n_threads cfg) * unat (n_attempts cfg) \<and>
    (load_joined st \<longleftrightarrow> (\<forall>i < unat (n_threads cfg). unat (n_attempts cfg) \<le> count_list sched i))"
  using load_run_init [OF assms] by simp

lemma sim_load_run:
  "\<exists>st. load_run sim_lt (sim_tcp_config\<lparr>n_threads := 2\<rparr>) [1, 0] (load_init (sim_tcp_config\<lparr>n_threads := 2\<rparr>) None sim_cli_world) = Inr st \<and>
     ls_results st = replicate 2 \<lparr> duration = None, output = FailedToConnect \<rparr>"
proof -
  let ?cfg = "sim_tcp_config\<lparr>n_threads := 2\<rparr>"
  have at: "attempt sim_lt ?cfg ctx w = attempt sim_lt sim_tcp_config ctx w" for ctx w
    by (simp add: attempt_def create_client_def)
  have a: "sim_addrs sim_cli_world = []" by (simp add: sim_cli_eval)
  have c: "n_attempts sim_tcp_config = 1" by (simp add: sim_tcp_config_def default_config_def)
  have i: "load_init ?cfg None sim_cli_world =
      \<lparr> ls_left = [1, 1], ls_results = [], ls_ctx = None, ls_world = sim_cli_world \<rparr>"
    using c by (simp add: load_init_def) (simp add: numeral_2_eq_2)
  show ?thesis unfolding i
    by (simp add: thread_step_def at sim_attempt_failed a)
      (simp add: numeral_2_eq_2)
qed

theorem load_run_complete_witness:
  "\<exists>st. load_run sim_lt (sim_tcp_config\<lparr>n_threads := 2\<rparr>) [1, 0] (load_init (sim_tcp_config\<lparr>n_threads := 2\<rparr>) None sim_cli_world) = Inr st \<and>
     length (ls_results st) = 2 \<and> sum_list (ls_left st) = 0"
proof -
  obtain st where st: "load_run sim_lt (sim_tcp_config\<lparr>n_threads := 2\<rparr>) [1, 0]
      (load_init (sim_tcp_config\<lparr>n_threads := 2\<rparr>) None sim_cli_world) = Inr st" "length (ls_results st) = 2"
    using sim_load_run by auto
  have "n_attempts sim_tcp_config = 1" by (simp add: sim_tcp_config_def default_config_def)
  with load_run_complete [OF st(1)] st show ?thesis by simp
qed

text \<open>
  C32. The exit status of the load test: when \<^verbatim>\<open>main\<close> returns, the command line was accepted, as many
  requests were made as the configuration asks for, the line printed names that number, and the
  status is success exactly when all of them succeeded.
\<close>

theorem load_main_status:
  assumes "load_main start stop lc env args sched w = Some (Returns (status, line, ts), w')"
  shows "\<exists>cfg g rs. parse_args env args = Some (Inr cfg, g) \<and>
    length rs = unat (n_threads cfg) * unat (n_attempts cfg) \<and> line = report_line rs (make_report rs) \<and>
    ts = report_times (make_report rs) \<and>
    (status = EXIT_SUCCESS \<longleftrightarrow> length (results_of Success rs) = length rs)"
proof -
  obtain cfg g where p: "parse_args env args = Some (Inr cfg, g)"
    using assms by (auto simp: load_main_def Let_def split: option.splits prod.splits sum.splits)
  obtain w1 st where r: "load_run lc cfg sched (load_init cfg None w1) = Inr st" "load_joined st"
    "status = exit_status (make_report (ls_results st))" "line = report_line (ls_results st) (make_report (ls_results st))"
    "ts = report_times (make_report (ls_results st))"
    using assms p by (auto simp: load_main_def Let_def split: prod.splits outcome.splits sum.splits if_splits)
  have "length (ls_results st) = unat (n_threads cfg) * unat (n_attempts cfg)"
    using load_run_init(1) [OF r(1)] iffD1 [OF load_joined_iff r(2)] by simp
  moreover have "status = EXIT_SUCCESS \<longleftrightarrow> length (results_of Success (ls_results st)) = length (ls_results st)"
    using results_partition [of "ls_results st"] r(3)
    by (auto simp: make_report_eq exit_status_def EXIT_SUCCESS_def EXIT_FAILURE_def)
  ultimately show ?thesis using p r by blast
qed

text \<open>
  A number of threads that is not a number is read as zero; no request is made and the status is
  success.
\<close>

lemma load_main_no_threads:
  assumes "parse_args env args = Some (Inr cfg, g)" and "n_threads cfg = 0" and "\<not> run_server_opt cfg"
  shows "\<exists>line w'. load_main start stop lc env args [] w = Some (Returns (EXIT_SUCCESS, line, None), w')"
  using assms
  by (simp add: load_main_def Let_def load_init_def load_joined_def make_report_def exit_status_def report_times_def report_init_def)

definition sim_proc :: "'w proc" where
  "sim_proc = \<lparr> pr_fork = (\<lambda>w. (42, w)), pr_execlp = (\<lambda>f a w. None), pr_perror = (\<lambda>m w. w), pr_sleep = (\<lambda>t w. w),
     pr_kill = (\<lambda>p s w. (0, w)), pr_waitpid = (\<lambda>p w. (p, w)) \<rparr>"

lemma sim_no_threads_args:
  "\<exists>g. parse_args False [''load'', ''-t'', ''-n'', ''x''] = Some (Inr (sim_tcp_config\<lparr>n_threads := 0\<rparr>), g)"
  using parse_args_items [of False "''load''" "[UseTcp False, NThreads False ''x'']"]
  by (auto simp: default_config_def sim_tcp_config_def strtoull_def is_space_def is_digit_def digits_value_def ULLONG_MAX_def)

theorem load_main_status_witness:
  "\<exists>status line ts w'. load_main (run_server sim_proc) (kill_server sim_proc) sim_lt False [''load'', ''-t'', ''-n'', ''x''] [] sim_cli_world =
     Some (Returns (status, line, ts), w') \<and>
   (\<exists>cfg g rs. parse_args False [''load'', ''-t'', ''-n'', ''x''] = Some (Inr cfg, g) \<and>
    length rs = unat (n_threads cfg) * unat (n_attempts cfg) \<and> line = report_line rs (make_report rs) \<and>
    ts = report_times (make_report rs) \<and>
    (status = EXIT_SUCCESS \<longleftrightarrow> length (results_of Success rs) = length rs))"
proof -
  obtain g where g: "parse_args False [''load'', ''-t'', ''-n'', ''x''] = Some (Inr (sim_tcp_config\<lparr>n_threads := 0\<rparr>), g)"
    using sim_no_threads_args by blast
  obtain line w' where "load_main (run_server sim_proc) (kill_server sim_proc) sim_lt False [''load'', ''-t'', ''-n'', ''x''] [] sim_cli_world =
      Some (Returns (EXIT_SUCCESS, line, None), w')"
    using load_main_no_threads [OF g, of "run_server sim_proc" "kill_server sim_proc" sim_lt sim_cli_world]
    by (auto simp: sim_tcp_config_def default_config_def)
  with load_main_status [OF this] show ?thesis by blast
qed

text \<open>
  Stopping the server on Windows: however the process reacts to the break event, exactly its two handles
  are closed at the end.
\<close>

lemma kill_server_win_cleans_up:
  assumes "\<And>h. keeps open (wp_GenerateConsoleCtrlEvent wp h)" and "\<And>h t. keeps open (wp_WaitForSingleObject wp h t)"
    and "\<And>h c. keeps open (wp_TerminateProcess wp h c)"
    and "\<And>h w. open (snd (wp_CloseHandle wp h w)) = open w - {h}"
  shows "open (kill_server_win wp pi w) = open w - {hProcess pi, hThread pi}"
proof -
  have k: "open (snd (wp_GenerateConsoleCtrlEvent wp h v)) = open v" "open (snd (wp_WaitForSingleObject wp h t v)) = open v"
    "open (snd (wp_TerminateProcess wp h c v)) = open v" for h t c v
    using assms(1-3) by (simp_all add: keeps_def)
  obtain sent w1 where g: "wp_GenerateConsoleCtrlEvent wp (dwProcessId pi) w = (sent, w1)" by fastforce
  obtain r w2 where wt: "wp_WaitForSingleObject wp (hProcess pi) 3000 w1 = (r, w2)" by fastforce
  have "open w1 = open w" "open w2 = open w" using k(1) [of "dwProcessId pi" w] k(2) [of "hProcess pi" 3000 w1] g wt by simp_all
  then show ?thesis using g wt
    by (auto simp: kill_server_win_def Let_def assms(4) k)
qed

text \<open>
  When \<^verbatim>\<open>fork\<close> fails, its result is passed on as if it were a process, and the load test ends by
  sending the signal to process -1, which stands for every process it may signal.
\<close>

lemma fork_failure_signals_all:
  assumes "pr_fork pr w = (-1, w1)"
  shows "run_server pr type w = (Returns (-1), pr_sleep pr 300 w1) \<and>
    kill_server pr (-1) v = snd (pr_waitpid pr (-1) (snd (pr_kill pr (-1) SIGTERM v)))"
  using assms by (simp add: run_server_def kill_server_def)

end
