(* ===== verification/Programs.thy ===== *)
theory Programs
  imports Server LoadTest
begin

text \<open>
  The main functions of the server programs: \<^verbatim>\<open>main.cc\<close> and the demos (\<^verbatim>\<open>demo/echo.cc\<close>,
  \<^verbatim>\<open>demo/echossl.cc\<close>), and the server of the load test (\<^verbatim>\<open>loadtest/server.cc\<close>), which the load
  test starts as a process of its own. The certificate and the key are constants of the sources
  and arguments here. \<open>orders\<close> gives the order in which the maps of the threads are destroyed,
  as in \<open>Server_destroy\<close>.
\<close>

subsection \<open>A server on the stack of main\<close>

text \<open>
  Constructing a server, registering it for the signal, running it and destroying it. An exception
  of the constructor or of \<^verbatim>\<open>run\<close> leaves \<^verbatim>\<open>main\<close> and ends the process.
\<close>

definition run_and_destroy ::
  "('p, 'w, 'x) platform_calls_scheme \<Rightarrow> ('p server \<Rightarrow> 'w \<Rightarrow> 'p server \<times> 'w) \<Rightarrow> ('p server \<Rightarrow> SOCKET list list) \<Rightarrow>
     'p server \<Rightarrow> 'w \<Rightarrow> ((failure + unit) \<times> 'w) option" where
  "run_and_destroy pc env orders s w =
     (case Server_run pc env s w of
        None \<Rightarrow> None
      | Some (Inl e, s', w') \<Rightarrow> Some (Inl e, w')
      | Some (Inr _, s', w') \<Rightarrow> Some (Server_destroy pc (orders s') s' w'))"

definition echo_main ::
  "('p, 'w, 'x) platform_calls_scheme \<Rightarrow> (SOCKET \<Rightarrow> ('p, 'w) io) \<Rightarrow> ('p server \<Rightarrow> 'w \<Rightarrow> 'p server \<times> 'w) \<Rightarrow>
     ('p server \<Rightarrow> SOCKET list list) \<Rightarrow> nat \<Rightarrow> signals \<Rightarrow> 'w \<Rightarrow> ((failure + unit) \<times> signals \<times> 'w) option" where
  "echo_main pc new_poller env orders this sg w =
     (case TCPServer_new pc new_poller 23456 False EchoProtocol_create_session Threads_Single w of
        (Inl e, w1) \<Rightarrow> Some (Inl e, sg, w1)
      | (Inr s, w1) \<Rightarrow>
          map_option (\<lambda>(r, w2). (r, stop_on_SIGINT this sg, w2)) (run_and_destroy pc env orders s w1))"

text \<open>\<^verbatim>\<open>main.cc\<close> has a protocol of its own, which does the same.\<close>

definition NeblinaProtocol_create_session :: "connection \<Rightarrow> session" where
  "NeblinaProtocol_create_session c = LineSession c (\<lambda>data. ''|'' @ data @ ''|'' @ crlf) (LineSession_new False crlf)"

definition neblina_main ::
  "('p, 'w, 'x) platform_calls_scheme \<Rightarrow> (SOCKET \<Rightarrow> ('p, 'w) io) \<Rightarrow> ('p server \<Rightarrow> 'w \<Rightarrow> 'p server \<times> 'w) \<Rightarrow>
     ('p server \<Rightarrow> SOCKET list list) \<Rightarrow> nat \<Rightarrow> signals \<Rightarrow> 'w \<Rightarrow> ((failure + unit) \<times> signals \<times> 'w) option" where
  "neblina_main pc new_poller env orders this sg w =
     (case TCPServer_new pc new_poller 23456 False NeblinaProtocol_create_session Threads_Single w of
        (Inl e, w1) \<Rightarrow> Some (Inl e, sg, w1)
      | (Inr s, w1) \<Rightarrow>
          map_option (\<lambda>(r, w2). (r, stop_on_SIGINT this sg, w2)) (run_and_destroy pc env orders s w1))"

text \<open>An \<^verbatim>\<open>SSLServer\<close> is a server together with its context, which is freed first.\<close>

definition ssl_run_and_destroy ::
  "('p, 'w, 'x) platform_calls_scheme \<Rightarrow> ('w, 'c) sslctx_scheme \<Rightarrow> ('p server \<Rightarrow> 'w \<Rightarrow> 'p server \<times> 'w) \<Rightarrow>
     ('p server \<Rightarrow> SOCKET list list) \<Rightarrow> 'p server \<times> nat \<Rightarrow> 'w \<Rightarrow> ((failure + unit) \<times> 'w) option" where
  "ssl_run_and_destroy pc cx env orders sc w =
     (case Server_run pc env (fst sc) w of
        None \<Rightarrow> None
      | Some (Inl e, s', w') \<Rightarrow> Some (Inl e, w')
      | Some (Inr _, s', w') \<Rightarrow> Some (SSLServer_destroy pc cx (orders s') (s', snd sc) w'))"

definition echossl_main ::
  "('p, 'w, 'x) platform_calls_scheme \<Rightarrow> ('w, 'c) sslctx_scheme \<Rightarrow> (SOCKET \<Rightarrow> ('p, 'w) io) \<Rightarrow>
     ('p server \<Rightarrow> 'w \<Rightarrow> 'p server \<times> 'w) \<Rightarrow> ('p server \<Rightarrow> SOCKET list list) \<Rightarrow> string \<Rightarrow> string \<Rightarrow>
     nat \<Rightarrow> signals \<Rightarrow> 'w \<Rightarrow> ((failure + unit) \<times> signals \<times> 'w) option" where
  "echossl_main pc cx new_poller env orders certificate_key private_key this sg w =
     (case SSLServer_new pc cx new_poller 23457 False EchoSSLProtocol_create_session Threads_Single
          certificate_key private_key w of
        (Inl e, w1) \<Rightarrow> Some (Inl e, sg, w1)
      | (Inr s, w1) \<Rightarrow>
          map_option (\<lambda>(r, w2). (r, stop_on_SIGINT this sg, w2)) (ssl_run_and_destroy pc cx env orders s w1))"

subsection \<open>The server of the load test\<close>

text \<open>\<^verbatim>\<open>show_help\<close>: the exit status and the text on the standard error stream.\<close>

definition load_server_help :: "int \<times> string" where
  "load_server_help = (EXIT_FAILURE, ''Usage: neblina-load-test-server [-t|-s]'' @ lf)"

text \<open>The arguments: \<open>Inl\<close> when \<^verbatim>\<open>show_help\<close> ends the process, \<open>Inr\<close> the type of the server.\<close>

definition load_server_type :: "string list \<Rightarrow> int \<times> string + char" where
  "load_server_type args =
     (if length args \<noteq> 2 then Inl load_server_help
      else if args ! 1 = ''-t'' \<or> args ! 1 = ''-s'' then Inr (args ! 1 ! 1)
      else Inl load_server_help)"

text \<open>What the type selects: whether the server is an \<^verbatim>\<open>SSLServer\<close>, and its port.\<close>

definition load_server_choice :: "char \<Rightarrow> bool \<times> 16 word" where
  "load_server_choice server_type = (if server_type = CHR ''s'' then (True, 23457) else (False, 23456))"

definition load_server_main ::
  "('p, 'w, 'x) platform_calls_scheme \<Rightarrow> ('w, 'c) sslctx_scheme \<Rightarrow> (SOCKET \<Rightarrow> ('p, 'w) io) \<Rightarrow>
     ('p server \<Rightarrow> 'w \<Rightarrow> 'p server \<times> 'w) \<Rightarrow> ('p server \<Rightarrow> SOCKET list list) \<Rightarrow> string \<Rightarrow> string \<Rightarrow>
     string list \<Rightarrow> 'w \<Rightarrow> (unit outcome \<times> 'w) option" where
  "load_server_main pc cx new_poller env orders certificate_key private_key args w =
     (case load_server_type args of
        Inl (status, _) \<Rightarrow> Some (Exits status, w)
      | Inr t \<Rightarrow>
          (let finish = map_option (\<lambda>(r, v). (case r of Inl e \<Rightarrow> Terminates e | Inr u \<Rightarrow> Returns u, v)) in
           case load_server_choice t of
             (True, port) \<Rightarrow>
               (case SSLServer_new pc cx new_poller port False LoadTestProtocol_create_session (Threads 8)
                    certificate_key private_key w of
                  (Inl e, w1) \<Rightarrow> Some (Terminates e, w1)
                | (Inr s, w1) \<Rightarrow> finish (ssl_run_and_destroy pc cx env orders s w1))
           | (False, port) \<Rightarrow>
               (case TCPServer_new pc new_poller port False LoadTestProtocol_create_session (Threads 8) w of
                  (Inl e, w1) \<Rightarrow> Some (Terminates e, w1)
                | (Inr s, w1) \<Rightarrow> finish (run_and_destroy pc env orders s w1))))"

subsection \<open>The theorems\<close>

text \<open>
  The load test and the server it starts agree: the command line that \<^verbatim>\<open>run_server\<close> passes to the
  new process selects the class of server, TCP or SSL, and the port that the clients of the same
  configuration are constructed for.
\<close>

theorem clients_match_started_server:
  assumes "client_type cfg \<noteq> NoClient"
  shows "\<exists>t tls port. load_server_type [server_program, server_option (client_type cfg)] = Inr t \<and>
    load_server_choice t = (tls, port) \<and>
    create_client lc cfg ctx w = (if tls
      then SSLClient_new (lt_os lc) (lt_ssl lc) (lt_net lc) (lt_sslcli lc) ''127.0.0.1'' port ctx w
      else (case TCPClient_new (lt_os lc) (lt_net lc) ''127.0.0.1'' port w of (r, w') \<Rightarrow> (r, ctx, w')))"
  using assms
  by (cases "client_type cfg") (auto simp: load_server_type_def server_option_def load_server_choice_def create_client_def)

theorem clients_match_started_server_witness:
  "\<exists>t tls port. load_server_type [server_program, server_option TCP] = Inr t \<and> load_server_choice t = (tls, port) \<and>
    create_client sim_lt sim_tcp_config None sim_cli_world = (if tls
      then SSLClient_new (lt_os sim_lt) (lt_ssl sim_lt) (lt_net sim_lt) (lt_sslcli sim_lt) ''127.0.0.1'' port None sim_cli_world
      else (case TCPClient_new (lt_os sim_lt) (lt_net sim_lt) ''127.0.0.1'' port sim_cli_world of (r, w') \<Rightarrow> (r, None, w')))"
  using clients_match_started_server [of sim_tcp_config sim_lt None sim_cli_world]
  by (simp add: sim_tcp_config_def)

text \<open>
  The server of the load test starts for exactly two command lines; every other one ends it with a
  failure status before a socket is opened.
\<close>

lemma load_server_usage:
  "load_server_main pc cx new_poller env orders cert key args w = Some (Exits EXIT_FAILURE, w) \<or>
   (\<exists>prog. args = [prog, ''-t''] \<or> args = [prog, ''-s''])"
proof -
  have "load_server_type args = Inl load_server_help \<or> (\<exists>prog. args = [prog, ''-t''] \<or> args = [prog, ''-s''])"
    by (cases args; cases "tl args") (auto simp: load_server_type_def)
  then show ?thesis by (auto simp: load_server_main_def load_server_help_def)
qed

text \<open>The two programs with the echo protocol are the same.\<close>

lemma neblina_main_eq: "neblina_main = echo_main"
proof -
  have "NeblinaProtocol_create_session = EchoProtocol_create_session"
    by (simp add: fun_eq_iff NeblinaProtocol_create_session_def EchoProtocol_create_session_def bars_def)
  then show ?thesis by (intro ext) (simp add: neblina_main_def echo_main_def)
qed

end
