(* ===== verification/EndToEnd.thy ===== *)
theory EndToEnd
  imports Programs
begin

text \<open>
  The load test against the server's session: a network that carries the bytes of a client to the
  session the load test's protocol creates for it, and the answers back, cut into pieces in any
  way in both directions. The session is the one of theory \<open>Session\<close>, the client, the
  spinning receive, the attempts and the report are those of \<open>Client\<close> and \<open>LoadTest\<close>.
\<close>

subsection \<open>The network\<close>

text \<open>
  One connection at a time: its session on the server, the pieces on their way to the client, the
  clock, and the state of the random number generator.
\<close>

record link =
  link_session :: line_session
  link_out :: "string list"
  link_time :: int
  link_seed :: int

definition load_session :: line_session where "load_session = LineSession_new True lf"

definition link_send :: "(string \<Rightarrow> string list) \<Rightarrow> (string \<Rightarrow> string list) \<Rightarrow> string \<Rightarrow> link \<Rightarrow> int \<times> link" where
  "link_send chop pieces data w =
     (case LineSession_feeds (\<lambda>d. d) (link_session w) (chop data) of
        None \<Rightarrow> (-1, w)
      | Some (resp, ls) \<Rightarrow>
          (int (length data), w\<lparr>link_session := ls, link_out := link_out w @ pieces resp\<rparr>))"

definition link_recv :: "nat \<Rightarrow> link \<Rightarrow> (int \<times> string) \<times> link" where
  "link_recv n w = (case link_out w of
     [] \<Rightarrow> ((-1, ''''), w)
   | p # ps \<Rightarrow> ((int (length (take n p)), take n p),
       w\<lparr>link_out := (if n < length p then drop n p # ps else ps)\<rparr>))"

definition link_os :: "(string \<Rightarrow> string list) \<Rightarrow> (string \<Rightarrow> string list) \<Rightarrow> link os" where
  "link_os chop pieces = \<lparr> os_platform = Posix, os_errno = (\<lambda>w. EAGAIN), os_strerror = (\<lambda>e. ''error''),
     os_WSAGetLastError = (\<lambda>w. 0), os_recv = (\<lambda>fd. link_recv), os_send = (\<lambda>fd. link_send chop pieces),
     os_close = (\<lambda>fd w. (0, w)), os_fcntl_getfl = (\<lambda>fd w. (2, w)), os_fcntl_setfl = (\<lambda>fd fl w. (0, w)),
     os_ioctl_fionbio = (\<lambda>fd w. (0, w)), os_O_NONBLOCK = 2048, os_logger = (\<lambda>w. init_logger), os_set_logger = (\<lambda>lg w. w),
     os_open = (\<lambda>w. {}), os_sent = (\<lambda>w fd. '''') \<rparr>"

text \<open>Connecting makes the server create a session.\<close>

definition link_net :: "link net" where
  "link_net = \<lparr>
     net_getaddrinfo = (\<lambda>h p hints w. ((0, [sim_addr]), w)), net_gai_strerror = (\<lambda>e. ''not known''),
     net_freeaddrinfo = (\<lambda>l w. w), net_socket = (\<lambda>f t p w. (3, w)), net_setsockopt = (\<lambda>fd w. (0, w)),
     net_bind = (\<lambda>fd a w. (0, w)), net_listen = (\<lambda>fd n w. (0, w)), net_accept = (\<lambda>fd w. (4, w)),
     net_connect = (\<lambda>fd a w. (0, w\<lparr>link_session := load_session, link_out := []\<rparr>)),
     net_SOMAXCONN = 4096, net_getnameinfo = (\<lambda>fd w. ((0, ''127.0.0.1'', ''40000''), w)), net_inet_ntop = (\<lambda>f a. a),
     net_lists = (\<lambda>w. 0) \<rparr>"

definition link_calls ::
  "(string \<Rightarrow> string list) \<Rightarrow> (string \<Rightarrow> string list) \<Rightarrow> int \<Rightarrow> (int \<Rightarrow> int) \<Rightarrow> link openssl \<Rightarrow> link sslcli \<Rightarrow> link lt_calls" where
  "link_calls chop pieces tick nxt sl sc = \<lparr> lt_os = link_os chop pieces, lt_ssl = sl, lt_net = link_net, lt_sslcli = sc,
     lt_now = (\<lambda>w. (link_time w + tick, w\<lparr>link_time := link_time w + tick\<rparr>)),
     lt_rand = (\<lambda>w. (link_seed w, w\<lparr>link_seed := nxt (link_seed w)\<rparr>)), lt_srand = (\<lambda>w. w) \<rparr>"

text \<open>A way to cut a text into non-empty pieces.\<close>

definition chunking :: "(string \<Rightarrow> string list) \<Rightarrow> bool" where
  "chunking chop \<longleftrightarrow> (\<forall>s. concat (chop s) = s \<and> '''' \<notin> set (chop s))"

subsection \<open>One line through the session\<close>

lemma load_session_protocol: "LoadTestProtocol_create_session c = LineSession c (\<lambda>d. d) load_session"
  by (simp add: LoadTestProtocol_create_session_def load_session_def)

lemma frames_one_line:
  assumes "CHR 0x0A \<notin> set s"
  shows "frames lf (s @ lf) = ([s], '''')"
proof -
  have "str_find (s @ lf) lf 0 = Some (length s)"
  proof (rule str_find_eqI)
    show "\<not> starts_with lf (drop k (s @ lf))" if "k < length s" for k
    proof -
      have "drop k (s @ lf) = s ! k # drop (Suc k) (s @ lf)" using that by (simp add: Cons_nth_drop_Suc)
      moreover have "s ! k \<noteq> CHR 0x0A" using that assms nth_mem by metis
      ultimately show ?thesis by (simp add: lf_def)
    qed
  qed (simp_all add: lf_def)
  moreover have "frames lf '''' = ([], '''')" by (simp add: frames.simps str_find_def lf_def)
  ultimately show ?thesis by (subst frames.simps) (simp add: lf_def)
qed

lemma load_session_echo:
  assumes "chunking chop" and "CHR 0x0A \<notin> set s"
  shows "LineSession_feeds (\<lambda>d. d) load_session (chop (s @ lf)) = Some (s @ lf, load_session)"
proof -
  have "concat (chop (s @ lf)) = s @ lf" using assms(1) by (simp add: chunking_def)
  then have "frames (separator load_session) (buffer load_session @ concat (chop (s @ lf))) = ([s], '''')"
    using frames_one_line [OF assms(2)] by (simp add: load_session_def LineSession_new_def)
  moreover have "concat (chop (s @ lf)) \<noteq> ''''" using \<open>concat (chop (s @ lf)) = s @ lf\<close> by (simp add: lf_def)
  moreover have "separator load_session \<noteq> ''''" "line_ok load_session" "load_session\<lparr>buffer := ''''\<rparr> = load_session"
    "responses (\<lambda>d. d) load_session [s] = s @ lf"
    by (simp_all add: load_session_def LineSession_new_def line_ok_def lf_def responses_def)
  ultimately show ?thesis using LineSession_feeds_single_line [of load_session "chop (s @ lf)" s "\<lambda>d. d"] by simp
qed


subsection \<open>The client on the network\<close>

lemma link_create_client:
  assumes "client_type cfg = TCP"
  shows "create_client (link_calls chop pieces tick nxt sl sc) cfg ctx w =
    (Inr (TCPClient 3), ctx, w\<lparr>link_session := load_session, link_out := []\<rparr>)"
proof -
  have "open_connection (link_os chop pieces) link_net host port w =
      (Inr 3, w\<lparr>link_session := load_session, link_out := []\<rparr>)" for host port
    by (simp add: open_connection_def io_bind_call link_net_def link_os_def socket_mark_as_nonblocking_def log_with_def)
  then show ?thesis using assms by (simp add: create_client_def link_calls_def TCPClient_new_def)
qed

lemma link_client_send:
  assumes "chunking chop" and "CHR 0x0A \<notin> set s" and "link_session w = load_session"
  shows "client_send (link_os chop pieces) sl (TCPClient fd) (s @ lf) w =
    (Inr (), w\<lparr>link_out := link_out w @ pieces (s @ lf)\<rparr>)"
proof -
  have "link_send chop pieces (s @ lf) w = (int (length (s @ lf)), w\<lparr>link_out := link_out w @ pieces (s @ lf)\<rparr>)"
    using load_session_echo [OF assms(1,2)] assms(3) by (simp add: link_send_def)
  then have c: "os_send (link_os chop pieces) fd (s @ lf) w =
      (int (length (s @ lf)), w\<lparr>link_out := link_out w @ pieces (s @ lf)\<rparr>)" by (simp add: link_os_def)
  have "0 < length (s @ lf)" by (simp add: lf_def)
  from send_loop_round [where call = "os_send (link_os chop pieces) fd (s @ lf)", OF this c]
  have "send_loop (os_send (link_os chop pieces) fd (s @ lf)) (send_error (link_os chop pieces)) (length (s @ lf)) 0 w =
      Some (Inr (), w\<lparr>link_out := link_out w @ pieces (s @ lf)\<rparr>)"
    by (simp add: send_loop_done)
  then show ?thesis by (simp add: TCPClient_send_def)
qed

lemma link_client_recv:
  assumes "link_out w = p # ps" and "p \<noteq> ''''" and "length p \<le> n"
  shows "TCPClient_recv (link_os chop pieces) fd n w = (Inr p, w\<lparr>link_out := ps\<rparr>)"
proof -
  have "link_recv n w = ((int (length p), p), w\<lparr>link_out := ps\<rparr>)" using assms by (simp add: link_recv_def)
  then show ?thesis using assms(2)
    by (simp add: TCPClient_recv_def io_bind_call link_os_def recv_result_data)
qed

text \<open>The spinning receive puts the pieces together.\<close>

lemma link_spin:
  assumes "link_out w = ps" and "ps \<noteq> []" and "'''' \<notin> set ps" and "n = length buf + length (concat ps)"
    and "0 < tick" and "link_time w + int (length ps) * tick < deadline"
  shows "\<exists>t. spin_loop (client_recv (link_os chop pieces) sl (TCPClient fd))
      (\<lambda>w. (link_time w + tick, w\<lparr>link_time := link_time w + tick\<rparr>)) deadline n buf w =
    Some (Inr (Some (buf @ concat ps)), w\<lparr>link_out := [], link_time := t\<rparr>)"
  using assms
proof (induction ps arbitrary: buf w)
  case (Cons p ps)
  let ?now = "\<lambda>w. (link_time w + tick, w\<lparr>link_time := link_time w + tick\<rparr>)"
  let ?w1 = "w\<lparr>link_time := link_time w + tick\<rparr>" and ?w2 = "w\<lparr>link_time := link_time w + tick, link_out := ps\<rparr>"
  have time: "link_time w + tick < deadline"
  proof -
    have "tick \<le> int (length (p # ps)) * tick" using Cons.prems(5) by (simp add: distrib_right)
    then show ?thesis using Cons.prems(6) by linarith
  qed
  have p: "p \<noteq> ''''" "length p \<le> n - length buf" using Cons.prems(3,4) by auto
  have r: "TCPClient_recv (link_os chop pieces) fd (n - length buf) ?w1 = (Inr p, ?w2)"
    using link_client_recv [of ?w1 p ps "n - length buf"] Cons.prems(1) p by simp
  show ?case
  proof (cases "ps = []")
    case True
    then show ?thesis using time r p(1) Cons.prems(4)
      by (intro exI [of _ "link_time w + tick"]) (subst spin_loop.simps, simp)
  next
    case False
    then obtain q qs where "ps = q # qs" by (cases ps) auto
    with Cons.prems(3,4) have "length (buf @ p) < n" by (cases q) auto
    then have "spin_loop (client_recv (link_os chop pieces) sl (TCPClient fd)) ?now deadline n buf w =
        spin_loop (client_recv (link_os chop pieces) sl (TCPClient fd)) ?now deadline n (buf @ p) ?w2"
      using time r p(1) by (subst spin_loop.simps) simp
    moreover have "link_time ?w2 + int (length ps) * tick < deadline"
      using Cons.prems(6) by (simp add: distrib_right)
    ultimately show ?thesis
      using Cons.IH [of ?w2 "buf @ p"] False Cons.prems(3-5) by simp
  qed
qed simp


lemma link_random:
  "random_loop (lt_rand (link_calls chop pieces tick nxt sl sc)) n r w = (s, w') \<Longrightarrow> \<exists>seed. w' = w\<lparr>link_seed := seed\<rparr>"
proof (induction n arbitrary: r w)
  case 0
  then show ?case by (intro exI [of _ "link_seed w"]) simp
next
  case (Suc n)
  from Suc.IH [of _ "w\<lparr>link_seed := nxt (link_seed w)\<rparr>"] Suc.prems show ?case by (auto simp: link_calls_def)
qed

lemma chunking_length:
  assumes "chunking chop"
  shows "length (chop s) \<le> length s"
proof -
  have "length xs \<le> length (concat xs)" if "'''' \<notin> set xs" for xs :: "string list"
    using that
  proof (induction xs)
    case (Cons a xs)
    then show ?case by (cases a) auto
  qed simp
  then show ?thesis using assms unfolding chunking_def by metis
qed

lemma link_attempt:
  assumes "chunking chop" and "chunking pieces" and "0 < tick" and "tick \<le> 2000000000" and "client_type cfg = TCP"
  shows "\<exists>d w'. attempt (link_calls chop pieces tick nxt sl sc) cfg ctx w =
    (Inr \<lparr> duration = Some d, output = Success \<rparr>, ctx, w')"
proof -
  let ?L = "link_calls chop pieces tick nxt sl sc" and ?os = "link_os chop pieces"
  let ?now = "\<lambda>w. (link_time w + tick, w\<lparr>link_time := link_time w + tick\<rparr>)"
  obtain s w1 where s: "random_string (lt_rand ?L) 10 w = (s, w1)" by fastforce
  note line = random_string_line [OF s]
  have now: "lt_now ?L = ?now" "lt_os ?L = ?os" "lt_ssl ?L = sl" by (simp_all add: link_calls_def)
  define v where "v = w1\<lparr>link_time := link_time w1 + tick, link_session := load_session, link_out := []\<rparr>"
  have cr: "create_client ?L cfg ctx (w1\<lparr>link_time := link_time w1 + tick\<rparr>) = (Inr (TCPClient 3), ctx, v)"
    using link_create_client [OF assms(5)] by (simp add: v_def)
  define u where "u = v\<lparr>link_out := pieces (s @ lf)\<rparr>"
  have snd: "client_send ?os sl (TCPClient 3) (s @ lf) v = (Inr (), u)"
    using link_client_send [OF assms(1) line(2), of v pieces sl 3] by (simp add: v_def u_def)
  have pc: "concat (pieces (s @ lf)) = s @ lf" "'''' \<notin> set (pieces (s @ lf))" using assms(2) by (simp_all add: chunking_def)
  have n: "length (pieces (s @ lf)) \<le> 11" using chunking_length [OF assms(2), of "s @ lf"] line(1) by (simp add: lf_def)
  have ne: "pieces (s @ lf) \<noteq> []" using pc(1) by (auto simp: lf_def)
  let ?u = "u\<lparr>link_time := link_time u + tick\<rparr>"
  have "int (length (pieces (s @ lf))) * tick \<le> 11 * 2000000000"
    using n assms(3,4) by (intro mult_mono) auto
  then have "link_time ?u + int (length (pieces (s @ lf))) * tick < link_time u + tick + 30000 * 1000000" by simp
  then obtain t where "spin_loop (client_recv ?os sl (TCPClient 3)) ?now (link_time u + tick + 30000 * 1000000) 11 '''' ?u =
      Some (Inr (Some (s @ lf)), ?u\<lparr>link_out := [], link_time := t\<rparr>)"
    using link_spin [of ?u "pieces (s @ lf)" 11 "''''" tick "link_time u + tick + 30000 * 1000000" chop pieces sl 3]
      ne pc line(1) assms(3) by (auto simp: u_def lf_def)
  then have "recv_spinlock (client_recv ?os sl (TCPClient 3)) ?now 11 30000 u = (Inr (Some (s @ lf)), ?u\<lparr>link_out := [], link_time := t\<rparr>)"
    by (simp add: recv_spinlock_def)
  with s cr snd show ?thesis
    unfolding attempt_def Let_def now by (simp add: classify_def)
qed

lemma link_load_run:
  assumes "chunking chop" and "chunking pieces" and "0 < tick" and "tick \<le> 2000000000" and "client_type cfg = TCP"
    and "results_of Success (ls_results st) = ls_results st"
  shows "\<exists>st'. load_run (link_calls chop pieces tick nxt sl sc) cfg sched st = Inr st' \<and>
    results_of Success (ls_results st') = ls_results st'"
  using assms(6)
proof (induction sched arbitrary: st)
  case (Cons i sched)
  let ?L = "link_calls chop pieces tick nxt sl sc"
  obtain d w' where "attempt ?L cfg (ls_ctx st) (ls_world st) = (Inr \<lparr> duration = Some d, output = Success \<rparr>, ls_ctx st, w')"
    using link_attempt [OF assms(1-5), of nxt sl sc "ls_ctx st" "ls_world st"] by blast
  with Cons.prems have "\<exists>st1. thread_step ?L cfg i st = Inr st1 \<and> results_of Success (ls_results st1) = ls_results st1"
    by (simp add: thread_step_def results_of_def)
  then obtain st1 where "thread_step ?L cfg i st = Inr st1" "results_of Success (ls_results st1) = ls_results st1" by blast
  with Cons.IH show ?case by simp
qed simp

subsection \<open>The theorem\<close>



lemma chunking_whole: "chunking (\<lambda>s. if s = '''' then [] else [s])"
  by (simp add: chunking_def)

lemma chunking_bytes: "chunking (map (\<lambda>c. [c]))"
proof -
  have "concat (map (\<lambda>c. [c]) s) = s" for s :: string by (induction s) simp_all
  then show ?thesis by (auto simp: chunking_def)
qed

text \<open>An OpenSSL on which every handshake and every transfer fails.\<close>

definition link_ssl :: "link openssl" where
  "link_ssl = \<lparr> ssl_new = (\<lambda>ctx w. (1, w)), ssl_set_fd = (\<lambda>s fd w. (1, w)), ssl_accept = (\<lambda>s w. (-1, w)),
     ssl_print_errors = (\<lambda>w. (None, w)), ssl_read = (\<lambda>s n w. ((-1, ''''), w)), ssl_write = (\<lambda>s d n w. (-1, w)),
     ssl_shutdown = (\<lambda>s w. (0, w)), ssl_free = (\<lambda>s w. w), ssl_sent = (\<lambda>w s. '''') \<rparr>"

definition link_sslcli :: "link sslcli" where
  "link_sslcli = \<lparr> sc_ctx_new = (\<lambda>w. (1, w)), sc_default_paths = (\<lambda>c w. (1, w)), sc_new = (\<lambda>c w. (2, w)),
     sc_set_host = (\<lambda>ssl h w. (1, w)), sc_connect = (\<lambda>ssl w. (-1, w)), sc_get_error = (\<lambda>ssl r w. (1, w)) \<rparr>"

definition link_world :: link where
  "link_world = \<lparr> link_session = load_session, link_out = [], link_time = 0, link_seed = 5 \<rparr>"


end
