(* ===== verification/Streams.thy ===== *)
theory Streams
  imports Server
begin

text \<open>
  What every client of a server has been answered, in every state the server reaches under every
  interleaving of its event loop with its workers. The reference is \<open>session_feeds\<close>: what a
  session object that is created for a connection makes of the pieces received on it. The
  locale \<open>server_streams\<close> states what the server relies on of its connections, observed as
  the log of the pieces received and the text sent so far; it is interpreted for TCP and for TLS
  connections, on each of the three pollers.
\<close>

subsection \<open>The reference\<close>

fun session_feed :: "session \<Rightarrow> string \<Rightarrow> (string \<times> session) option" where
  "session_feed (PlainSession c p) d = Some (if d = '''' then '''' else p d, PlainSession c p)"
| "session_feed (LineSession c p ls) d =
     map_option (\<lambda>(r, ls'). (r, LineSession c p ls')) (LineSession_feed p ls d)"

fun session_feeds :: "session \<Rightarrow> string list \<Rightarrow> (string \<times> session) option" where
  "session_feeds x [] = Some ('''', x)"
| "session_feeds x (d # ds) =
     (case session_feed x d of
        None \<Rightarrow> None
      | Some (r, x') \<Rightarrow> map_option (\<lambda>(rs, x''). (r @ rs, x'')) (session_feeds x' ds))"

lemma session_feeds_snoc:
  "session_feeds x ds = Some (r, y) \<Longrightarrow> session_feed y d = Some (r', z) \<Longrightarrow>
     session_feeds x (ds @ [d]) = Some (r @ r', z)"
  by (induction ds arbitrary: x r) (auto split: option.splits)

lemma session_feeds_line:
  "session_feeds (LineSession c p ls) ds =
     map_option (\<lambda>(r, ls'). (r, LineSession c p ls')) (LineSession_feeds p ls ds)"
  by (induction ds arbitrary: ls) (auto simp: option.map_comp comp_def case_prod_unfold split: option.splits)

lemma session_feeds_plain:
  "session_feeds (PlainSession c p) ds =
     Some (concat (map p (filter (\<lambda>d. d \<noteq> '''') ds)), PlainSession c p)"
  by (induction ds) auto

subsection \<open>Streams of connections\<close>

text \<open>
  The connections in use, the pieces the calls have received on each of them so far and the text
  handed over for transmission.
\<close>

record 'w streams =
  st_live :: "'w \<Rightarrow> connection set"
  st_rcvd :: "'w \<Rightarrow> connection \<Rightarrow> string list"
  st_sent :: "'w \<Rightarrow> connection \<Rightarrow> string"

definition st_obs :: "'w streams \<Rightarrow> 'w \<Rightarrow> connection set \<times> (connection \<Rightarrow> string list) \<times> (connection \<Rightarrow> string)" where
  "st_obs st w = (st_live st w, st_rcvd st w, st_sent st w)"

text \<open>From \<open>w\<close> to \<open>w'\<close> no connection but \<open>c\<close> was closed or had its streams changed.\<close>

definition only_stream :: "'w streams \<Rightarrow> connection \<Rightarrow> 'w \<Rightarrow> 'w \<Rightarrow> bool" where
  "only_stream st c w w' \<longleftrightarrow>
     (\<forall>x \<in> st_live st w - {c}. x \<in> st_live st w' \<and> st_rcvd st w' x = st_rcvd st w x \<and> st_sent st w' x = st_sent st w x)"

text \<open>The same for all connections on descriptors other than \<open>fd\<close>.\<close>

definition other_streams :: "'w streams \<Rightarrow> SOCKET \<Rightarrow> 'w \<Rightarrow> 'w \<Rightarrow> bool" where
  "other_streams st fd w w' \<longleftrightarrow>
     (\<forall>x \<in> st_live st w. connection_fd x \<noteq> fd \<longrightarrow>
        x \<in> st_live st w' \<and> st_rcvd st w' x = st_rcvd st w x \<and> st_sent st w' x = st_sent st w x)"

text \<open>The session \<open>x\<close> of protocol \<open>pr\<close> is what its connection's input made of a new one, and its answers were sent.\<close>

definition answered :: "'w streams \<Rightarrow> (string \<Rightarrow> bool) \<Rightarrow> (connection \<Rightarrow> session) \<Rightarrow> 'w \<Rightarrow> session \<Rightarrow> bool" where
  "answered st fits pr w x \<longleftrightarrow>
     session_connection x \<in> st_live st w \<and>
     (fits (st_sent st w (session_connection x)) \<longrightarrow>
        session_feeds (pr (session_connection x)) (st_rcvd st w (session_connection x)) =
          Some (st_sent st w (session_connection x), x))"

definition all_answered ::
  "'w streams \<Rightarrow> (string \<Rightarrow> bool) \<Rightarrow> (connection \<Rightarrow> session) \<Rightarrow> session thread list \<Rightarrow> 'w \<Rightarrow> bool" where
  "all_answered st fits pr ts w \<longleftrightarrow>
     (\<forall>fd x. manager_lookup thread_sessions ts fd = Some x \<longrightarrow> answered st fits pr w x)"

lemma only_stream_refl [simp]: "only_stream st c w w"
  by (simp add: only_stream_def)

lemma only_stream_trans: "only_stream st c w w1 \<Longrightarrow> only_stream st c w1 w2 \<Longrightarrow> only_stream st c w w2"
  by (simp add: only_stream_def)

lemma answered_frame:
  "answered st fits pr w x \<Longrightarrow> only_stream st c w w' \<Longrightarrow> session_connection x \<noteq> c \<Longrightarrow> answered st fits pr w' x"
  by (simp add: answered_def only_stream_def)

lemma only_other_stream: "only_stream st c w w' \<Longrightarrow> connection_fd c = fd \<Longrightarrow> other_streams st fd w w'"
  by (auto simp: only_stream_def other_streams_def)

lemma other_streams_trans: "other_streams st fd w w1 \<Longrightarrow> other_streams st fd w1 w2 \<Longrightarrow> other_streams st fd w w2"
  by (simp add: other_streams_def)

lemma answered_other:
  "answered st fits pr w x \<Longrightarrow> other_streams st fd w w' \<Longrightarrow> session_fd x \<noteq> fd \<Longrightarrow> answered st fits pr w' x"
  by (simp add: answered_def other_streams_def session_fd_def)

lemma answered_obs: "st_obs st w' = st_obs st w \<Longrightarrow> answered st fits pr w' x = answered st fits pr w x"
  by (simp add: answered_def st_obs_def)

text \<open>Changing the session of one descriptor, when the streams of no other connection change.\<close>

lemma all_answered_update:
  assumes "all_answered st fits pr ts w" and "manager_inv (Session_vtable os sl) thread_sessions ts"
    and "manager_lookup thread_sessions ts' = (manager_lookup thread_sessions ts)(fd := y)"
    and "other_streams st fd w w'"
    and "\<And>x. y = Some x \<Longrightarrow> answered st fits pr w' x"
  shows "all_answered st fits pr ts' w'"
  unfolding all_answered_def
proof (intro allI impI)
  fix f x
  assume lk: "manager_lookup thread_sessions ts' f = Some x"
  show "answered st fits pr w' x"
  proof (cases "f = fd")
    case True
    with lk assms(3,5) show ?thesis by simp
  next
    case False
    with lk assms(3) have x: "manager_lookup thread_sessions ts f = Some x" by simp
    with manager_lookup_key [OF assms(2)] False have "session_fd x \<noteq> fd" by auto
    with x assms(1,4) show ?thesis by (auto simp: all_answered_def intro: answered_other)
  qed
qed

definition streams_inv ::
  "('p, 'w) platform_calls \<Rightarrow> server_class \<Rightarrow> 'w streams \<Rightarrow> (string \<Rightarrow> bool) \<Rightarrow> 'p server \<Rightarrow> 'w \<Rightarrow> bool" where
  "streams_inv pc cls st fits s w \<longleftrightarrow> protocol_ok (srv_protocol s) \<and> srv_class s = cls \<and>
     manager_inv (pc_vt pc) thread_sessions (srv_threads s) \<and> all_answered st fits (srv_protocol s) (srv_threads s) w"

lemma streams_inv_same:
  assumes "streams_inv pc cls st fits s w" and "i < length (srv_threads s)"
    and "thread_sessions t' = thread_sessions (srv_threads s ! i)"
  shows "streams_inv pc cls st fits (s\<lparr>srv_threads := (srv_threads s)[i := t']\<rparr>) w"
  using assms manager_same_dom(1) [of "pc_vt pc" thread_sessions "srv_threads s" i t']
  by (auto simp: streams_inv_def all_answered_def manager_lookup_same manager_inv_def)

locale server_streams =
  fixes pc :: "('p, 'w) platform_calls" and cls :: server_class and st :: "'w streams"
    and fits :: "string \<Rightarrow> bool" and contract :: bool
  assumes fits_prefix: "fits (a @ b) \<Longrightarrow> fits a"
    and recv_law: "contract \<Longrightarrow> c \<in> st_live st w \<Longrightarrow>
      connection_recv (pc_os pc) (pc_ssl pc) c w = (Inr d, w') \<Longrightarrow>
      only_stream st c w w' \<and> c \<in> st_live st w' \<and>
      st_rcvd st w' c = st_rcvd st w c @ [d] \<and> st_sent st w' c = st_sent st w c"
    and send_law: "contract \<Longrightarrow> c \<in> st_live st w \<Longrightarrow>
      connection_send (pc_os pc) (pc_ssl pc) c d w = (Inr (), w') \<Longrightarrow>
      only_stream st c w w' \<and> c \<in> st_live st w' \<and> st_rcvd st w' c = st_rcvd st w c \<and>
      (\<exists>x. st_sent st w' c = st_sent st w c @ x \<and> (fits (st_sent st w' c) \<longrightarrow> x = d))"
    and destroy_law: "contract \<Longrightarrow> c \<in> st_live st w \<Longrightarrow>
      only_stream st c w (connection_destroy (pc_os pc) (pc_ssl pc) c w)"
    and create_law: "contract \<Longrightarrow> TCPServer_accept (pc_os pc) (pc_net pc) sfd w = (Inr fd, w1) \<Longrightarrow>
      create_connection (pc_os pc) (pc_ssl pc) cls fd w1 = (Inr c, w2) \<Longrightarrow>
      only_stream st c w w2 \<and> c \<notin> st_live st w \<and> c \<in> st_live st w2 \<and>
      st_rcvd st w2 c = [] \<and> st_sent st w2 c = ''''"
    and wait_law: "contract \<Longrightarrow> pl_wait (pc_poller pc) p w = (r, p', w') \<Longrightarrow> st_obs st w' = st_obs st w"
    and add_law: "contract \<Longrightarrow> pl_add_client (pc_poller pc) fd p w = (q, p', w') \<Longrightarrow> st_obs st w' = st_obs st w"
begin

text \<open>One iteration of a session receives one piece and sends what the session makes of it.\<close>

lemma iteration_law:
  assumes c: contract and live: "session_connection x \<in> st_live st w"
    and run: "session_iteration (pc_os pc) (pc_ssl pc) x w = (Inr (), x', w')"
  obtains d y where "only_stream st (session_connection x) w w'" and "session_connection x \<in> st_live st w'"
    and "st_rcvd st w' (session_connection x) = st_rcvd st w (session_connection x) @ [d]"
    and "st_sent st w' (session_connection x) = st_sent st w (session_connection x) @ y"
    and "fits (st_sent st w' (session_connection x)) \<longrightarrow> session_feed x d = Some (y, x')"
proof -
  let ?c = "session_connection x"
  obtain d w1 where rv: "connection_recv (pc_os pc) (pc_ssl pc) ?c w = (Inr d, w1)"
    using run by (cases x) (auto simp: Session_iteration_def LineSession_iteration_def io_bind_eq_Inr
        split: prod.splits sum.splits option.splits)
  note R = recv_law [OF c live rv]
  consider "d = ''''" "w' = w1" "session_feed x d = Some ('''', x')"
    | y where "session_feed x d = Some (y, x')" "connection_send (pc_os pc) (pc_ssl pc) ?c y w1 = (Inr (), w')"
    using run rv by (cases x) (auto simp: Session_iteration_def LineSession_iteration_def
        split: prod.splits option.splits if_splits)
  then show ?thesis
  proof cases
    case 1
    with R show ?thesis by (intro that [of d "''''"]) auto
  next
    case 2
    with send_law [OF c _ 2(2)] R obtain z where z: "only_stream st ?c w1 w'" "?c \<in> st_live st w'"
      "st_rcvd st w' ?c = st_rcvd st w1 ?c" "st_sent st w' ?c = st_sent st w1 ?c @ z"
      "fits (st_sent st w' ?c) \<longrightarrow> z = y" by blast
    with R 2(1) show ?thesis by (intro that [of d z]) (auto intro: only_stream_trans)
  qed
qed

lemma iteration_answered:
  assumes c: contract and A: "answered st fits pr w x"
    and run: "session_iteration (pc_os pc) (pc_ssl pc) x w = (Inr (), x', w')"
  shows "only_stream st (session_connection x) w w' \<and> answered st fits pr w' x'"
proof -
  have conn: "session_connection x' = session_connection x" by (rule session_iteration_connection [OF run])
  from A have "session_connection x \<in> st_live st w" by (simp add: answered_def)
  then obtain d y where it: "only_stream st (session_connection x) w w'" "session_connection x \<in> st_live st w'"
    "st_rcvd st w' (session_connection x) = st_rcvd st w (session_connection x) @ [d]"
    "st_sent st w' (session_connection x) = st_sent st w (session_connection x) @ y"
    "fits (st_sent st w' (session_connection x)) \<longrightarrow> session_feed x d = Some (y, x')"
    by (rule iteration_law [OF c _ run])
  have "session_feeds (pr (session_connection x)) (st_rcvd st w' (session_connection x)) =
      Some (st_sent st w' (session_connection x), x')" if "fits (st_sent st w' (session_connection x))"
    using A mp [OF it(5) that] fits_prefix [OF that [unfolded it(4)]]
    by (auto simp: answered_def it(3,4) intro: session_feeds_snoc)
  with it(1,2) conn show ?thesis by (simp add: answered_def)
qed


text \<open>A session that is found and iterated, in the caller or in a worker.\<close>

lemma iterate_answered:
  assumes c: contract and A: "all_answered st fits pr ts w"
    and M: "manager_inv (pc_vt pc) thread_sessions ts" and i: "i < length ts"
    and run: "sessions_iterate (pc_vt pc) fd (thread_sessions (ts ! i)) w = (Inr (), m, w')"
    and t': "thread_sessions t' = m"
  shows "all_answered st fits pr (ts[i := t']) w' \<and> manager_inv (pc_vt pc) thread_sessions (ts[i := t'])"
proof
  have "keys_ok (pc_vt pc) (thread_sessions (ts ! i))" using M i by (simp add: manager_inv_def)
  then show "manager_inv (pc_vt pc) thread_sessions (ts[i := t'])"
    using manager_same_dom(1) [OF M i, of t'] sess.iterate_keys(1,3) [OF run] by (simp add: t')
  show "all_answered st fits pr (ts[i := t']) w'"
  proof (cases "thread_sessions (ts ! i) fd")
    case None
    with run t' have eq: "thread_sessions t' = thread_sessions (ts ! i)" "w' = w" by (auto simp: sessions_iterate_def)
    with A show ?thesis by (simp add: all_answered_def manager_lookup_same [OF i])
  next
    case (Some x)
    have idx: "thread_index fd (length ts) = Inr i" using M i Some by (auto simp: manager_inv_def routed_def)
    with Some i have lk: "manager_lookup thread_sessions ts fd = Some x" by (simp add: manager_lookup_def)
    obtain x' where it: "session_iteration (pc_os pc) (pc_ssl pc) x w = (Inr (), x', w')"
      and upd: "thread_sessions t' = (thread_sessions (ts ! i))(fd \<mapsto> x')"
      using run t' Some by (auto simp: sessions_iterate_def split: prod.splits)
    from A lk have "answered st fits pr w x" by (simp add: all_answered_def)
    note it = iteration_answered [OF c this it]
    have "connection_fd (session_connection x) = fd"
      using manager_lookup_key [OF M lk] by (simp add: session_fd_def)
    with all_answered_update [OF A M manager_lookup_update [OF i idx upd], of w'] it
    show ?thesis by (auto intro: only_other_stream)
  qed
qed

abbreviation inv :: "'p server \<Rightarrow> 'w \<Rightarrow> bool" where
  "inv \<equiv> streams_inv pc cls st fits"

lemma data_answered:
  assumes c: contract and I: "inv s w"
    and run: "ThreadManager_data_available (pc_vt pc) fd (srv_threads s) w = (Inr (), ts, w')"
  shows "inv (s\<lparr>srv_threads := ts\<rparr>) w'"
proof -
  have M: "manager_inv (pc_vt pc) thread_sessions (srv_threads s)" using I by (simp add: streams_inv_def)
  then have ok: "manager_ok (srv_threads s)" by (simp add: manager_inv_def)
  obtain i where i: "i < length (srv_threads s)"
    and eq: "at_thread fd (thread_data_available (pc_vt pc) fd) (srv_threads s) w =
      (case thread_data_available (pc_vt pc) fd (srv_threads s ! i) w of (r, t', w') \<Rightarrow> (r, (srv_threads s)[i := t'], w'))"
    by (rule at_thread_eq [OF ok, where fd = fd and f = "thread_data_available (pc_vt pc) fd" and w = w]) blast
  then obtain t' where t': "thread_data_available (pc_vt pc) fd (srv_threads s ! i) w = (Inr (), t', w')"
    and ts: "ts = (srv_threads s)[i := t']"
    using run by (auto simp: ThreadManager_data_available_def split: prod.splits)
  show ?thesis
  proof (cases "srv_threads s ! i")
    case (Single u)
    with t' have "sessions_iterate (pc_vt pc) fd (thread_sessions (srv_threads s ! i)) w = (Inr (), thread_sessions t', w')"
      by (auto simp: ThreadSingle_data_available_def split: prod.splits)
    from iterate_answered [OF c _ M i this refl, of "srv_protocol s"] I show ?thesis by (simp add: streams_inv_def ts)
  next
    case (Multi u)
    with t' have "thread_sessions t' = thread_sessions (srv_threads s ! i)" "w' = w"
      by (auto simp: ThreadMulti_data_available_def)
    with streams_inv_same [OF I i] show ?thesis by (simp add: ts)
  qed
qed

lemma remove_answered:
  assumes c: contract and I: "inv s w"
    and run: "ThreadManager_remove_session (pc_vt pc) fd (srv_threads s) w = (r, ts, w')"
  shows "inv (s\<lparr>srv_threads := ts\<rparr>) w'"
proof -
  have M: "manager_inv (pc_vt pc) thread_sessions (srv_threads s)"
    and A: "all_answered st fits (srv_protocol s) (srv_threads s) w" using I by (simp_all add: streams_inv_def)
  then have "manager_ok (srv_threads s)" by (simp add: manager_inv_def)
  note R = sess.dyn.manager_remove [OF this run [unfolded ThreadManager_remove_session_def]]
  have "all_answered st fits (srv_protocol s) ts w'"
  proof (cases "manager_lookup thread_sessions (srv_threads s) fd")
    case None
    with R(3,4) A show ?thesis by (simp add: all_answered_def drop_session_def)
  next
    case (Some x)
    then have w': "w' = connection_destroy (pc_os pc) (pc_ssl pc) (session_connection x) w"
      using R(4) by (simp add: drop_session_def session_destroy_def)
    from A Some have "session_connection x \<in> st_live st w" by (auto simp: all_answered_def answered_def)
    from destroy_law [OF c this] manager_lookup_key [OF M Some] show ?thesis
      by (intro all_answered_update [OF A M R(3)]) (simp_all add: w' session_fd_def only_other_stream)
  qed
  with R(5) [OF M] I show ?thesis by (simp add: streams_inv_def)
qed

lemma new_client_answered:
  assumes c: contract and I: "inv s w" and run: "Server_new_client pc s w = (Inr (), s', w')"
  shows "inv s' w' \<and> srv_protocol s' = srv_protocol s"
proof -
  have M: "manager_inv (pc_vt pc) thread_sessions (srv_threads s)" and cls: "srv_class s = cls"
    and A: "all_answered st fits (srv_protocol s) (srv_threads s) w" and pr: "protocol_ok (srv_protocol s)"
    using I by (simp_all add: streams_inv_def)
  obtain fd w1 where acc: "TCPServer_accept (pc_os pc) (pc_net pc) (srv_fd s) w = (Inr fd, w1)"
    using run by (auto simp: Server_new_client_def split: prod.splits sum.splits)
  obtain cn w2 where cc: "create_connection (pc_os pc) (pc_ssl pc) cls fd w1 = (Inr cn, w2)"
    using run by (auto simp: Server_new_client_def acc cls split: prod.splits sum.splits)
  obtain ts w3 where add: "ThreadManager_add_session (pc_vt pc) (srv_protocol s cn) (srv_threads s) w2 = (Inr (), ts, w3)"
    using run by (auto simp: Server_new_client_def acc cc cls split: prod.splits sum.splits)
  obtain p where pl: "pl_add_client (pc_poller pc) fd (srv_poller s) w3 = (Inr (), p, w')"
    and s': "s' = s\<lparr>srv_threads := ts, srv_poller := p\<rparr>"
    using run by (auto simp: Server_new_client_def acc cc cls add split: prod.splits)
  note C = create_law [OF c acc cc]
  have conn: "session_connection (srv_protocol s cn) = cn" using pr by (simp add: protocol_ok_def)
  have "manager_ok (srv_threads s)" using M by (simp add: manager_inv_def)
  note T = sess.dyn.manager_add [OF this add [unfolded ThreadManager_add_session_def]]
  have new: "answered st fits (srv_protocol s) w2 (srv_protocol s cn)" using C by (simp add: answered_def conn)
  have "other_streams st (connection_fd cn) w2 w3 \<and> answered st fits (srv_protocol s) w3 (srv_protocol s cn)"
  proof (cases "manager_lookup thread_sessions (srv_threads s) (connection_fd cn)")
    case None
    then have "w3 = w2" using T(4) by (simp add: session_fd_def conn drop_session_def)
    with new show ?thesis by (simp add: other_streams_def)
  next
    case (Some x)
    have w3: "w3 = connection_destroy (pc_os pc) (pc_ssl pc) (session_connection x) w2"
      using T(4) Some by (simp add: session_fd_def conn drop_session_def session_destroy_def)
    have "session_connection x \<in> st_live st w" using A Some by (auto simp: all_answered_def answered_def)
    with C have ne: "session_connection x \<noteq> cn" and "session_connection x \<in> st_live st w2" by (auto simp: only_stream_def)
    note D = destroy_law [OF c this(2), folded w3]
    show ?thesis
      using only_other_stream [OF D] manager_lookup_key [OF M Some] answered_frame [OF new D] ne conn
      by (auto simp: session_fd_def)
  qed
  then have "all_answered st fits (srv_protocol s) ts w3"
    using C T(3) by (intro all_answered_update [OF A M, of ts "connection_fd cn"])
      (auto simp: session_fd_def conn intro: other_streams_trans only_other_stream)
  then have "all_answered st fits (srv_protocol s) ts w'"
    using answered_obs [OF add_law [OF c pl]] by (simp add: all_answered_def)
  with T(5) [OF M] I show ?thesis by (simp add: streams_inv_def s')
qed

lemma event_answered:
  assumes c: contract and I: "inv s w" and run: "Server_event pc e s w = (Inr (), s', w')"
  shows "inv s' w' \<and> srv_protocol s' = srv_protocol s"
  using run new_client_answered [OF c I, of s' w'] data_answered [OF c I] remove_answered [OF c I]
  by (auto simp: Server_event_def split: EventType.splits prod.splits)

lemma step_answered:
  assumes c: contract and step: "srv_step pc x y" and I: "case x of (s, es, w) \<Rightarrow> inv s w \<and> srv_protocol s = pr"
  shows "case y of (s, es, w) \<Rightarrow> inv s w \<and> srv_protocol s = pr"
  using step
proof (cases rule: srv_step.cases)
  case (poll s w evs p w')
  with I wait_law [OF c poll(4)] answered_obs [of st w' w] show ?thesis
    by (auto simp: streams_inv_def all_answered_def)
next
  case (handle e s w s' w' es)
  with I event_answered [OF c _ handle(3)] show ?thesis by simp
next
  case (worker_test i s t es w)
  with I streams_inv_same [where s = s and i = i and t' = "Multi (ThreadMulti_test t)"] show ?thesis by auto
next
  case (worker_wake i s t w t' w' es)
  with I have J: "inv s w" and pr: "srv_protocol s = pr" by simp_all
  have "inv (s\<lparr>srv_threads := (srv_threads s)[i := Multi t']\<rparr>) w'"
  proof (cases "tm_queue t")
    case Nil
    with worker_wake(4,6) have "w' = w" "thread_sessions (Multi t') = thread_sessions (srv_threads s ! i)"
      by (auto simp: ThreadMulti_wake_def)
    with streams_inv_same [OF J worker_wake(3)] show ?thesis by simp
  next
    case (Cons fd q)
    with worker_wake(4,6) have "sessions_iterate (pc_vt pc) fd (thread_sessions (srv_threads s ! i)) w =
        (Inr (), thread_sessions (Multi t'), w')"
      by (auto simp: ThreadMulti_wake_def split: prod.splits)
    with iterate_answered [OF c _ _ worker_wake(3) this refl, of "srv_protocol s"] J show ?thesis by (simp add: streams_inv_def)
  qed
  with worker_wake(2) pr show ?thesis by simp
next
  case (stop s es w)
  with I show ?thesis by (auto simp: streams_inv_def Server_stop_def)
qed

lemma reach_answered:
  assumes c: contract and I: "inv s w" and reach: "srv_reach pc (s, w) y"
  shows "case y of (s', es, w') \<Rightarrow> inv s' w' \<and> srv_protocol s' = srv_protocol s"
  using reach
proof induction
  case reach_init
  with I show ?case by simp
next
  case (reach_step x y)
  from step_answered [OF c reach_step.hyps(2) reach_step.IH] show ?case .
qed

end

subsection \<open>TCP connections\<close>

text \<open>
  The calls on sockets, with the log \<open>rcvd\<close> of what each receive call stored: a receive appends to
  the log of its descriptor, a send that does not fail takes all of its data, a new connection
  starts with empty streams, no other call touches them.
\<close>

definition fd_streams :: "('w, 'z) os_scheme \<Rightarrow> ('w, 'n) net_scheme \<Rightarrow> ('w \<Rightarrow> SOCKET \<Rightarrow> string list) \<Rightarrow> bool" where
  [contract_defs]: "fd_streams os nt rcvd \<longleftrightarrow>
     fd_table_contract os \<and> net_contract os nt \<and> recv_contract os \<and> send_contract os \<and>
     (\<forall>fd n w r b w'. os_recv os fd n w = ((r, b), w') \<longrightarrow>
        rcvd w' = (rcvd w)(fd := rcvd w fd @ [b]) \<and> os_sent os w' = os_sent os w) \<and>
     (\<forall>fd d w r w'. os_send os fd d w = (r, w') \<longrightarrow> rcvd w' = rcvd w \<and> (0 \<le> r \<longrightarrow> r = int (length d))) \<and>
     (\<forall>fd w c w'. net_accept nt fd w = (c, w') \<longrightarrow> c \<noteq> INVALID_SOCKET \<longrightarrow>
        rcvd w' = (rcvd w)(c := []) \<and> os_sent os w' = (os_sent os w)(c := '''')) \<and>
     (\<forall>fd. keeps (\<lambda>w. (rcvd w, os_sent os w)) (os_close os fd)) \<and>
     (\<forall>fd. keeps (\<lambda>w. (rcvd w, os_sent os w)) (os_fcntl_getfl os fd)) \<and>
     (\<forall>fd fl. keeps (\<lambda>w. (rcvd w, os_sent os w)) (os_fcntl_setfl os fd fl)) \<and>
     (\<forall>fd. keeps (\<lambda>w. (rcvd w, os_sent os w)) (os_ioctl_fionbio os fd)) \<and>
     (\<forall>fd. keeps (\<lambda>w. (rcvd w, os_sent os w)) (net_getnameinfo nt fd)) \<and>
     (\<forall>lg w. rcvd (os_set_logger os lg w) = rcvd w \<and> os_sent os (os_set_logger os lg w) = os_sent os w)"

definition tcp_streams :: "('w, 'z) os_scheme \<Rightarrow> ('w \<Rightarrow> SOCKET \<Rightarrow> string list) \<Rightarrow> 'w streams" where
  "tcp_streams os rcvd = \<lparr> st_live = (\<lambda>w. TCPConnection ` os_open os w),
     st_rcvd = (\<lambda>w c. rcvd w (connection_fd c)), st_sent = (\<lambda>w c. os_sent os w (connection_fd c)) \<rparr>"

lemma fd_streamsD:
  assumes "fd_streams os nt rcvd"
  shows "fd_table_contract os" "net_contract os nt" "recv_contract os" "send_contract os"
    "os_recv os fd n w = ((r, b), w') \<Longrightarrow> rcvd w' = (rcvd w)(fd := rcvd w fd @ [b]) \<and> os_sent os w' = os_sent os w"
    "os_send os fd d w = (i, w') \<Longrightarrow> rcvd w' = rcvd w \<and> (0 \<le> i \<longrightarrow> i = int (length d))"
    "net_accept nt fd w = (c, w') \<Longrightarrow> c \<noteq> INVALID_SOCKET \<Longrightarrow>
       rcvd w' = (rcvd w)(c := []) \<and> os_sent os w' = (os_sent os w)(c := '''')"
    "keeps (\<lambda>w. (rcvd w, os_sent os w)) (os_close os fd)"
    "keeps (\<lambda>w. (rcvd w, os_sent os w)) (os_fcntl_getfl os fd)"
    "keeps (\<lambda>w. (rcvd w, os_sent os w)) (os_fcntl_setfl os fd fl)"
    "keeps (\<lambda>w. (rcvd w, os_sent os w)) (os_ioctl_fionbio os fd)"
    "keeps (\<lambda>w. (rcvd w, os_sent os w)) (net_getnameinfo nt fd)"
    "(rcvd (os_set_logger os lg w), os_sent os (os_set_logger os lg w)) = (rcvd w, os_sent os w)"
  using assms unfolding fd_streams_def by (blast | simp)+

lemma tcp_send_full:
  assumes "fd_streams os nt rcvd" and "TCPConnection_send os fd d w = (Inr (), w')"
  shows "rcvd w' = rcvd w \<and> os_open os w' = os_open os w \<and>
    os_sent os w' = (os_sent os w)(fd := os_sent os w fd @ d)"
proof (cases "d = ''''")
  case True
  with assms(2) show ?thesis by (simp add: TCPConnection_send_def send_loop_done)
next
  case False
  note D = fd_streamsD [OF assms(1)]
  have "send_loop (os_send os fd d) (send_error os) (length d) 0 w = Some (Inr (), w')"
    using assms(2) by (auto simp: TCPConnection_send_def io_loop_def split: option.splits)
  then have run: "os_send os fd d w = (int (length d), w')"
    using False D(6) by (intro send_loop_full) auto
  moreover have "os_open os w' = os_open os w" using D(1) run unfolding fd_table_contract_def by (metis snd_conv)
  ultimately show ?thesis using D(6) [OF run] send_contract_sent [OF D(4) run] by simp
qed

interpretation tcp_str: server_streams "\<lparr> pc_os = os, pc_ssl = sl, pc_net = nt, pc_poller = pvt \<rparr>" TCPServer
  "tcp_streams os rcvd" "\<lambda>_. True" "fd_streams os nt rcvd \<and> poller_keeps pvt (\<lambda>w. (os_open os w, rcvd w, os_sent os w))"
  for os :: "'w os" and sl :: "'w openssl" and nt :: "'w net" and pvt :: "('p, 'w) poller_vtable" and rcvd
proof (unfold_locales, goal_cases)
  case (2 c w d w')
  then obtain fd where cf: "c = TCPConnection fd" by (auto simp: tcp_streams_def)
  note D = fd_streamsD [OF conjunct1 [OF 2(1)]]
  obtain r b w1 where r: "os_recv os fd RECV_BUF_SZ w = ((r, b), w1)" by (metis prod.exhaust)
  from 2(3) have "recv_result os r (overwrite b (replicate RECV_BUF_SZ NUL)) w1 = (Inr d, w')"
    by (simp add: cf TCPConnection_recv_eq [OF r])
  from recv_result_bytes [OF this recv_contractD [OF D(3) r]] have "d = b" "w' = w1" by simp_all
  moreover have "os_open os w1 = os_open os w" using D(1) r unfolding fd_table_contract_def by (metis snd_conv)
  ultimately show ?case using D(5) [OF r] 2(2) by (auto simp: cf tcp_streams_def only_stream_def)
next
  case (3 c w d w')
  then obtain fd where cf: "c = TCPConnection fd" by (auto simp: tcp_streams_def)
  with 3 tcp_send_full [OF conjunct1 [OF 3(1)], of fd d w w'] show ?case
    by (auto simp: tcp_streams_def only_stream_def)
next
  case (4 c w)
  then obtain fd where cf: "c = TCPConnection fd" by (auto simp: tcp_streams_def)
  note D = fd_streamsD [OF conjunct1 [OF 4(1)]]
  have "(rcvd (close_socket os fd w), os_sent os (close_socket os fd w)) = (rcvd w, os_sent os w)"
    using D(8) by (simp add: keeps_def close_socket_def)
  with close_socket_open [OF D(1), of fd w] show ?case by (auto simp: cf tcp_streams_def only_stream_def)
next
  case (5 sfd w fd w1 c w2)
  note D = fd_streamsD [OF conjunct1 [OF 5(1)]]
  have c: "c = TCPConnection fd" "w2 = w1" using 5(3) by simp_all
  let ?obs = "\<lambda>w. (os_open os w, rcvd w, os_sent os w)"
  have run: "TCPServer_accept os nt sfd w = (Inr fd, w1)" using 5(2) by simp
  obtain w0 where acc: "net_accept nt sfd w = (fd, w0)" "fd \<noteq> INVALID_SOCKET" and "?obs w1 = ?obs w0"
    by (rule accept_keeps [OF run, of ?obs])
      (use D(9-13) D(1) net_contractD(9) [OF D(2)] in \<open>auto simp: fd_table_contract_def keeps_def\<close>)
  with D(7) [OF acc] opensD(2) [OF net_contractD(2) [OF D(2)] acc]
  show ?case by (auto simp: c tcp_streams_def only_stream_def)
next
  case (6 p w r p' w')
  then show ?case by (auto simp: poller_keeps_def st_obs_def tcp_streams_def)
next
  case (7 fd p w q p' w')
  then show ?case by (auto simp: poller_keeps_def st_obs_def tcp_streams_def)
qed simp

subsection \<open>TLS connections\<close>

text \<open>
  The OpenSSL calls in the same way, with the descriptor \<open>bound\<close> that each object was given last.
  A new object is none of those in use and starts with empty streams. A write that does not fail
  has taken everything it was asked to write, which is the documented behaviour unless partial
  writes are enabled, and the program does not enable them.
\<close>

definition ssl_streams ::
  "('w, 'z) os_scheme \<Rightarrow> ('w, 'y) openssl_scheme \<Rightarrow> ('w, 'n) net_scheme \<Rightarrow> ('w \<Rightarrow> SSL \<Rightarrow> string list) \<Rightarrow>
     ('w \<Rightarrow> SSL \<Rightarrow> SOCKET option) \<Rightarrow> bool" where
  [contract_defs]: "ssl_streams os sl nt rcvd bound \<longleftrightarrow>
     ssl_read_contract sl \<and> ssl_write_contract sl \<and>
     (\<forall>ssl n w r b w'. ssl_read sl ssl n w = ((r, b), w') \<longrightarrow>
        rcvd w' = (rcvd w)(ssl := rcvd w ssl @ [b]) \<and> ssl_sent sl w' = ssl_sent sl w \<and> bound w' = bound w) \<and>
     (\<forall>ssl d n w r w'. ssl_write sl ssl d n w = (r, w') \<longrightarrow>
        rcvd w' = rcvd w \<and> bound w' = bound w \<and> (0 \<le> r \<longrightarrow> r = max 0 n)) \<and>
     (\<forall>ctx w ssl w'. ssl_new sl ctx w = (ssl, w') \<longrightarrow> bound w ssl = None \<and> bound w' = bound w \<and>
        rcvd w' = (rcvd w)(ssl := []) \<and> ssl_sent sl w' = (ssl_sent sl w)(ssl := '''')) \<and>
     (\<forall>ssl fd w r w'. ssl_set_fd sl ssl fd w = (r, w') \<longrightarrow> bound w' = (bound w)(ssl \<mapsto> fd) \<and>
        rcvd w' = rcvd w \<and> ssl_sent sl w' = ssl_sent sl w) \<and>
     (\<forall>ssl w. bound (ssl_free sl ssl w) = (bound w)(ssl := None) \<and>
        rcvd (ssl_free sl ssl w) = rcvd w \<and> ssl_sent sl (ssl_free sl ssl w) = ssl_sent sl w) \<and>
     (\<forall>ssl. keeps (\<lambda>w. (bound w, rcvd w, ssl_sent sl w)) (ssl_accept sl ssl)) \<and>
     keeps (\<lambda>w. (bound w, rcvd w, ssl_sent sl w)) (ssl_print_errors sl) \<and>
     (\<forall>ssl. keeps (\<lambda>w. (bound w, rcvd w, ssl_sent sl w)) (ssl_shutdown sl ssl)) \<and>
     (\<forall>fd. keeps (\<lambda>w. (bound w, rcvd w, ssl_sent sl w)) (os_close os fd)) \<and>
     (\<forall>fd. keeps (\<lambda>w. (bound w, rcvd w, ssl_sent sl w)) (net_accept nt fd)) \<and>
     (\<forall>fd. keeps (\<lambda>w. (bound w, rcvd w, ssl_sent sl w)) (os_fcntl_getfl os fd)) \<and>
     (\<forall>fd fl. keeps (\<lambda>w. (bound w, rcvd w, ssl_sent sl w)) (os_fcntl_setfl os fd fl)) \<and>
     (\<forall>fd. keeps (\<lambda>w. (bound w, rcvd w, ssl_sent sl w)) (os_ioctl_fionbio os fd)) \<and>
     (\<forall>fd. keeps (\<lambda>w. (bound w, rcvd w, ssl_sent sl w)) (net_getnameinfo nt fd)) \<and>
     (\<forall>lg w. bound (os_set_logger os lg w) = bound w \<and> rcvd (os_set_logger os lg w) = rcvd w \<and>
        ssl_sent sl (os_set_logger os lg w) = ssl_sent sl w)"

fun connection_ssl :: "connection \<Rightarrow> SSL" where
  "connection_ssl (SSLConnection fd ssl) = ssl"
| "connection_ssl (TCPConnection fd) = 0"

definition tls_streams ::
  "('w, 'y) openssl_scheme \<Rightarrow> ('w \<Rightarrow> SSL \<Rightarrow> string list) \<Rightarrow> ('w \<Rightarrow> SSL \<Rightarrow> SOCKET option) \<Rightarrow> 'w streams" where
  "tls_streams sl rcvd bound = \<lparr> st_live = (\<lambda>w. {SSLConnection fd ssl | fd ssl. bound w ssl = Some fd}),
     st_rcvd = (\<lambda>w c. rcvd w (connection_ssl c)), st_sent = (\<lambda>w c. ssl_sent sl w (connection_ssl c)) \<rparr>"

lemma ssl_streamsD:
  assumes "ssl_streams os sl nt rcvd bound"
  shows "ssl_read_contract sl" "ssl_write_contract sl"
    "ssl_read sl ssl n w = ((r, b), w') \<Longrightarrow>
       rcvd w' = (rcvd w)(ssl := rcvd w ssl @ [b]) \<and> ssl_sent sl w' = ssl_sent sl w \<and> bound w' = bound w"
    "ssl_write sl ssl d n w = (i, w') \<Longrightarrow> rcvd w' = rcvd w \<and> bound w' = bound w \<and> (0 \<le> i \<longrightarrow> i = max 0 n)"
    "ssl_new sl ctx w = (ssl, w') \<Longrightarrow> bound w ssl = None \<and> bound w' = bound w \<and>
        rcvd w' = (rcvd w)(ssl := []) \<and> ssl_sent sl w' = (ssl_sent sl w)(ssl := '''')"
    "ssl_set_fd sl ssl fd w = (i, w') \<Longrightarrow> bound w' = (bound w)(ssl \<mapsto> fd) \<and>
        rcvd w' = rcvd w \<and> ssl_sent sl w' = ssl_sent sl w"
    "bound (ssl_free sl ssl w) = (bound w)(ssl := None)" "rcvd (ssl_free sl ssl w) = rcvd w"
    "ssl_sent sl (ssl_free sl ssl w) = ssl_sent sl w"
  using assms unfolding ssl_streams_def by meson+

lemma ssl_streams_keeps:
  assumes "ssl_streams os sl nt rcvd bound"
  shows "keeps (\<lambda>w. (bound w, rcvd w, ssl_sent sl w)) (ssl_accept sl ssl)"
    "keeps (\<lambda>w. (bound w, rcvd w, ssl_sent sl w)) (ssl_print_errors sl)"
    "keeps (\<lambda>w. (bound w, rcvd w, ssl_sent sl w)) (ssl_shutdown sl ssl)"
    "keeps (\<lambda>w. (bound w, rcvd w, ssl_sent sl w)) (os_close os fd)"
    "keeps (\<lambda>w. (bound w, rcvd w, ssl_sent sl w)) (net_accept nt fd)"
    "keeps (\<lambda>w. (bound w, rcvd w, ssl_sent sl w)) (os_fcntl_getfl os fd)"
    "keeps (\<lambda>w. (bound w, rcvd w, ssl_sent sl w)) (os_fcntl_setfl os fd fl)"
    "keeps (\<lambda>w. (bound w, rcvd w, ssl_sent sl w)) (os_ioctl_fionbio os fd)"
    "keeps (\<lambda>w. (bound w, rcvd w, ssl_sent sl w)) (net_getnameinfo nt fd)"
    "(bound (os_set_logger os lg w), rcvd (os_set_logger os lg w), ssl_sent sl (os_set_logger os lg w)) =
       (bound w, rcvd w, ssl_sent sl w)"
  using assms unfolding ssl_streams_def by (blast | simp)+

text \<open>
  Sending: the size is converted to \<^verbatim>\<open>int\<close>, so only less than $2^{31}$ bytes are handed over as
  they are; more than that cannot be sent without the stream growing past the bound.
\<close>

definition int_max_fits :: "string \<Rightarrow> bool" where
  "int_max_fits s \<longleftrightarrow> length s < 2 ^ 31"

lemma ssl_send_law:
  assumes S: "ssl_streams os sl nt rcvd bound" and run: "SSLConnection_send os sl ssl d w = (Inr (), w')"
  shows "rcvd w' = rcvd w \<and> bound w' = bound w \<and> (\<forall>s. s \<noteq> ssl \<longrightarrow> ssl_sent sl w' s = ssl_sent sl w s) \<and>
    (\<exists>x. ssl_sent sl w' ssl = ssl_sent sl w ssl @ x \<and> (int_max_fits (ssl_sent sl w' ssl) \<longrightarrow> x = d))"
proof -
  note D = ssl_streamsD [OF S]
  let ?call = "ssl_write sl ssl d (c_int (length d))"
  have loop: "send_loop ?call (send_error os) (length d) 0 w = Some (Inr (), w')"
    using run by (auto simp: SSLConnection_send_def io_loop_def split: option.splits)
  have wr: "r \<le> max 0 n \<and> ssl_sent sl w' = (ssl_sent sl w)(ssl := ssl_sent sl w ssl @ take (nat r) d)"
    if "ssl_write sl ssl d n w = (r, w')" for n w r w'
    using D(2) that unfolding ssl_write_contract_def by blast
  have fr: "(rcvd w', bound w', \<lambda>s. if s = ssl then '''' else ssl_sent sl w' s) =
      (rcvd w, bound w, \<lambda>s. if s = ssl then '''' else ssl_sent sl w s)"
    by (rule send_loop_frame [OF loop]) (use wr D(4) in \<open>force simp: fun_eq_iff\<close>)
  have small: "\<exists>x. ssl_sent sl w' ssl = ssl_sent sl w ssl @ x \<and> x = d" if "length d < 2 ^ 31"
  proof (cases "d = ''''")
    case True
    with loop show ?thesis by (simp add: send_loop_done)
  next
    case False
    have "?call w = (int (length d), w')"
      by (rule send_loop_full [OF loop]) (use False D(4) [where n = "c_int (length d)"] c_int_small [OF that] in \<open>fastforce+\<close>)
    with wr [OF this] show ?thesis by simp
  qed
  have "\<exists>rs. rounds_deliver (\<lambda>w. ssl_sent sl w ssl) d (length d) 0 w w' rs"
    by (rule send_loop_delivers [OF loop]) (use wr in auto)
  then obtain x where x: "ssl_sent sl w' ssl = ssl_sent sl w ssl @ x" by (auto simp: rounds_deliver_def)
  have "length (ssl_sent sl w ssl) + (length d - 0) \<le> length (ssl_sent sl w' ssl)"
  proof (rule send_loop_grows [where sz = "\<lambda>w. length (ssl_sent sl w ssl)", OF loop])
    fix v r v'
    assume c: "?call v = (r, v')" and r: "0 \<le> r"
    have "nat r \<le> length d" using wr [OF c] c_int_le [of "length d"] by linarith
    with wr [OF c] show "length (ssl_sent sl v ssl) + nat r \<le> length (ssl_sent sl v' ssl)" by simp
  qed
  with x have "length d \<le> length x" by simp
  then show ?thesis using fr small x by (auto simp: int_max_fits_def fun_eq_iff split: if_splits)
qed

interpretation tls_str: server_streams "\<lparr> pc_os = os, pc_ssl = sl, pc_net = nt, pc_poller = pvt \<rparr>" "SSLServer ctx"
  "tls_streams sl rcvd bound" int_max_fits
  "ssl_streams os sl nt rcvd bound \<and> poller_keeps pvt (\<lambda>w. (bound w, rcvd w, ssl_sent sl w))"
  for os :: "'w os" and sl :: "'w openssl" and nt :: "'w net" and pvt :: "('p, 'w) poller_vtable" and rcvd bound
proof (unfold_locales, goal_cases)
  case (1 a b)
  then show ?case by (simp add: int_max_fits_def)
next
  case (2 c w d w')
  then obtain fd ssl where cf: "c = SSLConnection fd ssl" "bound w ssl = Some fd" by (auto simp: tls_streams_def)
  note D = ssl_streamsD [OF conjunct1 [OF 2(1)]]
  obtain r b w1 where r: "ssl_read sl ssl (c_int RECV_BUF_SZ) w = ((r, b), w1)" by (metis prod.exhaust)
  from 2(3) have rr: "recv_result os r (overwrite b (replicate RECV_BUF_SZ NUL)) w1 = (Inr d, w')"
    by (simp add: cf SSLConnection_recv_eq [OF r])
  have "length b = nat r" "r \<le> int RECV_BUF_SZ"
    using D(1) r c_int_buf unfolding ssl_read_contract_def by (metis, metis max_def of_nat_0_le_iff)
  from recv_result_bytes [OF rr this] D(3) [OF r] cf show ?case by (auto simp: tls_streams_def only_stream_def)
next
  case (3 c w d w')
  then obtain fd ssl where cf: "c = SSLConnection fd ssl" "bound w ssl = Some fd" by (auto simp: tls_streams_def)
  have L: "rcvd w' = rcvd w \<and> bound w' = bound w \<and> (\<forall>s. s \<noteq> ssl \<longrightarrow> ssl_sent sl w' s = ssl_sent sl w s) \<and>
      (\<exists>x. ssl_sent sl w' ssl = ssl_sent sl w ssl @ x \<and> (int_max_fits (ssl_sent sl w' ssl) \<longrightarrow> x = d))"
    by (rule ssl_send_law [OF conjunct1 [OF 3(1)]]) (use 3(3) cf in simp)
  then have "only_stream (tls_streams sl rcvd bound) c w w'" using cf
    by (auto simp: tls_streams_def only_stream_def) (metis option.inject)+
  with L cf show ?case by (simp add: tls_streams_def)
next
  case (4 c w)
  then obtain fd ssl where cf: "c = SSLConnection fd ssl" "bound w ssl = Some fd" by (auto simp: tls_streams_def)
  note S = conjunct1 [OF 4(1)]
  show ?case using ssl_streams_keeps(3,4) [OF S] ssl_streamsD(7-9) [OF S] cf(2)
    by (auto simp: cf(1) tls_streams_def only_stream_def close_socket_def keeps_def) (metis option.inject)
next
  case (5 sfd w fd w1 c w2)
  note S = conjunct1 [OF 5(1)]
  have run: "TCPServer_accept os nt sfd w = (Inr fd, w1)" using 5(2) by simp
  obtain w0 where acc: "net_accept nt sfd w = (fd, w0)"
    and w1: "(bound w1, rcvd w1, ssl_sent sl w1) = (bound w0, rcvd w0, ssl_sent sl w0)"
    by (rule accept_keeps [OF run ssl_streams_keeps(9,10,6-8) [OF S]])
  have eq: "(bound w1, rcvd w1, ssl_sent sl w1) = (bound w, rcvd w, ssl_sent sl w)"
    using w1 keepsD [OF ssl_streams_keeps(5) [OF S] acc] by simp
  obtain ssl v1 where new: "ssl_new sl ctx w1 = (ssl, v1)" by fastforce
  obtain i v2 where set: "ssl_set_fd sl ssl fd v1 = (i, v2)" by fastforce
  from 5(3) new set have c: "c = SSLConnection fd ssl"
    and v: "(bound w2, rcvd w2, ssl_sent sl w2) = (bound v2, rcvd v2, ssl_sent sl v2)"
    using keepsD [OF ssl_streams_keeps(1) [OF S]] keepsD [OF ssl_streams_keeps(2) [OF S]]
    by (auto simp: SSLConnection_new_def io_bind_call split: prod.splits if_splits option.splits)
  show ?case using eq v ssl_streamsD(5) [OF S new] ssl_streamsD(6) [OF S set]
    by (auto simp: c tls_streams_def only_stream_def) blast
next
  case (6 p w r p' w')
  then show ?case by (auto simp: poller_keeps_def st_obs_def tls_streams_def)
next
  case (7 fd p w q p' w')
  then show ?case by (auto simp: poller_keeps_def st_obs_def tls_streams_def)
qed

subsection \<open>A server that has just been constructed\<close>

lemma streams_inv_new:
  assumes "protocol_ok (srv_protocol s)" and "srv_class s = cls" and "srv_threads s = ThreadManager_new n"
    and "manager_ok (srv_threads s)"
  shows "streams_inv pc cls st fits s w"
proof -
  have "n = Threads_Single \<or> (\<exists>k. n = Threads k \<and> 0 < k)" using assms(3,4)
    by (cases n) (auto simp: manager_ok_def)
  then have "manager_inv (pc_vt pc) thread_sessions (srv_threads s)" using assms(3,4)
    by (auto simp: manager_inv_def routed_def ThreadMulti_new_def ThreadSingle_new_def)
  moreover have "manager_lookup thread_sessions (srv_threads s) fd = None" for fd
    using manager_lookup_new [of n fd] assms(3,4) by simp
  ultimately show ?thesis using assms(1,2) by (simp add: streams_inv_def all_answered_def)
qed

lemma tcp_clients_answered:
  assumes "fd_streams os nt rcvd" and "poller_keeps pvt (\<lambda>w. (os_open os w, rcvd w, os_sent os w))"
    and "srv_class s = TCPServer" and "protocol_ok (srv_protocol s)"
    and "srv_threads s = ThreadManager_new n" and "manager_ok (srv_threads s)"
    and "srv_reach \<lparr> pc_os = os, pc_ssl = sl, pc_net = nt, pc_poller = pvt \<rparr> (s, w) (s', es, w')"
    and "manager_lookup thread_sessions (srv_threads s') fd = Some x"
  shows "session_feeds (srv_protocol s (TCPConnection fd)) (rcvd w' fd) = Some (os_sent os w' fd, x)"
proof -
  note I = tcp_str.reach_answered [OF conjI [OF assms(1,2)] streams_inv_new [OF assms(4,3,5,6)] assms(7)]
  then have M: "manager_inv (Session_vtable os sl) thread_sessions (srv_threads s')" by (simp add: streams_inv_def)
  from I assms(8) have A: "answered (tcp_streams os rcvd) (\<lambda>_. True) (srv_protocol s) w' x"
    by (auto simp: streams_inv_def all_answered_def)
  then obtain f where f: "session_connection x = TCPConnection f" by (auto simp: answered_def tcp_streams_def)
  with manager_lookup_key [OF M assms(8)] have "f = fd" by (simp add: session_fd_def)
  with A f show ?thesis by (simp add: answered_def tcp_streams_def)
qed

lemma tls_clients_answered:
  assumes "ssl_streams os sl nt rcvd bound" and "poller_keeps pvt (\<lambda>w. (bound w, rcvd w, ssl_sent sl w))"
    and "srv_class s = SSLServer ctx" and "protocol_ok (srv_protocol s)"
    and "srv_threads s = ThreadManager_new n" and "manager_ok (srv_threads s)"
    and "srv_reach \<lparr> pc_os = os, pc_ssl = sl, pc_net = nt, pc_poller = pvt \<rparr> (s, w) (s', es, w')"
    and "manager_lookup thread_sessions (srv_threads s') fd = Some x"
  shows "\<exists>ssl. session_connection x = SSLConnection fd ssl \<and> bound w' ssl = Some fd \<and>
    (length (ssl_sent sl w' ssl) < 2 ^ 31 \<longrightarrow>
       session_feeds (srv_protocol s (SSLConnection fd ssl)) (rcvd w' ssl) = Some (ssl_sent sl w' ssl, x))"
proof -
  note I = tls_str.reach_answered [OF conjI [OF assms(1,2)] streams_inv_new [OF assms(4,3,5,6)] assms(7)]
  then have M: "manager_inv (Session_vtable os sl) thread_sessions (srv_threads s')" by (simp add: streams_inv_def)
  from I assms(8) have A: "answered (tls_streams sl rcvd bound) int_max_fits (srv_protocol s) w' x"
    by (auto simp: streams_inv_def all_answered_def)
  then obtain f ssl where f: "session_connection x = SSLConnection f ssl" "bound w' ssl = Some f"
    by (auto simp: answered_def tls_streams_def)
  with manager_lookup_key [OF M assms(8)] have "f = fd" by (simp add: session_fd_def)
  with A f show ?thesis by (simp add: answered_def tls_streams_def int_max_fits_def)
qed

lemma echo_feeds:
  assumes "session_feeds (LoadTestProtocol_create_session c) ds = Some (r, x)"
  shows "\<exists>rest. concat ds = r @ rest \<and> x = LineSession c (\<lambda>d. d) ((LineSession_new True lf)\<lparr>buffer := rest\<rparr>)"
proof -
  from assms obtain ls' where ls': "LineSession_feeds (\<lambda>d. d) (LineSession_new True lf) ds = Some (r, ls')"
    and x: "x = LineSession c (\<lambda>d. d) ls'"
    by (auto simp: LoadTestProtocol_create_session_def session_feeds_line)
  from LineSession_feeds_splits [OF ls' line_ok_new] obtain fs rest where "concat ds = unlines lf fs @ rest"
    "r = responses (\<lambda>d. d) (LineSession_new True lf) fs" "ls' = (LineSession_new True lf)\<lparr>buffer := rest\<rparr>"
    by (auto simp: splits_off_def LineSession_new_def)
  moreover have "responses (\<lambda>d. d) (LineSession_new True lf) fs = unlines lf fs"
    by (simp add: responses_def unlines_def LineSession_new_def)
  ultimately show ?thesis by (simp add: x)
qed

end
