(* ===== verification/Answers.thy ===== *)
theory Answers
  imports Streams
begin

text \<open>
  The properties of the whole server that rest on the streams of its connections, for TCP and TLS,
  and the concrete worlds and runs that show their hypotheses to hold together: a client of a
  server with two workers, and a client of a TLS server with a single thread.
\<close>

subsection \<open>Properties\<close>


text \<open>
  A world that logs what the receive calls stored, with sends that take everything; a server with
  two workers, a client that connects and sends a line and a half.
\<close>

record sim_hist = sim_net +
  sim_log :: "SOCKET \<Rightarrow> string list"

definition hist_os :: "sim_hist os" where
  "hist_os = sim_os\<lparr>
     os_recv := (\<lambda>fd n w. case sim_recv fd n w of (rb, w') \<Rightarrow>
       (rb, w'\<lparr>sim_log := (sim_log w')(fd := sim_log w' fd @ [snd rb])\<rparr>)),
     os_send := (\<lambda>fd d w. (int (length d), w\<lparr>sim_out := (sim_out w)(fd := sim_out w fd @ d)\<rparr>))\<rparr>"

definition hist_nt :: "sim_hist net" where
  "hist_nt = sim_nt\<lparr>net_accept := (\<lambda>fd w. case sim_new_fd w of (c, w') \<Rightarrow>
     (c, if c = INVALID_SOCKET then w'
         else w'\<lparr>sim_log := (sim_log w')(c := []), sim_out := (sim_out w')(c := '''')\<rparr>))\<rparr>"

lemma hist_open: "os_open hist_os = sim_open" "os_open (sim_os :: sim_hist os) = sim_open" "os_sent hist_os = sim_out"
  by (simp_all add: hist_os_def sim_os_def)

lemma hist_accept_opens: "opens hist_os (net_accept hist_nt fd)"
  unfolding opens_def
proof (intro allI impI)
  fix w w' c
  assume "net_accept hist_nt fd w = (c, w')"
  then obtain w1 where n: "sim_new_fd w = (c, w1)" and w': "sim_open w' = sim_open w1"
    by (auto simp: hist_nt_def split: prod.splits if_splits)
  from opensD [OF sim_new_fd_opens n] w'
  show "if c = INVALID_SOCKET then os_open hist_os w' = os_open hist_os w
      else c \<notin> os_open hist_os w \<and> 0 \<le> sint c \<and> os_open hist_os w' = insert c (os_open hist_os w)"
    by (simp add: hist_open)
qed

lemma hist_net_contract: "net_contract hist_os hist_nt"
proof -
  have "net_contract (sim_os :: sim_hist os) sim_nt" by (rule sim_net_contract)
  note N = net_contractD [OF this]
  have "opens hist_os (net_socket hist_nt f t p)" for f t p
    using N(1) unfolding opens_def hist_open by (simp add: hist_nt_def)
  moreover have "keeps (os_open hist_os) (net_getaddrinfo hist_nt h p hints)" "os_open hist_os (net_freeaddrinfo hist_nt l w) = os_open hist_os w"
    "keeps (os_open hist_os) (net_setsockopt hist_nt fd)" "keeps (os_open hist_os) (net_bind hist_nt fd a)"
    "keeps (os_open hist_os) (net_listen hist_nt fd n)" "keeps (os_open hist_os) (net_connect hist_nt fd a)"
    "keeps (os_open hist_os) (net_getnameinfo hist_nt fd)" for h p hints l w fd a n
    using N(3-9) unfolding hist_open by (simp_all add: hist_nt_def)
  ultimately show ?thesis using hist_accept_opens by (simp add: net_contract_def)
qed

lemma hist_fd_streams: "fd_streams hist_os hist_nt sim_log"
proof -
  have "fd_table_contract hist_os" "send_contract hist_os"
    by (auto simp: fd_table_contract_def send_contract_def hist_os_def sim_os_def sim_recv_def
        split: list.splits prod.splits)
  moreover have "recv_contract hist_os"
    by (auto simp: recv_contract_def hist_os_def sim_recv_def split: list.splits prod.splits)
  ultimately show ?thesis using hist_net_contract
    by (auto simp: fd_streams_def hist_os_def hist_nt_def sim_nt_def sim_os_def sim_recv_def sim_new_fd_def keeps_def
        split: list.splits prod.splits if_splits)
qed

lemma hist_epoll_keeps: "epoll_keeps sim_epoll (\<lambda>w :: sim_hist. (os_open hist_os w, sim_log w, os_sent hist_os w))"
  by (auto simp: epoll_keeps_def keeps_def sim_epoll_def hist_os_def sim_os_def Let_def split: list.splits)

definition hist_server :: "linux_poller server" where
  "hist_server = sim_server\<lparr>srv_protocol := LoadTestProtocol_create_session, srv_threads := ThreadManager_new (Threads 2)\<rparr>"

definition hist_world :: "(32 word \<times> SOCKET) list list \<Rightarrow> SOCKET set \<Rightarrow> sim_hist" where
  "hist_world evs cl = sim_net.extend (sim_srv_world\<lparr>sim_events := evs, sim_open := {3, 5} \<union> cl,
     sim_interest := (\<lambda>q. if q = 5 then insert 3 cl else {}), sim_recvs := [''ab'' @ lf @ ''x'']\<rparr>) (sim_hist.fields (\<lambda>_. []))"

abbreviation hist_calls :: "(linux_poller, sim_hist) platform_calls" where
  "hist_calls \<equiv> linux_calls hist_os sim_ssl hist_nt sim_epoll"

definition hist_session :: "string \<Rightarrow> session" where
  "hist_session b = LineSession (TCPConnection 0) (\<lambda>d. d) ((LineSession_new True lf)\<lparr>buffer := b\<rparr>)"

definition hist_threads :: "string \<Rightarrow> SOCKET list \<Rightarrow> worker_position \<Rightarrow> session thread list" where
  "hist_threads b q pos = [Multi \<lparr> tm_sessions = [0 \<mapsto> hist_session b], tm_queue = q, stop_requested = False,
     worker = pos, finished = False \<rparr>, Multi ThreadMulti_new]"

lemmas hist_eval = linux_calls_def LinuxPoller_def const_state_def LinuxPoller_wait_def linux_event_def io_bind_call
  hist_world_def hist_server_def sim_server_def sim_linux_def sim_srv_world_def sim_net_eval EVENT_BUFFER_SZ_def
  sim_net.defs sim_hist.defs hist_os_def hist_nt_def

lemma hist_poll_new:
  "pl_wait (pc_poller hist_calls) sim_linux (hist_world [[(1, 3)], [(1, 0)]] {}) =
     (Inr [mk_Event NewClient 3], sim_linux, hist_world [[(1, 0)]] {})"
  by (simp add: hist_eval)

lemma hist_poll_data:
  "pl_wait (pc_poller hist_calls) sim_linux (hist_world [[(1, 0)]] {0}) =
     (Inr [mk_Event ClientDataReady 0], sim_linux, hist_world [] {0})"
  by (simp add: hist_eval EPOLLIN_def EPOLLET_def EPOLLERR_def EPOLLHUP_def EPOLLRDHUP_def)

lemma hist_accept:
  "TCPServer_accept hist_os hist_nt 3 (hist_world evs {}) = (Inr 0, (hist_world evs {})\<lparr>sim_open := {0, 3, 5}\<rparr>)"
  by (simp add: TCPServer_accept_def socket_mark_as_nonblocking_def sim_new_fd_def upt_conv_Cons INVALID_SOCKET_def log_quiet init_logger_def
      hist_eval
      fun_eq_iff)

lemma hist_new_client:
  "Server_new_client hist_calls hist_server (hist_world evs {}) =
     (Inr (), hist_server\<lparr>srv_threads := hist_threads '''' [] AtTest\<rparr>, hist_world evs {0})"
proof -
  let ?w = "(hist_world evs {})\<lparr>sim_open := {0, 3, 5}\<rparr>"
  have s: "srv_fd hist_server = 3" "srv_class hist_server = TCPServer" "srv_poller hist_server = sim_linux"
    "srv_protocol hist_server = LoadTestProtocol_create_session" "srv_threads hist_server = ThreadManager_new (Threads 2)"
    by (simp_all add: hist_server_def sim_server_def)
  have add: "ThreadManager_add_session (Session_vtable hist_os sim_ssl)
      (LoadTestProtocol_create_session (TCPConnection 0)) (ThreadManager_new (Threads 2)) ?w =
      (Inr (), hist_threads '''' [] AtTest, ?w)"
    by (simp add: ThreadManager_add_session_def at_thread_def thread_index_def numeral_2_eq_2 ThreadMulti_add_session_def
        LoadTestProtocol_create_session_def session_fd_def drop_session_def hist_threads_def hist_session_def
        ThreadMulti_new_def LineSession_new_def)
  have pl: "pl_add_client (LinuxPoller hist_os sim_epoll) 0 sim_linux ?w = (Inr (), sim_linux, hist_world evs {0})"
    by (simp add: LinuxPoller_add_client_def hist_eval fun_eq_iff insert_commute)
  show ?thesis
    by (simp add: Server_new_client_def s linux_calls_def hist_accept add pl del: ThreadManager_new.simps)
qed

lemma hist_data:
  "Server_event hist_calls (mk_Event ClientDataReady 0) (hist_server\<lparr>srv_threads := hist_threads b [] pos\<rparr>) w =
     (Inr (), hist_server\<lparr>srv_threads := hist_threads b [0] pos\<rparr>, w)"
  by (simp add: Server_event_def ThreadManager_data_available_def at_thread_def thread_index_def hist_threads_def
      ThreadMulti_data_available_def)

definition hist_end :: sim_hist where
  "hist_end = (hist_world [] {0})\<lparr>sim_recvs := [], sim_out := (\<lambda>_. '''')(0 := ''ab'' @ lf),
     sim_log := (\<lambda>_. [])(0 := [''ab'' @ lf @ ''x''])\<rparr>"

lemma hist_feed:
  "LineSession_feed (\<lambda>d. d) ((LineSession_new True lf)\<lparr>buffer := ''''\<rparr>) (''ab'' @ lf @ ''x'') =
     Some (''ab'' @ lf, (LineSession_new True lf)\<lparr>buffer := ''x''\<rparr>)"
  by (simp add: LineSession_feed_def LineSession_new_def line_loop.simps str_find_def lf_def substr0_def erase0_def)

lemma hist_iteration:
  "session_iteration hist_os sim_ssl (hist_session '''') (hist_world [] {0}) = (Inr (), hist_session ''x'', hist_end)"
proof -
  let ?w = "(hist_world [] {0})\<lparr>sim_recvs := [], sim_log := (\<lambda>_. [])(0 := [''ab'' @ lf @ ''x''])\<rparr>"
  have "os_recv hist_os 0 RECV_BUF_SZ (hist_world [] {0}) = ((4, ''ab'' @ lf @ ''x''), ?w)"
    by (simp add: hist_eval RECV_BUF_SZ_def lf_def)
  then have recv: "TCPConnection_recv hist_os 0 (hist_world [] {0}) = (Inr (''ab'' @ lf @ ''x''), ?w)"
    by (simp add: TCPConnection_recv_eq recv_result_data RECV_BUF_SZ_def str_resize_def overwrite_def lf_def)
  have "send_loop (os_send hist_os 0 (''ab'' @ lf)) (send_error hist_os) (length (''ab'' @ lf)) 0 ?w = Some (Inr (), hist_end)"
    by (subst send_loop_round [where r = 3 and w' = hist_end])
      (simp_all add: hist_eval hist_end_def send_loop_done lf_def)
  then have send: "TCPConnection_send hist_os 0 (''ab'' @ lf) ?w = (Inr (), hist_end)"
    by (simp only: TCPConnection_send_def io_loop_Some)
  show ?thesis using recv send hist_feed by (simp add: hist_session_def LineSession_iteration_def)
qed

lemma hist_polls:
  assumes "pl_wait (pc_poller hist_calls) sim_linux w = (Inr evs, sim_linux, w')"
  shows "srv_step hist_calls (hist_server\<lparr>srv_threads := ts\<rparr>, [], w) (hist_server\<lparr>srv_threads := ts\<rparr>, evs, w')"
proof -
  let ?s = "hist_server\<lparr>srv_threads := ts\<rparr>"
  have "srv_running ?s" "srv_poller ?s = sim_linux" "?s\<lparr>srv_poller := sim_linux\<rparr> = ?s"
    by (simp_all add: hist_server_def sim_server_def)
  with assms poll [of ?s hist_calls w evs sim_linux w'] show ?thesis by simp
qed

lemma hist_worker:
  "srv_step hist_calls (hist_server\<lparr>srv_threads := hist_threads b [0] AtTest\<rparr>, es, w)
     (hist_server\<lparr>srv_threads := hist_threads b [0] AtWait\<rparr>, es, w)"
  "srv_step hist_calls (hist_server\<lparr>srv_threads := hist_threads '''' [0] AtWait\<rparr>, es, hist_world [] {0})
     (hist_server\<lparr>srv_threads := hist_threads ''x'' [] AtTest\<rparr>, es, hist_end)"
proof -
  let ?t = "\<lambda>b q pos. \<lparr> tm_sessions = [0 \<mapsto> hist_session b], tm_queue = q, stop_requested = False,
     worker = pos, finished = False \<rparr>"
  have th: "srv_threads (hist_server\<lparr>srv_threads := hist_threads b q pos\<rparr>) = [Multi (?t b q pos), Multi ThreadMulti_new]" for b q pos
    by (simp add: hist_threads_def)
  show "srv_step hist_calls (hist_server\<lparr>srv_threads := hist_threads b [0] AtTest\<rparr>, es, w)
     (hist_server\<lparr>srv_threads := hist_threads b [0] AtWait\<rparr>, es, w)"
    using worker_test [where pc = hist_calls and i = 0 and s = "hist_server\<lparr>srv_threads := hist_threads b [0] AtTest\<rparr>"
        and t = "?t b [0] AtTest" and es = es and w = w]
    by (simp add: th ThreadMulti_test_def) (simp add: hist_threads_def)
  have "ThreadMulti_wake (pc_vt hist_calls) (?t '''' [0] AtWait) (hist_world [] {0}) = (Inr (), ?t ''x'' [] AtTest, hist_end)"
    using hist_iteration by (simp add: ThreadMulti_wake_def sessions_iterate_def linux_calls_def)
  from worker_wake [where pc = hist_calls and i = 0 and s = "hist_server\<lparr>srv_threads := hist_threads '''' [0] AtWait\<rparr>", OF _ _ _ this]
  show "srv_step hist_calls (hist_server\<lparr>srv_threads := hist_threads '''' [0] AtWait\<rparr>, es, hist_world [] {0})
     (hist_server\<lparr>srv_threads := hist_threads ''x'' [] AtTest\<rparr>, es, hist_end)"
    by (simp add: th) (simp add: hist_threads_def)
qed

lemma hist_reach:
  "srv_reach hist_calls (hist_server, hist_world [[(1, 3)], [(1, 0)]] {})
     (hist_server\<lparr>srv_threads := hist_threads ''x'' [] AtTest\<rparr>, [], hist_end)"
  (is "srv_reach _ ?init _")
proof -
  let ?S = "\<lambda>b q pos. hist_server\<lparr>srv_threads := hist_threads b q pos\<rparr>"
  have s: "hist_server\<lparr>srv_threads := ThreadManager_new (Threads 2)\<rparr> = hist_server" by (simp add: hist_server_def)
  have "srv_reach hist_calls ?init (hist_server, [], hist_world [[(1, 3)], [(1, 0)]] {})"
    using reach_init [of hist_calls ?init] by simp
  then have "srv_reach hist_calls ?init (hist_server, [mk_Event NewClient 3], hist_world [[(1, 0)]] {})"
    by (rule reach_step) (rule hist_polls [OF hist_poll_new, of "ThreadManager_new (Threads 2)", unfolded s])
  then have "srv_reach hist_calls ?init (?S '''' [] AtTest, [], hist_world [[(1, 0)]] {0})"
    by (rule reach_step) (rule handle, simp add: Server_event_def hist_new_client)
  then have "srv_reach hist_calls ?init (?S '''' [] AtTest, [mk_Event ClientDataReady 0], hist_world [] {0})"
    by (rule reach_step) (rule hist_polls [OF hist_poll_data])
  then have "srv_reach hist_calls ?init (?S '''' [0] AtTest, [], hist_world [] {0})"
    by (rule reach_step) (rule handle [OF hist_data])
  then have "srv_reach hist_calls ?init (?S '''' [0] AtWait, [], hist_world [] {0})"
    by (rule reach_step) (rule hist_worker(1))
  then show ?thesis by (rule reach_step) (rule hist_worker(2))
qed


text \<open>The same on kqueue and on WSAPoll.\<close>

lemma Server_answers_clients_kqueue:
  assumes "fd_streams os nt rcvd" and "kqueue_keeps kq (\<lambda>w. (os_open os w, rcvd w, os_sent os w))"
    and "srv_class s = TCPServer" and "protocol_ok (srv_protocol s)"
    and "srv_threads s = ThreadManager_new n" and "manager_ok (srv_threads s)"
    and "srv_reach (bsd_calls os sl nt kq) (s, w) (s', es, w')"
    and "manager_lookup thread_sessions (srv_threads s') fd = Some x"
  shows "session_feeds (srv_protocol s (TCPConnection fd)) (rcvd w' fd) = Some (os_sent os w' fd, x)"
  by (rule tcp_clients_answered [OF assms(1) bsd_poller_keeps [OF assms(2)] assms(3-6)
        assms(7) [unfolded bsd_calls_def] assms(8)])

lemma Server_answers_clients_win32:
  assumes "fd_streams os nt rcvd" and "wsapoll_keeps wsa (\<lambda>w. (os_open os w, rcvd w, os_sent os w))"
    and "srv_class s = TCPServer" and "protocol_ok (srv_protocol s)"
    and "srv_threads s = ThreadManager_new n" and "manager_ok (srv_threads s)"
    and "srv_reach (win32_calls os sl nt wsa) (s, w) (s', es, w')"
    and "manager_lookup thread_sessions (srv_threads s') fd = Some x"
  shows "session_feeds (srv_protocol s (TCPConnection fd)) (rcvd w' fd) = Some (os_sent os w' fd, x)"
  by (rule tcp_clients_answered [OF assms(1) win32_poller_keeps [OF assms(2)] assms(3-6)
        assms(7) [unfolded win32_calls_def] assms(8)])



text \<open>
  C14. The same for a TLS server: each stored session is what the pieces decrypted on its TLS object
  make of a new session, and what was given to that object for transmission is the answer to
  them, as long as this text has less than $2^{31}$ bytes, the most that the conversion of its size to
  \<^verbatim>\<open>int\<close> lets through in one call.
\<close>

theorem Server_answers_tls_clients:
  assumes "ssl_streams os sl nt rcvd bound" and "epoll_keeps ep (\<lambda>w. (bound w, rcvd w, ssl_sent sl w))"
    and "srv_class s = SSLServer ctx" and "protocol_ok (srv_protocol s)"
    and "srv_threads s = ThreadManager_new n" and "manager_ok (srv_threads s)"
    and "srv_reach (linux_calls os sl nt ep) (s, w) (s', es, w')"
    and "manager_lookup thread_sessions (srv_threads s') fd = Some x"
  shows "\<exists>ssl. session_connection x = SSLConnection fd ssl \<and> bound w' ssl = Some fd \<and>
    (length (ssl_sent sl w' ssl) < 2 ^ 31 \<longrightarrow>
       session_feeds (srv_protocol s (SSLConnection fd ssl)) (rcvd w' ssl) = Some (ssl_sent sl w' ssl, x))"
  by (rule tls_clients_answered [OF assms(1) linux_poller_keeps [OF assms(2)] assms(3-6)
        assms(7) [unfolded linux_calls_def] assms(8)])

text \<open>A world with TLS objects: numbers, with the descriptor each was given and its two streams.\<close>

record sim_tls = sim_net +
  tls_log :: "SSL \<Rightarrow> string list"
  tls_out :: "SSL \<Rightarrow> string"
  tls_bound :: "(SSL \<times> SOCKET) list"

definition tls_ssl :: "sim_tls openssl" where
  "tls_ssl = \<lparr>
     ssl_new = (\<lambda>ctx w. let n = Suc (sum_list (map fst (tls_bound w))) in
       (n, w\<lparr>tls_log := (tls_log w)(n := []), tls_out := (tls_out w)(n := '''')\<rparr>)),
     ssl_set_fd = (\<lambda>ssl fd w. (1, w\<lparr>tls_bound := (ssl, fd) # tls_bound w\<rparr>)),
     ssl_accept = (\<lambda>ssl w. (1, w)), ssl_print_errors = (\<lambda>w. (None, w)),
     ssl_read = (\<lambda>ssl n w. case sim_recv 0 (nat n) w of (rb, w') \<Rightarrow>
       (rb, w'\<lparr>tls_log := (tls_log w')(ssl := tls_log w' ssl @ [snd rb])\<rparr>)),
     ssl_write = (\<lambda>ssl d n w. (max 0 n, w\<lparr>tls_out := (tls_out w)(ssl := tls_out w ssl @ take (nat (max 0 n)) d)\<rparr>)),
     ssl_shutdown = (\<lambda>ssl w. (1, w)),
     ssl_free = (\<lambda>ssl w. w\<lparr>tls_bound := filter (\<lambda>(s, fd). s \<noteq> ssl) (tls_bound w)\<rparr>),
     ssl_sent = tls_out \<rparr>"

lemma sum_list_fresh: "Suc (sum_list (map fst xs)) \<notin> fst ` set (xs :: (nat \<times> 'b) list)"
proof
  assume "Suc (sum_list (map fst xs)) \<in> fst ` set xs"
  then have "Suc (sum_list (map fst xs)) \<in> set (map fst xs)" by simp
  from member_le_sum_list [OF this] show False by simp
qed

lemma tls_new_unbound: "map_of (tls_bound w) (Suc (sum_list (map fst (tls_bound w)))) = None"
  using sum_list_fresh by (metis map_of_eq_None_iff)

lemma tls_free_bound: "map_of (filter (\<lambda>(s, fd). s \<noteq> ssl) xs) = (map_of xs)(ssl := None)"
  by (induction xs) auto

lemma tls_ssl_streams: "ssl_streams sim_os tls_ssl sim_nt tls_log (\<lambda>w. map_of (tls_bound w))"
proof -
  have "ssl_read_contract tls_ssl" "ssl_write_contract tls_ssl"
    by (auto simp: ssl_read_contract_def ssl_write_contract_def tls_ssl_def sim_recv_def split: list.splits prod.splits)
  then show ?thesis
    by (auto simp: ssl_streams_def tls_ssl_def sim_recv_def sim_os_def sim_nt_def sim_new_fd_def keeps_def Let_def
        tls_new_unbound tls_free_bound split: list.splits prod.splits)
qed

lemma tls_epoll_keeps: "epoll_keeps sim_epoll (\<lambda>w :: sim_tls. (map_of (tls_bound w), tls_log w, ssl_sent tls_ssl w))"
  by (auto simp: epoll_keeps_def keeps_def sim_epoll_def tls_ssl_def Let_def split: list.splits)

definition tls_server :: "linux_poller server" where
  "tls_server = sim_server\<lparr>srv_class := SSLServer 1, srv_protocol := LoadTestProtocol_create_session\<rparr>"

definition tls_world :: "(32 word \<times> SOCKET) list list \<Rightarrow> SOCKET set \<Rightarrow> sim_tls" where
  "tls_world evs cl = sim_net.extend (sim_srv_world\<lparr>sim_events := evs, sim_open := {3, 5} \<union> cl,
     sim_interest := (\<lambda>q. if q = 5 then insert 3 cl else {}), sim_recvs := [''ab'' @ lf @ ''x'']\<rparr>)
     (sim_tls.fields (\<lambda>_. []) (\<lambda>_. '''') (if cl = {} then [] else [(1, 0)]))"

abbreviation tls_calls :: "(linux_poller, sim_tls) platform_calls" where
  "tls_calls \<equiv> linux_calls sim_os tls_ssl sim_nt sim_epoll"

definition tls_session :: "string \<Rightarrow> session" where
  "tls_session b = LineSession (SSLConnection 0 1) (\<lambda>d. d) ((LineSession_new True lf)\<lparr>buffer := b\<rparr>)"

definition tls_threads :: "string \<Rightarrow> session thread list" where
  "tls_threads b = [Single \<lparr> ts_sessions = [0 \<mapsto> tls_session b] \<rparr>]"

lemmas tls_eval = linux_calls_def LinuxPoller_def const_state_def LinuxPoller_wait_def linux_event_def io_bind_call
  tls_world_def tls_server_def sim_server_def sim_linux_def sim_srv_world_def sim_net_eval EVENT_BUFFER_SZ_def
  sim_net.defs sim_tls.defs tls_ssl_def

lemma tls_polls:
  "pl_wait (pc_poller tls_calls) sim_linux (tls_world [[(1, 3)], [(1, 0)]] {}) =
     (Inr [mk_Event NewClient 3], sim_linux, tls_world [[(1, 0)]] {})"
  "pl_wait (pc_poller tls_calls) sim_linux (tls_world [[(1, 0)]] {0}) =
     (Inr [mk_Event ClientDataReady 0], sim_linux, tls_world [] {0})"
  by (simp_all add: tls_eval EPOLLIN_def EPOLLET_def EPOLLERR_def EPOLLHUP_def EPOLLRDHUP_def)

lemma tls_new_client:
  "Server_new_client tls_calls tls_server (tls_world evs {}) =
     (Inr (), tls_server\<lparr>srv_threads := tls_threads ''''\<rparr>, tls_world evs {0})"
proof -
  let ?w = "(tls_world evs {})\<lparr>sim_open := {0, 3, 5}\<rparr>" and ?w' = "(tls_world evs {0})\<lparr>sim_interest := sim_interest (tls_world evs {})\<rparr>"
  have s: "srv_fd tls_server = 3" "srv_class tls_server = SSLServer 1" "srv_poller tls_server = sim_linux"
    "srv_protocol tls_server = LoadTestProtocol_create_session" "srv_threads tls_server = [Single ThreadSingle_new]"
    by (simp_all add: tls_server_def sim_server_def)
  have acc: "TCPServer_accept sim_os sim_nt 3 (tls_world evs {}) = (Inr 0, ?w)"
    by (simp add: TCPServer_accept_def socket_mark_as_nonblocking_def sim_new_fd_def upt_conv_Cons INVALID_SOCKET_def log_quiet
        init_logger_def tls_eval)
  have con: "SSLConnection_new sim_os tls_ssl 0 1 ?w = (Inr (SSLConnection 0 1), ?w')"
    by (simp add: SSLConnection_new_def tls_eval Let_def fun_eq_iff insert_commute)
  have add: "ThreadManager_add_session (Session_vtable sim_os tls_ssl)
      (LoadTestProtocol_create_session (SSLConnection 0 1)) [Single ThreadSingle_new] ?w' =
      (Inr (), tls_threads '''', ?w')"
    by (simp add: ThreadManager_add_session_def at_thread_def thread_index_def ThreadSingle_add_session_def
        LoadTestProtocol_create_session_def session_fd_def drop_session_def tls_threads_def tls_session_def
        ThreadSingle_new_def LineSession_new_def)
  have pl: "pl_add_client (LinuxPoller sim_os sim_epoll) 0 sim_linux ?w' = (Inr (), sim_linux, tls_world evs {0})"
    by (simp add: LinuxPoller_add_client_def tls_eval fun_eq_iff insert_commute)
  show ?thesis
    by (simp add: Server_new_client_def s linux_calls_def acc con add pl del: One_nat_def)
qed

definition tls_end :: sim_tls where
  "tls_end = (tls_world [] {0})\<lparr>sim_recvs := [], tls_out := (\<lambda>_. '''')(1 := ''ab'' @ lf),
     tls_log := (\<lambda>_. [])(1 := [''ab'' @ lf @ ''x''])\<rparr>"

lemma tls_iteration:
  "session_iteration sim_os tls_ssl (tls_session '''') (tls_world [] {0}) = (Inr (), tls_session ''x'', tls_end)"
proof -
  let ?w = "(tls_world [] {0})\<lparr>sim_recvs := [], tls_log := (\<lambda>_. [])(1 := [''ab'' @ lf @ ''x''])\<rparr>"
  have "ssl_read tls_ssl 1 (c_int RECV_BUF_SZ) (tls_world [] {0}) = ((4, ''ab'' @ lf @ ''x''), ?w)"
    by (simp add: tls_eval c_int_buf lf_def) (simp add: RECV_BUF_SZ_def)
  then have recv: "SSLConnection_recv sim_os tls_ssl 1 (tls_world [] {0}) = (Inr (''ab'' @ lf @ ''x''), ?w)"
    by (simp add: SSLConnection_recv_eq recv_result_data RECV_BUF_SZ_def str_resize_def overwrite_def lf_def)
  have "c_int (length (''ab'' @ lf)) = 3" using c_int_small [of "length (''ab'' @ lf)"] by (simp add: lf_def)
  then have "send_loop (ssl_write tls_ssl 1 (''ab'' @ lf) (c_int (length (''ab'' @ lf)))) (send_error sim_os) (length (''ab'' @ lf)) 0 ?w
      = Some (Inr (), tls_end)"
    by (subst send_loop_round [where r = 3 and w' = tls_end])
      (simp_all add: tls_eval tls_end_def send_loop_done lf_def)
  then have send: "SSLConnection_send sim_os tls_ssl 1 (''ab'' @ lf) ?w = (Inr (), tls_end)"
    by (simp only: SSLConnection_send_def io_loop_Some)
  show ?thesis using recv send hist_feed by (simp add: tls_session_def LineSession_iteration_def)
qed

lemma tls_data:
  "Server_event tls_calls (mk_Event ClientDataReady 0) (tls_server\<lparr>srv_threads := tls_threads ''''\<rparr>) (tls_world [] {0}) =
     (Inr (), tls_server\<lparr>srv_threads := tls_threads ''x''\<rparr>, tls_end)"
  using tls_iteration
  by (simp add: Server_event_def ThreadManager_data_available_def at_thread_def thread_index_def tls_threads_def
      ThreadSingle_data_available_def sessions_iterate_def linux_calls_def)

lemma tls_poll_step:
  assumes "pl_wait (pc_poller tls_calls) sim_linux w = (Inr evs, sim_linux, w')"
  shows "srv_step tls_calls (tls_server\<lparr>srv_threads := ts\<rparr>, [], w) (tls_server\<lparr>srv_threads := ts\<rparr>, evs, w')"
proof -
  let ?s = "tls_server\<lparr>srv_threads := ts\<rparr>"
  have "srv_running ?s" "srv_poller ?s = sim_linux" "?s\<lparr>srv_poller := sim_linux\<rparr> = ?s"
    by (simp_all add: tls_server_def sim_server_def)
  with assms poll [of ?s tls_calls w evs sim_linux w'] show ?thesis by simp
qed

lemma tls_reach:
  "srv_reach tls_calls (tls_server, tls_world [[(1, 3)], [(1, 0)]] {}) (tls_server\<lparr>srv_threads := tls_threads ''x''\<rparr>, [], tls_end)"
  (is "srv_reach _ ?init _")
proof -
  have s: "tls_server\<lparr>srv_threads := [Single ThreadSingle_new]\<rparr> = tls_server" by (simp add: tls_server_def sim_server_def)
  have "srv_reach tls_calls ?init (tls_server, [], tls_world [[(1, 3)], [(1, 0)]] {})"
    using reach_init [of tls_calls ?init] by simp
  then have "srv_reach tls_calls ?init (tls_server, [mk_Event NewClient 3], tls_world [[(1, 0)]] {})"
    by (rule reach_step) (rule tls_poll_step [OF tls_polls(1), of "[Single ThreadSingle_new]", unfolded s])
  then have "srv_reach tls_calls ?init (tls_server\<lparr>srv_threads := tls_threads ''''\<rparr>, [], tls_world [[(1, 0)]] {0})"
    by (rule reach_step) (rule handle, simp add: Server_event_def tls_new_client)
  then have "srv_reach tls_calls ?init (tls_server\<lparr>srv_threads := tls_threads ''''\<rparr>, [mk_Event ClientDataReady 0], tls_world [] {0})"
    by (rule reach_step) (rule tls_poll_step [OF tls_polls(2)])
  then show ?thesis by (rule reach_step) (rule handle [OF tls_data])
qed

theorem Server_answers_tls_clients_witness:
  "session_feeds (LoadTestProtocol_create_session (SSLConnection 0 1)) [''ab'' @ lf @ ''x''] = Some (''ab'' @ lf, tls_session ''x'')"
proof -
  have "protocol_ok LoadTestProtocol_create_session" by (simp add: protocol_ok_def LoadTestProtocol_create_session_def)
  then have "\<exists>ssl. session_connection (tls_session ''x'') = SSLConnection 0 ssl \<and> map_of (tls_bound tls_end) ssl = Some 0 \<and>
      (length (ssl_sent tls_ssl tls_end ssl) < 2 ^ 31 \<longrightarrow>
        session_feeds (srv_protocol tls_server (SSLConnection 0 ssl)) (tls_log tls_end ssl) = Some (ssl_sent tls_ssl tls_end ssl, tls_session ''x''))"
    by (intro Server_answers_tls_clients [OF tls_ssl_streams tls_epoll_keeps _ _ _ _ tls_reach, where n = Threads_Single and ctx = 1])
      (simp_all add: tls_server_def sim_server_def manager_ok_def manager_lookup_def tls_threads_def thread_index_def)
  moreover have "ssl_sent tls_ssl tls_end 1 = ''ab'' @ lf" "tls_log tls_end 1 = [''ab'' @ lf @ ''x'']"
    by (simp_all add: tls_ssl_def tls_end_def)
  ultimately show ?thesis by (simp add: tls_session_def tls_server_def lf_def)
qed

end
