(* ===== verification/Lifetime.thy ===== *)
theory Lifetime
  imports Server
begin

text \<open>
  The descriptors of a server from its constructor to its destructor (\<^verbatim>\<open>server/server.hh\<close>,
  \<^verbatim>\<open>server/tcp/tcpserver.hh\<close>, \<^verbatim>\<open>server/ssl/sslserver.cc\<close>): what is open besides those that were open
  before is the listening socket, the poller's own descriptor and one descriptor for each session,
  and the destructor closes all of them. The argument is made once in the locale \<open>server_life\<close>, which
  is interpreted for the pollers of Linux and of the BSDs, and serves both kinds of servers.
\<close>

subsection \<open>The descriptors of the sessions\<close>

lemma manager_dom_threads:
  assumes "manager_inv vt sess ts"
  shows "(\<Union>t \<in> set ts. dom (sess t)) = dom (manager_lookup sess ts)"
proof (rule set_eqI)
  fix fd
  from assms have ok: "manager_ok ts" and r: "routed sess ts" by (simp_all add: manager_inv_def)
  obtain j where j: "j < length ts" "thread_index fd (length ts) = Inr j"
    using thread_index_bound [of "length ts" fd] ok by (auto simp: manager_ok_def)
  have "fd \<in> dom (sess t) \<longleftrightarrow> fd \<in> dom (sess t) \<and> t = ts ! j" if "t \<in> set ts" for t
  proof -
    from that obtain i where i: "i < length ts" "t = ts ! i" by (auto simp: in_set_conv_nth)
    have "i = j" if "fd \<in> dom (sess t)" using r [unfolded routed_def, rule_format, OF i(1)] that i(2) j(2) by auto
    with i show ?thesis by auto
  qed
  then have "fd \<in> (\<Union>t \<in> set ts. dom (sess t)) \<longleftrightarrow> fd \<in> dom (sess (ts ! j))" using j(1) by auto
  then show "fd \<in> (\<Union>t \<in> set ts. dom (sess t)) \<longleftrightarrow> fd \<in> dom (manager_lookup sess ts)"
    by (simp add: manager_lookup_def j dom_def)
qed

lemma manager_ok_inv:
  assumes "manager_ok (ThreadManager_new n :: 's thread list)"
  shows "manager_inv vt thread_sessions (ThreadManager_new n :: 's thread list)"
  using assms by (cases n) (auto simp: manager_inv_def routed_def ThreadMulti_new_def ThreadSingle_new_def)

text \<open>The order in which each map destroys its sessions: any enumeration of its keys.\<close>

definition orders_ok :: "SOCKET list list \<Rightarrow> 's thread list \<Rightarrow> bool" where
  "orders_ok orders ts \<longleftrightarrow> list_all2 (\<lambda>order t. set order = dom (thread_sessions t)) orders ts"

lemma thread_destroy_open:
  assumes "fd_table_contract os" and "ssl_fd_contract os sl"
    and "keys_ok (Session_vtable os sl) (thread_sessions t)" and "set order = dom (thread_sessions t)"
    and "thread_destroy (Session_vtable os sl) order t w = (Inr (), w')"
  shows "os_open os w' = os_open os w - dom (thread_sessions t)"
proof (cases t)
  case (Single u)
  with assms show ?thesis using destroy_sessions_open [OF assms(1,2)] by auto
next
  case (Multi u)
  with assms show ?thesis using ThreadMulti_destroy_closes [OF assms(1,2)] by auto
qed

lemma threads_destroy_open:
  assumes "fd_table_contract os" and "ssl_fd_contract os sl"
    and "\<And>t. t \<in> set ts \<Longrightarrow> keys_ok (Session_vtable os sl) (thread_sessions t)" and "orders_ok orders ts"
    and "threads_destroy (Session_vtable os sl) (zip orders ts) w = (Inr (), w')"
  shows "os_open os w' = os_open os w - (\<Union>t \<in> set ts. dom (thread_sessions t))"
  using assms(4,3,5) unfolding orders_ok_def
proof (induction arbitrary: w rule: list_all2_induct)
  case Nil
  then show ?case by simp
next
  case (Cons order orders t ts)
  obtain r w1 where td: "thread_destroy (Session_vtable os sl) order t w = (r, w1)" by fastforce
  with Cons.prems(2) have "r = Inr ()" and rest: "threads_destroy (Session_vtable os sl) (zip orders ts) w1 = (Inr (), w')"
    by (auto split: sum.splits)
  with thread_destroy_open [OF assms(1,2) _ Cons.hyps(1)] Cons.prems(1) td
  have "os_open os w1 = os_open os w - dom (thread_sessions t)" by simp
  with Cons.IH [OF _ rest] Cons.prems(1) show ?case by auto
qed

text \<open>Destruction cannot fail without workers, nor for a worker that has not yet started to wait.\<close>

definition quiet_thread :: "'s thread \<Rightarrow> bool" where
  "quiet_thread t \<longleftrightarrow> (case t of Single u \<Rightarrow> True | Multi u \<Rightarrow> worker u \<noteq> AtWait)"

lemma threads_destroy_quiet:
  assumes "\<forall>t \<in> set ts. quiet_thread t"
  shows "fst (threads_destroy vt (zip orders ts) w) = Inr ()"
  using assms
proof (induction ts arbitrary: orders w)
  case (Cons t ts)
  have td: "fst (thread_destroy vt order t w) = Inr ()" for order w
    using Cons.prems by (cases t)
      (auto simp: quiet_thread_def ThreadMulti_destroy_def ThreadMulti_join_def ThreadMulti_request_stop_def split: worker_position.splits)
  have "threads_destroy vt ((order, t) # zs) w = threads_destroy vt zs (snd (thread_destroy vt order t w))" for order zs w
    using td [of order w] by (cases "thread_destroy vt order t w") simp
  with Cons show ?case by (cases orders) simp_all
qed simp

lemma Server_destroy_quiet:
  assumes "\<forall>t \<in> set (srv_threads s). quiet_thread t"
  shows "Server_destroy pc orders s w = (Inr (), snd (Server_destroy pc orders s w))"
proof -
  obtain r w' where td: "threads_destroy (pc_vt pc) (zip orders (srv_threads s)) (close_socket (pc_os pc) (srv_fd s) w) = (r, w')"
    by fastforce
  with threads_destroy_quiet [OF assms] have "r = Inr ()" by (metis fst_conv)
  then show ?thesis by (simp add: Server_destroy_def td)
qed

lemma new_threads_quiet: "t \<in> set (ThreadManager_new n) \<Longrightarrow> quiet_thread t"
  by (cases n) (auto simp: quiet_thread_def ThreadMulti_new_def)

text \<open>A server with a single thread keeps it.\<close>

lemma at_thread_single:
  assumes "at_thread fd f [Single u] w = (r, ts, w')"
    and "\<And>u w r t' w'. f (Single u) w = (r, t', w') \<Longrightarrow> \<exists>u'. t' = Single u'"
  shows "\<exists>u'. ts = [Single u']"
  using assms by (auto simp: at_thread_def split: sum.splits if_splits prod.splits)

lemma manager_single:
  "ThreadManager_add_session vt x [Single u] w = (r, ts, w') \<Longrightarrow> \<exists>u'. ts = [Single u']"
  "ThreadManager_remove_session vt fd [Single u] w = (r, ts, w') \<Longrightarrow> \<exists>u'. ts = [Single u']"
  "ThreadManager_data_available vt fd [Single u] w = (r, ts, w') \<Longrightarrow> \<exists>u'. ts = [Single u']"
  unfolding ThreadManager_add_session_def ThreadManager_remove_session_def ThreadManager_data_available_def
  by (erule at_thread_single, auto simp: map_prod_def split: prod.splits)+

lemma step_single:
  assumes "srv_step pc x y" and "case x of (s, es, w) \<Rightarrow> \<exists>u. srv_threads s = [Single u]"
  shows "case y of (s, es, w) \<Rightarrow> \<exists>u. srv_threads s = [Single u]"
  using assms
proof (cases rule: srv_step.cases)
  case (handle e s w s' w' es)
  with assms(2) obtain u where u: "srv_threads s = [Single u]" by auto
  from handle(3) have "\<exists>u'. srv_threads s' = [Single u']"
    by (cases "ev_type e") (auto simp: Server_event_def Server_new_client_def u
        split: prod.splits sum.splits dest: manager_single)
  then show ?thesis by (simp add: handle)
qed (auto simp: Server_stop_def nth_Cons split: nat.splits)

lemma reach_single:
  assumes "srv_reach pc (s, w) y" and "srv_threads s = [Single u]"
  shows "case y of (s', es, w') \<Rightarrow> \<exists>u'. srv_threads s' = [Single u']"
  using assms(1)
proof induction
  case reach_init
  with assms(2) show ?case by simp
next
  case (reach_step x y)
  from step_single [OF reach_step.hyps(2) reach_step.IH] show ?case .
qed

subsection \<open>From the constructor to the destructor\<close>

locale server_life = server_env pc server ok clients contract
  for pc :: "('p, 'w) platform_calls" and server :: "'p \<Rightarrow> SOCKET" and ok :: "'p \<Rightarrow> bool"
    and clients :: "'p \<Rightarrow> 'w \<Rightarrow> SOCKET set" and contract :: bool +
  fixes new_poller :: "SOCKET \<Rightarrow> ('p, 'w) io" and own :: "'p \<Rightarrow> SOCKET" and creates :: bool
  assumes new_poller: "contract \<Longrightarrow> creates \<Longrightarrow> new_poller fd w = (Inr p, w') \<Longrightarrow>
      ok p \<and> server p = fd \<and> clients p w' = {} \<and> own p \<notin> os_open (pc_os pc) w \<and>
      os_open (pc_os pc) w' = insert (own p) (os_open (pc_os pc) w)"
    and destroy_open: "contract \<Longrightarrow> os_open (pc_os pc) (pl_destroy (pc_poller pc) p w) = os_open (pc_os pc) w - {own p}"
    and wait_own: "pl_wait (pc_poller pc) p w = (r, p', w') \<Longrightarrow> own p' = own p"
    and add_own: "pl_add_client (pc_poller pc) fd p w = (q, p', w') \<Longrightarrow> own p' = own p"
begin

abbreviation open_fds :: "'w \<Rightarrow> SOCKET set" where "open_fds \<equiv> os_open (pc_os pc)"

abbreviation with_session :: "'p server \<Rightarrow> SOCKET set" where
  "with_session s \<equiv> dom (manager_lookup thread_sessions (srv_threads s))"

text \<open>The descriptors that belong to no session, and those the server owns.\<close>

abbreviation base :: "'p server \<Rightarrow> 'w \<Rightarrow> SOCKET set \<times> SOCKET \<times> SOCKET" where
  "base s w \<equiv> (open_fds w - with_session s, srv_fd s, own (srv_poller s))"

text \<open>A new server satisfies the invariant and owns two descriptors that were not open before.\<close>

lemma new_law:
  assumes c: contract creates and pr: "protocol_ok protocol" and ts: "manager_ok (ThreadManager_new n :: session thread list)"
    and run: "TCPServer_new pc new_poller port otw protocol n w = (Inr s, w')"
  shows "inv {} s w' \<and> with_session s = {} \<and> srv_fd s \<notin> open_fds w \<and> own (srv_poller s) \<notin> insert (srv_fd s) (open_fds w) \<and>
    open_fds w' = insert (own (srv_poller s)) (insert (srv_fd s) (open_fds w)) \<and> srv_threads s = ThreadManager_new n"
proof -
  obtain fd w1 p where cl: "create_listener (pc_os pc) (pc_net pc) port otw w = (Inr fd, w1)"
    and np: "new_poller fd w1 = (Inr p, w')"
    and s: "s = \<lparr> srv_class = TCPServer, srv_fd = fd, srv_poller = p, srv_protocol = protocol,
      srv_threads = ThreadManager_new n, srv_running = True \<rparr>"
    using run by (auto simp: TCPServer_new_def Server_new_def io_bind_eq_Inr)
  note L = create_listener_open [OF fd_table [OF c(1)] net [OF c(1)] cl, simplified]
  note P = new_poller [OF c np]
  have e: "manager_lookup thread_sessions (ThreadManager_new n :: session thread list) = Map.empty"
    using manager_lookup_new [OF ts] by (simp add: fun_eq_iff)
  have "manager_inv (pc_vt pc) thread_sessions (ThreadManager_new n :: session thread list)"
    by (rule manager_ok_inv [OF ts])
  then show ?thesis using L P pr e by (auto simp: server_inv_def s)
qed

text \<open>No step changes the base.\<close>

lemma event_base:
  assumes c: contract and I: "inv D s w" and run: "Server_event pc e s w = (Inr (), s', w')"
    and d: "ev_type e = ClientDisconnected \<Longrightarrow> ev_fd e \<in> D"
  shows "base s' w' = base s w"
proof (cases "ev_type e")
  case NewClient
  with run have new: "Server_new_client pc s w = (Inr (), s', w')" by (simp add: Server_event_def)
  obtain fd cn ts p where "s' = s\<lparr>srv_threads := ts, srv_poller := p\<rparr>" "fd \<notin> open_fds w"
    "manager_lookup thread_sessions ts = (manager_lookup thread_sessions (srv_threads s))(fd \<mapsto> srv_protocol s cn)"
    "open_fds w' = insert fd (open_fds w)"
    using new_client_law [OF c I new] by blast
  moreover have "own (srv_poller s') = own (srv_poller s)" using new
    by (auto simp: Server_new_client_def split: prod.splits sum.splits dest!: add_own)
  ultimately show ?thesis by auto
next
  case ClientDataReady
  then obtain ts where da: "ThreadManager_data_available (pc_vt pc) (ev_fd e) (srv_threads s) w = (Inr (), ts, w')"
    and s': "s' = s\<lparr>srv_threads := ts\<rparr>" using run by (auto simp: Server_event_def split: prod.splits)
  have "manager_ok (srv_threads s)" using server_invD(4) [OF I] by (simp add: manager_inv_def)
  note M = sess.dyn.manager_data [OF this da [unfolded ThreadManager_data_available_def]]
  have "open_fds w' = open_fds w"
    using manager_data_keeps [OF calls_keep_open [OF fd_table [OF c] ssl_fd [OF c]] da] .
  with M(2) show ?thesis by (simp add: s')
next
  case ClientDisconnected
  then obtain ts where rm: "ThreadManager_remove_session (pc_vt pc) (ev_fd e) (srv_threads s) w = (Inr (), ts, w')"
    and s': "s' = s\<lparr>srv_threads := ts\<rparr>" using run by (auto simp: Server_event_def split: prod.splits)
  from d ClientDisconnected have fd: "ev_fd e \<in> D" by simp
  note R = disconnected_inv [OF c I fd rm]
  have "manager_ok (srv_threads s)" using server_invD(4) [OF I] by (simp add: manager_inv_def)
  note M = sess.dyn.manager_remove [OF this rm [unfolded ThreadManager_remove_session_def]]
  have "with_session (s\<lparr>srv_threads := ts\<rparr>) = with_session s - {ev_fd e}" by (simp add: M(3))
  moreover have "ev_fd e \<in> with_session s" using server_invD(5) [OF I] fd by blast
  ultimately show ?thesis using R unfolding s' by auto
qed

lemma step_base:
  assumes c: contract and step: "srv_step pc x y" and I: "case x of (s, es, w) \<Rightarrow> inv (disconnected es) s w"
  shows "(case y of (s, es, w) \<Rightarrow> base s w) = (case x of (s, es, w) \<Rightarrow> base s w)"
  using step
proof (cases rule: srv_step.cases)
  case (poll s w evs p w')
  then show ?thesis using wait_open [OF c poll(4)] wait_own [OF poll(4)] by simp
next
  case (handle e s w s' w' es)
  with I have J: "inv (disconnected (e # es)) s w" by simp
  have "ev_type e = ClientDisconnected \<Longrightarrow> ev_fd e \<in> disconnected (e # es)" by (auto simp: disconnected_def)
  from event_base [OF c J handle(3) this] handle show ?thesis by simp
next
  case (worker_test i s t es w)
  with I have J: "inv (disconnected es) s w" by simp
  from manager_same_dom [OF server_invD(4) [OF J], of i "Multi (ThreadMulti_test t)"]
    thread_keys [OF J, of i "Multi t"] worker_test show ?thesis by simp
next
  case (worker_wake i s t w t' w' es)
  with I have J: "inv (disconnected es) s w" by simp
  note fr = ThreadMulti_wake_frame [OF fd_table [OF c] ssl_fd [OF c] worker_wake(6)]
  with manager_same_dom [OF server_invD(4) [OF J], of i "Multi t'"]
    thread_keys [OF J, of i "Multi t"] worker_wake show ?thesis by simp
next
  case (stop s es w)
  then show ?thesis by (simp add: Server_stop_def)
qed

lemma reach_base:
  assumes c: contract and I: "inv {} s w" and reach: "srv_reach pc (s, w) y"
  shows "(case y of (s', es, w') \<Rightarrow> base s' w') = base s w"
  using reach
proof induction
  case (reach_step x y)
  have "case x of (s, es, w) \<Rightarrow> inv (disconnected es) s w"
    using reach_inv [OF c I reach_step.hyps(1)] by (simp split: prod.splits)
  from step_base [OF c reach_step.hyps(2) this] reach_step.IH show ?case by simp
qed simp

text \<open>The destructor closes the sessions' descriptors, the listening socket and the poller's own.\<close>

lemma destroy_law:
  assumes c: contract and I: "inv D s w" and o: "orders_ok orders (srv_threads s)"
    and run: "Server_destroy pc orders s w = (Inr (), w')"
  shows "open_fds w' = open_fds w - with_session s - {srv_fd s} - {own (srv_poller s)}"
proof -
  obtain w1 where td: "threads_destroy (pc_vt pc) (zip orders (srv_threads s)) (close_socket (pc_os pc) (srv_fd s) w) = (Inr (), w1)"
    and w': "w' = pl_destroy (pc_poller pc) (srv_poller s) w1"
    using run by (auto simp: Server_destroy_def split: prod.splits sum.splits)
  note mi = server_invD(4) [OF I]
  have "open_fds w1 = open_fds (close_socket (pc_os pc) (srv_fd s) w) - (\<Union>t \<in> set (srv_threads s). dom (thread_sessions t))"
    by (rule threads_destroy_open [OF fd_table [OF c] ssl_fd [OF c] _ o td]) (use mi in \<open>auto simp: manager_inv_def\<close>)
  then show ?thesis
    using destroy_open [OF c, of "srv_poller s" w1] close_socket_open [OF fd_table [OF c], of "srv_fd s" w]
    by (auto simp: w' manager_dom_threads [OF mi])
qed

lemma life_law:
  assumes c: contract creates and "protocol_ok protocol" and "manager_ok (ThreadManager_new n :: session thread list)"
    and new: "TCPServer_new pc new_poller port otw protocol n w = (Inr s, w1)"
    and cls: "s1 = s\<lparr>srv_class := k\<rparr>" and same: "open_fds w2 = open_fds w1" "clients (srv_poller s) w2 = clients (srv_poller s) w1"
    and reach: "srv_reach pc (s1, w2) (s', es, w')"
  shows "open_fds w' = open_fds w \<union> {srv_fd s', own (srv_poller s')} \<union> with_session s'" (is ?running)
    and "orders_ok orders (srv_threads s') \<Longrightarrow> open_fds w'' = open_fds w' \<Longrightarrow> clients (srv_poller s') w'' = clients (srv_poller s') w' \<Longrightarrow>
      Server_destroy pc orders s' w'' = (Inr (), w3) \<Longrightarrow> open_fds w3 = open_fds w"
proof -
  note N = new_law [OF assms(1-5)]
  then have "inv {} s w1" by blast
  then have I: "inv {} s1 w2" by (simp add: server_inv_def cls same)
  note R = reach_inv [OF c(1) I reach, simplified] and B = reach_base [OF c(1) I reach, simplified]
  have sub: "with_session s' \<subseteq> open_fds w'" using server_invD(5,7) [OF conjunct1 [OF R]] by simp
  have base: "open_fds w' - with_session s' = open_fds w \<union> {srv_fd s', own (srv_poller s')}"
    and fresh: "srv_fd s' \<notin> open_fds w" "own (srv_poller s') \<notin> open_fds w"
    using B N by (auto simp: cls same)
  show ?running using base sub by auto
  assume o: "orders_ok orders (srv_threads s')" and w'': "open_fds w'' = open_fds w'" "clients (srv_poller s') w'' = clients (srv_poller s') w'"
    and run: "Server_destroy pc orders s' w'' = (Inr (), w3)"
  have "inv (disconnected es) s' w''" using R by (simp add: server_inv_def w'')
  from destroy_law [OF c(1) this o run] base fresh show "open_fds w3 = open_fds w" by (auto simp: w'')
qed

end

subsection \<open>The pollers that own a descriptor\<close>

text \<open>
  \<^verbatim>\<open>epoll_create1\<close> and \<^verbatim>\<open>kqueue\<close> return a descriptor that was not open, with nothing registered, or a
  negative number.
\<close>

definition creates_poll_fd :: "('w, 'z) os_scheme \<Rightarrow> ('w \<Rightarrow> SOCKET \<times> 'w) \<Rightarrow> ('w \<Rightarrow> SOCKET \<Rightarrow> SOCKET set) \<Rightarrow> bool" where
  [contract_defs]: "creates_poll_fd os create reg \<longleftrightarrow> (\<forall>w fd w'. create w = (fd, w') \<longrightarrow>
     (if sint fd < 0 then os_open os w' = os_open os w \<and> reg w' = reg w
      else fd \<notin> os_open os w \<and> os_open os w' = insert fd (os_open os w) \<and> reg w' = (reg w)(fd := {})))"

interpretation lin_life: server_life "linux_calls os sl nt ep" lp_server_fd "\<lambda>p. True"
  "\<lambda>p w. ep_interest ep w (epoll_fd p) - {lp_server_fd p}" "epoll_env os sl nt ep"
  "LinuxPoller_new os ep" epoll_fd "creates_poll_fd os (ep_create1 ep) (ep_interest ep)"
  for os :: "'w os" and sl :: "'w openssl" and nt :: "'w net" and ep :: "('w, 'e) epoll_scheme"
proof unfold_locales
  assume env: "epoll_env os sl nt ep"
  then have ft: "fd_table_contract os" and ck: "calls_keep os sl (ep_interest ep)" and c: "epoll_contract ep"
    and k: "keeps (os_open os) (ep_ctl_add ep a b fl d)" for a b fl d
    by (simp_all add: epoll_env_def socket_env_def epoll_keeps_def)
  show "os_open (pc_os (linux_calls os sl nt ep)) (pl_destroy (pc_poller (linux_calls os sl nt ep)) p w) =
      os_open (pc_os (linux_calls os sl nt ep)) w - {epoll_fd p}" for p w
    by (simp add: linux_calls_def LinuxPoller_def close_socket_open [OF ft])
  assume cr: "creates_poll_fd os (ep_create1 ep) (ep_interest ep)"
  fix fd w p w'
  assume "LinuxPoller_new os ep fd w = (Inr p, w')"
  then obtain epfd w1 r w2 where cre: "ep_create1 ep w = (epfd, w1)" "\<not> sint epfd < 0"
    and ctl: "ep_ctl_add ep epfd fd EPOLLIN fd w1 = (r, w2)" "\<not> r < 0"
    and w': "w' = log_with os (DBG (''epoll fd '' @ show_int (sint epfd))) w2"
    and p: "p = \<lparr> lp_server_fd = fd, epoll_fd = epfd \<rparr>"
    by (auto simp: LinuxPoller_new_def io_bind_call throw_errno_def split: prod.splits if_splits)
  have new: "epfd \<notin> os_open os w" "os_open os w1 = insert epfd (os_open os w)" "ep_interest ep w1 = (ep_interest ep w)(epfd := {})"
    using cr cre by (auto simp: creates_poll_fd_def)
  have "os_open os w' = os_open os w1" using keepsD [OF k ctl(1)] by (simp add: w' log_open [OF ft])
  moreover have "ep_interest ep w' = ep_interest ep w2" using calls_keepD(14) [OF ck] by (simp add: w' log_with_def)
  ultimately show "True \<and> lp_server_fd p = fd \<and> ep_interest ep w' (epoll_fd p) - {lp_server_fd p} = {} \<and>
      epoll_fd p \<notin> os_open (pc_os (linux_calls os sl nt ep)) w \<and>
      os_open (pc_os (linux_calls os sl nt ep)) w' = insert (epoll_fd p) (os_open (pc_os (linux_calls os sl nt ep)) w)"
    using new ctl(2) epoll_contractD(1) [OF c ctl(1)] by (simp add: p linux_calls_def)
qed (simp_all add: linux_calls_def LinuxPoller_def)

interpretation bsd_life: server_life "bsd_calls os sl nt kq" bp_server_fd "\<lambda>p. True"
  "\<lambda>p w. kq_filters kq w (kqueue_fd p) - {bp_server_fd p}" "kqueue_env os sl nt kq"
  "BsdPoller_new os kq" kqueue_fd "creates_poll_fd os (kq_kqueue kq) (kq_filters kq)"
  for os :: "'w os" and sl :: "'w openssl" and nt :: "'w net" and kq :: "('w, 'k) kqueue_scheme"
proof unfold_locales
  assume env: "kqueue_env os sl nt kq"
  then have ft: "fd_table_contract os" and c: "kqueue_contract kq"
    and k: "keeps (os_open os) (kq_change kq a i fl)" for a i fl
    by (simp_all add: kqueue_env_def socket_env_def kqueue_keeps_def)
  show "os_open (pc_os (bsd_calls os sl nt kq)) (pl_destroy (pc_poller (bsd_calls os sl nt kq)) p w) =
      os_open (pc_os (bsd_calls os sl nt kq)) w - {kqueue_fd p}" for p w
    by (simp add: bsd_calls_def BsdPoller_def close_socket_open [OF ft])
  assume cr: "creates_poll_fd os (kq_kqueue kq) (kq_filters kq)"
  fix fd w p w'
  assume "BsdPoller_new os kq fd w = (Inr p, w')"
  then obtain kfd w1 r where cre: "kq_kqueue kq w = (kfd, w1)" "\<not> sint kfd < 0"
    and ctl: "kq_change kq kfd (scast fd) (EV_ADD OR EV_ENABLE) w1 = (r, w')" "\<not> r < 0"
    and p: "p = \<lparr> bp_server_fd = fd, kqueue_fd = kfd \<rparr>"
    by (auto simp: BsdPoller_new_def io_bind_call throw_errno_def split: prod.splits if_splits)
  have "kfd \<notin> os_open os w" "os_open os w1 = insert kfd (os_open os w)" "kq_filters kq w1 = (kq_filters kq w)(kfd := {})"
    using cr cre by (auto simp: creates_poll_fd_def)
  then show "True \<and> bp_server_fd p = fd \<and> kq_filters kq w' (kqueue_fd p) - {bp_server_fd p} = {} \<and>
      kqueue_fd p \<notin> os_open (pc_os (bsd_calls os sl nt kq)) w \<and>
      os_open (pc_os (bsd_calls os sl nt kq)) w' = insert (kqueue_fd p) (os_open (pc_os (bsd_calls os sl nt kq)) w)"
    using ctl(2) keepsD [OF k ctl(1)] kqueue_contractD(1) [OF c ctl(1)] by (simp add: p bsd_calls_def)
qed (simp_all add: bsd_calls_def BsdPoller_def)

subsection \<open>The TLS server\<close>

text \<open>The calls of OpenSSL on contexts, certificates and keys leave a part of the world alone.\<close>

definition sslctx_keeps :: "('w, 'c) sslctx_scheme \<Rightarrow> ('w \<Rightarrow> 'o) \<Rightarrow> bool" where
  [contract_defs]: "sslctx_keeps cx obs \<longleftrightarrow>
     keeps obs (cx_new cx) \<and> (\<forall>str. keeps obs (cx_bio_new cx str)) \<and> (\<forall>b w. obs (cx_bio_free cx b w) = obs w) \<and>
     (\<forall>b. keeps obs (cx_read_x509 cx b)) \<and> (\<forall>c x. keeps obs (cx_use_certificate cx c x)) \<and>
     (\<forall>x w. obs (cx_x509_free cx x w) = obs w) \<and> (\<forall>b. keeps obs (cx_read_key cx b)) \<and>
     (\<forall>c k. keeps obs (cx_use_key cx c k)) \<and> (\<forall>k w. obs (cx_key_free cx k w) = obs w) \<and>
     (\<forall>c. keeps obs (cx_check_key cx c)) \<and> (\<forall>c w. obs (cx_free cx c w) = obs w)"

lemma load_certificate_keeps: "sslctx_keeps cx obs \<Longrightarrow> keeps obs (load_certificate cx ctx cert)"
  unfolding load_certificate_def sslctx_keeps_def by (intro keeps_intros) auto

lemma load_key_keeps:
  assumes "sslctx_keeps cx obs" and "calls_keep os sl obs"
  shows "keeps obs (load_key os sl cx ctx key)"
proof -
  have "keeps obs (raise_ssl_errors os sl)"
    unfolding raise_ssl_errors_def sslserver_err_def
    by (intro keeps_intros calls_keepD(9) [OF assms(2)] calls_keepD(14) [OF assms(2)])
  with assms(1) show ?thesis unfolding load_key_def sslctx_keeps_def by (intro keeps_intros) auto
qed

context server_life
begin

abbreviation seen :: "'p \<Rightarrow> 'w \<Rightarrow> SOCKET set \<times> SOCKET set" where "seen p w \<equiv> (open_fds w, clients p w)"

lemma calls_seen: "contract \<Longrightarrow> calls_keep (pc_os pc) (pc_ssl pc) (seen p)"
  using calls_clients [of p] calls_keep_open [OF fd_table ssl_fd] by (simp add: calls_keep_def keeps_def)

lemma tls_new_law:
  assumes c: contract creates and cx: "\<And>p. sslctx_keeps cx (seen p)" and "protocol_ok protocol" and "manager_ok (ThreadManager_new n :: session thread list)"
    and new: "TCPServer_new pc new_poller port otw protocol n w = (Inr s, w1)"
    and run: "SSLServer_new pc cx new_poller port otw protocol n cert key w = (r, w2)"
  shows "case r of
      Inr (s1, ctx) \<Rightarrow> s1 = s\<lparr>srv_class := SSLServer ctx\<rparr> \<and> seen (srv_poller s) w2 = seen (srv_poller s) w1
    | Inl e \<Rightarrow> open_fds w2 = open_fds w"
proof -
  obtain ctx w3 where ctx: "cx_new cx w1 = (ctx, w3)" by fastforce
  let ?load = "io_bind (load_certificate cx ctx cert) (\<lambda>_. load_key (pc_os pc) (pc_ssl pc) cx ctx key)"
  obtain q w4 where load: "?load w3 = (q, w4)" by fastforce
  have kl: "keeps (seen (srv_poller s)) ?load"
    by (intro keeps_bind load_certificate_keeps load_key_keeps cx calls_seen c(1))
  have kn: "keeps (seen (srv_poller s)) (cx_new cx)" using cx [of "srv_poller s"] unfolding sslctx_keeps_def by blast
  have same: "seen (srv_poller s) w4 = seen (srv_poller s) w1"
    by (rule trans [OF keepsD [OF kl load] keepsD [OF kn ctx]])
  note N = new_law [OF c assms(4,5) new]
  let ?orders = "map (\<lambda>_. []) (srv_threads s)"
  have r: "(r, w2) = (case q of Inr _ \<Rightarrow> (Inr (s\<lparr>srv_class := SSLServer ctx\<rparr>, ctx), w4)
      | Inl e \<Rightarrow> (Inl e, snd (Server_destroy pc ?orders s w4)))"
    using run by (auto simp: SSLServer_new_def new io_bind_call ctx load split: sum.splits)
  have "inv {} s w1" using N by blast
  then have I: "inv {} s w4" unfolding server_inv_def using same by simp
  have "dom (thread_sessions t) = {}" if "t \<in> set (srv_threads s)" for t
    using manager_dom_threads [OF server_invD(4) [OF I]] N that by blast
  then have o: "orders_ok ?orders (srv_threads s)" by (auto simp: orders_ok_def list_all2_conv_all_nth)
  have "\<forall>t \<in> set (srv_threads s). quiet_thread t" using N new_threads_quiet by metis
  note d = destroy_law [OF c(1) I o Server_destroy_quiet [OF this]]
  from d N same have "open_fds (snd (Server_destroy pc ?orders s w4)) = open_fds w" by auto
  with r same show ?thesis by (auto split: sum.splits)
qed

end

subsection \<open>Properties\<close>

lemma lin_os: "pc_os (linux_calls os sl nt ep) = os"
  by (simp add: linux_calls_def)

text \<open>
  C4. The life of a TCP server on Linux, with any number of threads and under every interleaving of its
  event loop, its workers and a stop: at every moment after the constructor the open descriptors
  are those that were open before it, the listening socket, the epoll descriptor and one for each
  client with a session, and the destructor leaves exactly the descriptors that were open before
  the constructor. With a single thread the destructor always completes.
\<close>

theorem Server_lifetime:
  assumes "epoll_env os sl nt ep" and "creates_poll_fd os (ep_create1 ep) (ep_interest ep)"
    and "protocol_ok protocol" and "manager_ok (ThreadManager_new n :: session thread list)"
    and "TCPServer_new (linux_calls os sl nt ep) (LinuxPoller_new os ep) port open_to_world protocol n w = (Inr s, w1)"
    and "srv_reach (linux_calls os sl nt ep) (s, w1) (s', es, w')" and "orders_ok orders (srv_threads s')"
  shows "os_open os w' = os_open os w \<union> {srv_fd s', epoll_fd (srv_poller s')} \<union>
      dom (manager_lookup thread_sessions (srv_threads s')) \<and>
    (\<forall>w''. Server_destroy (linux_calls os sl nt ep) orders s' w' = (Inr (), w'') \<longrightarrow> os_open os w'' = os_open os w) \<and>
    (n = Threads_Single \<longrightarrow> fst (Server_destroy (linux_calls os sl nt ep) orders s' w') = Inr ())"
proof (intro conjI allI impI)
  note life = lin_life.life_law [OF assms(1-5), of s "srv_class s" w1, OF _ refl refl assms(6), unfolded lin_os]
  show "os_open os w' = os_open os w \<union> {srv_fd s', epoll_fd (srv_poller s')} \<union>
      dom (manager_lookup thread_sessions (srv_threads s'))"
    by (rule life(1)) simp
  show "os_open os w'' = os_open os w" if "Server_destroy (linux_calls os sl nt ep) orders s' w' = (Inr (), w'')" for w''
    by (rule life(2) [OF _ assms(7) refl refl that]) simp
  assume "n = Threads_Single"
  then have "srv_threads s = [Single ThreadSingle_new]"
    using lin_life.new_law [OF assms(1-5)] by simp
  from reach_single [OF assms(6) this] obtain u where "srv_threads s' = [Single u]" by auto
  then have "\<forall>t \<in> set (srv_threads s'). quiet_thread t" by (simp add: quiet_thread_def)
  from Server_destroy_quiet [OF this] show "fst (Server_destroy (linux_calls os sl nt ep) orders s' w') = Inr ()"
    by (metis fst_conv)
qed

text \<open>When the poller cannot be constructed, no destructor runs and the listening socket stays open.\<close>

lemma TCPServer_new_leaks_listener:
  assumes env: "epoll_env os sl nt ep" and cr: "creates_poll_fd os (ep_create1 ep) (ep_interest ep)"
    and cl: "create_listener os nt port open_to_world w = (Inr fd, w1)" and np: "LinuxPoller_new os ep fd w1 = (Inl e, w2)"
  shows "TCPServer_new (linux_calls os sl nt ep) (LinuxPoller_new os ep) port open_to_world protocol n w = (Inl e, w2) \<and>
    fd \<notin> os_open os w \<and> fd \<in> os_open os w2"
proof -
  have "fd_table_contract os" "net_contract os nt" and k: "\<And>a b fl d. keeps (os_open os) (ep_ctl_add ep a b fl d)"
    using env by (simp_all add: epoll_env_def socket_env_def epoll_keeps_def)
  from create_listener_open [OF this(1,2) cl] have fd: "fd \<notin> os_open os w" "fd \<in> os_open os w1" by auto
  obtain epfd w3 where c: "ep_create1 ep w1 = (epfd, w3)" by fastforce
  have "os_open os w1 \<subseteq> os_open os w3" using cr c by (auto simp: creates_poll_fd_def split: if_splits)
  moreover obtain r w4 where a: "ep_ctl_add ep epfd fd EPOLLIN fd w3 = (r, w4)" by fastforce
  have "w2 = w3 \<or> w2 = w4" using np by (auto simp: LinuxPoller_new_def io_bind_call throw_errno_def c a split: if_splits)
  then have "os_open os w2 = os_open os w3" using keepsD [OF k a] by auto
  ultimately have "fd \<in> os_open os w2" using fd by blast
  moreover have "TCPServer_new (linux_calls os sl nt ep) (LinuxPoller_new os ep) port open_to_world protocol n w = (Inl e, w2)"
    using cl np by (simp add: TCPServer_new_def Server_new_def linux_calls_def)
  ultimately show ?thesis using fd by simp
qed

text \<open>
  C15. The same for a TLS server, whose context the constructor makes and the destructor frees. When the
  certificate or the key is refused, the constructor closes everything that it opened.
\<close>

theorem SSLServer_lifetime:
  assumes "epoll_env os sl nt ep" and "creates_poll_fd os (ep_create1 ep) (ep_interest ep)"
    and "sslctx_keeps cx (os_open os)" and "sslctx_keeps cx (ep_interest ep)"
    and "protocol_ok protocol" and "manager_ok (ThreadManager_new n :: session thread list)"
    and "TCPServer_new (linux_calls os sl nt ep) (LinuxPoller_new os ep) port open_to_world protocol n w = (Inr s, w1)"
    and "SSLServer_new (linux_calls os sl nt ep) cx (LinuxPoller_new os ep) port open_to_world protocol n
      certificate private_key w = (r, w2)"
  shows "case r of
      Inl e \<Rightarrow> os_open os w2 = os_open os w
    | Inr (s1, ctx) \<Rightarrow>
        (\<forall>s' es w' orders w''. srv_reach (linux_calls os sl nt ep) (s1, w2) (s', es, w') \<longrightarrow>
          orders_ok orders (srv_threads s') \<longrightarrow>
          SSLServer_destroy (linux_calls os sl nt ep) cx orders (s', ctx) w' = (Inr (), w'') \<longrightarrow>
          os_open os w'' = os_open os w)"
proof -
  have cx: "sslctx_keeps cx (\<lambda>w. (os_open os w, ep_interest ep w (epoll_fd p) - {lp_server_fd p}))" for p
    using assms(3,4) by (simp add: sslctx_keeps_def keeps_def)
  note T = lin_life.tls_new_law [OF assms(1,2) _ assms(5-8), unfolded lin_os, OF cx]
  show ?thesis
  proof (cases r)
    case (Inl e)
    with T show ?thesis by simp
  next
    case (Inr x)
    obtain s1 ctx where x: "x = (s1, ctx)" by fastforce
    have s1: "s1 = s\<lparr>srv_class := SSLServer ctx\<rparr>" and same: "os_open os w2 = os_open os w1"
      "ep_interest ep w2 (epoll_fd (srv_poller s)) - {lp_server_fd (srv_poller s)} =
       ep_interest ep w1 (epoll_fd (srv_poller s)) - {lp_server_fd (srv_poller s)}" using T by (simp_all add: Inr x)
    have "os_open os w'' = os_open os w"
      if "srv_reach (linux_calls os sl nt ep) (s1, w2) (s', es, w')" and "orders_ok orders (srv_threads s')"
        and "SSLServer_destroy (linux_calls os sl nt ep) cx orders (s', ctx) w' = (Inr (), w'')" for s' es w' orders w''
      by (rule lin_life.life_law(2) [OF assms(1,2,5-7) s1 _ same(2) that(1,2), unfolded lin_os, OF same(1), of "cx_free cx ctx w'"])
        (use assms(3,4) that(3) in \<open>simp_all add: sslctx_keeps_def SSLServer_destroy_def\<close>)
    then show ?thesis by (simp add: Inr x)
  qed
qed

subsection \<open>A concrete life\<close>

text \<open>
  The concrete calls with an \<^verbatim>\<open>epoll_create1\<close> that opens descriptor 5, in a world where 0, 1 and 2 are
  open and a client will call; the listening socket becomes 3, the client 4.
\<close>

definition life_epoll :: "sim_net epoll" where
  "life_epoll = sim_epoll\<lparr>ep_create1 := (\<lambda>w. if 5 \<in> sim_open w then (-1, w)
     else (5, w\<lparr>sim_open := insert 5 (sim_open w), sim_interest := (sim_interest w)(5 := {})\<rparr>))\<rparr>"

definition life_calls :: "(linux_poller, sim_net) platform_calls" where
  "life_calls = linux_calls sim_srv_os sim_ssl sim_nt life_epoll"

definition life_world :: sim_net where
  "life_world = sim_net_world\<lparr>sim_open := {0, 1, 2}, sim_addrs := [sim_addr], sim_events := [[(1, 3)]]\<rparr>"

definition life_new :: "(failure + linux_poller server) \<times> sim_net" where
  "life_new = TCPServer_new life_calls (LinuxPoller_new sim_srv_os life_epoll) 8080 False TestProtocol_create_session Threads_Single life_world"

lemma life_epoll_env: "epoll_env sim_srv_os sim_ssl sim_nt life_epoll"
  using sim_epoll_env by (simp add: epoll_env_def epoll_contract_def epoll_keeps_def life_epoll_def)

lemma life_creates: "creates_poll_fd sim_srv_os (ep_create1 life_epoll) (ep_interest life_epoll)"
  by (auto simp: creates_poll_fd_def life_epoll_def sim_srv_os_def sim_os_def sim_epoll_def split: if_splits)

lemma life_new: "fst life_new = Inr sim_server" "sim_open (snd life_new) = {0, 1, 2, 3, 5}"
    "sim_events (snd life_new) = [[(1, 3)]]" "sim_interest (snd life_new) 5 = {3}" "\<not> logging_verbose (sim_logger (snd life_new))"
  by (simp_all add: life_new_def life_calls_def linux_calls_def TCPServer_new_def Server_new_def create_listener_def LinuxPoller_new_def
      life_epoll_def life_world_def sim_srv_os_def io_bind_call sim_net_eval sim_new_fd_def INVALID_SOCKET_def SOCKET_ERROR_def
      upt_conv_Cons log_with_def LOG_def DBG_def fprintf_def init_logger_def sim_server_def sim_linux_def insert_commute)

lemma life_run: "TCPServer_new life_calls (LinuxPoller_new sim_srv_os life_epoll) 8080 False TestProtocol_create_session Threads_Single
    life_world = (Inr sim_server, snd life_new)"
  using life_new(1) unfolding life_new_def by (metis prod.collapse)

definition life_served :: "linux_poller server" where
  "life_served = sim_server\<lparr>srv_threads := [Single \<lparr> ts_sessions = [4 \<mapsto> TestProtocol_create_session (TCPConnection 4)] \<rparr>]\<rparr>"

lemma life_client:
  assumes "sim_open w = {0, 1, 2, 3, 5}" and "\<not> logging_verbose (sim_logger w)"
  shows "\<exists>w'. Server_new_client life_calls sim_server w = (Inr (), life_served, w')"
proof -
  let ?w = "w\<lparr>sim_open := {4, 0, 1, 2, 3, 5}\<rparr>"
  have "sim_new_fd w = (4, ?w)" by (simp add: sim_new_fd_def assms(1) upt_conv_Cons)
  then have acc: "TCPServer_accept sim_srv_os sim_nt 3 w = (Inr 4, ?w)"
    by (simp add: TCPServer_accept_def io_bind_call sim_nt_def INVALID_SOCKET_def socket_mark_as_nonblocking_def
        sim_srv_os_def sim_os_def log_quiet assms(2))
  have "\<exists>i < 1. thread_index 4 1 = Inr i" by (rule thread_index_bound) simp_all
  then have add: "ThreadManager_add_session (Session_vtable sim_srv_os sim_ssl) (TestProtocol_create_session (TCPConnection 4))
      (ThreadManager_new Threads_Single) ?w = (Inr (), [Single \<lparr> ts_sessions = [4 \<mapsto> TestProtocol_create_session (TCPConnection 4)] \<rparr>], ?w)"
    by (auto simp: ThreadManager_add_session_def at_thread_def ThreadSingle_new_def ThreadSingle_add_session_def
        drop_session_def TestProtocol_create_session_def session_fd_def)
  show ?thesis
    by (simp add: Server_new_client_def life_calls_def linux_calls_def sim_server_def acc add life_served_def LinuxPoller_def
        LinuxPoller_add_client_def const_state_def io_bind_call life_epoll_def sim_epoll_def sim_linux_def del: ThreadManager_new.simps)
qed

lemma life_reach: "\<exists>w'. srv_reach life_calls (sim_server, snd life_new) (life_served, [], w')"
proof -
  let ?w = "(snd life_new)\<lparr>sim_events := []\<rparr>"
  have "pl_wait (pc_poller life_calls) (srv_poller sim_server) (snd life_new) = (Inr [mk_Event NewClient 3], sim_linux, ?w)"
    by (simp add: life_calls_def linux_calls_def LinuxPoller_def LinuxPoller_wait_def linux_event_def
        sim_server_def sim_linux_def life_epoll_def sim_epoll_def io_bind_call EVENT_BUFFER_SZ_def life_new)
  from poll [where pc = life_calls and s = sim_server, OF _ this]
  have "srv_step life_calls (sim_server, [], snd life_new) (sim_server, [mk_Event NewClient 3], ?w)" by (simp add: sim_server_def)
  with reach_init [of life_calls "(sim_server, snd life_new)"]
  have r: "srv_reach life_calls (sim_server, snd life_new) (sim_server, [mk_Event NewClient 3], ?w)"
    by (auto intro: reach_step)
  from life_client [of ?w] obtain w' where "Server_new_client life_calls sim_server ?w = (Inr (), life_served, w')"
    by (auto simp: life_new)
  then have "Server_event life_calls (mk_Event NewClient 3) sim_server ?w = (Inr (), life_served, w')"
    by (simp add: Server_event_def)
  with r show ?thesis by (blast intro: reach_step handle)
qed

theorem Server_lifetime_witness:
  "\<exists>w' w''. srv_reach life_calls (sim_server, snd life_new) (life_served, [], w') \<and> sim_open w' = {0, 1, 2, 3, 4, 5} \<and>
     Server_destroy life_calls [[4]] life_served w' = (Inr (), w'') \<and> sim_open w'' = {0, 1, 2}"
proof -
  from life_reach obtain w' where r: "srv_reach life_calls (sim_server, snd life_new) (life_served, [], w')" by blast
  have dom: "dom (manager_lookup thread_sessions (srv_threads life_served)) = {4}"
    by (auto simp: manager_lookup_def life_served_def thread_index_mod split: if_splits)
  have "os_open sim_srv_os = sim_open" by (simp add: sim_srv_os_def sim_os_def)
  then have "sim_open w' = {0, 1, 2} \<union> {3, 5} \<union> {4} \<and>
      (\<forall>w''. Server_destroy life_calls [[4]] life_served w' = (Inr (), w'') \<longrightarrow> sim_open w'' = {0, 1, 2}) \<and>
      fst (Server_destroy life_calls [[4]] life_served w') = Inr ()"
    using Server_lifetime [OF life_epoll_env life_creates _ _ life_run [unfolded life_calls_def] r [unfolded life_calls_def], of "[[4]]"] dom
    by (simp add: protocol_ok_def TestProtocol_create_session_def manager_ok_def orders_ok_def life_served_def life_calls_def
        life_world_def sim_server_def sim_linux_def insert_commute)
  with r show ?thesis by (intro exI [of _ w'] exI [of _ "snd (Server_destroy life_calls [[4]] life_served w')"])
    (auto simp: prod_eq_iff)
qed

text \<open>A TLS server whose certificate is accepted or refused; it is destroyed without having served.\<close>

definition life_ctx :: "bool \<Rightarrow> sim_net sslctx" where
  "life_ctx good = \<lparr> cx_new = (\<lambda>w. (1, w)), cx_bio_new = (\<lambda>str w. (Some 1, w)), cx_bio_free = (\<lambda>b w. w),
     cx_read_x509 = (\<lambda>b w. (if good then Some 1 else None, w)), cx_use_certificate = (\<lambda>c x w. (1, w)),
     cx_x509_free = (\<lambda>x w. w), cx_read_key = (\<lambda>b w. (Some 1, w)), cx_use_key = (\<lambda>c k w. (1, w)),
     cx_key_free = (\<lambda>k w. w), cx_check_key = (\<lambda>c w. (1, w)), cx_free = (\<lambda>c w. w) \<rparr>"

definition life_tls :: "bool \<Rightarrow> (failure + linux_poller server \<times> nat) \<times> sim_net" where
  "life_tls good = SSLServer_new life_calls (life_ctx good) (LinuxPoller_new sim_srv_os life_epoll) 8080 False
     TestProtocol_create_session Threads_Single ''cert'' ''key'' life_world"

lemma life_ctx_keeps: "sslctx_keeps (life_ctx good) obs"
  by (simp add: sslctx_keeps_def life_ctx_def keeps_def)

lemma life_tls: "fst (life_tls good) = (if good then Inr (sim_server\<lparr>srv_class := SSLServer 1\<rparr>, 1)
    else Inl (NonRecoverableException ''Invalid certificate key.''))"
  by (simp add: life_tls_def SSLServer_new_def life_run io_bind_call load_certificate_def load_key_def life_ctx_def)

theorem SSLServer_lifetime_witness:
  "fst (life_tls False) = Inl (NonRecoverableException ''Invalid certificate key.'') \<and> sim_open (snd (life_tls False)) = {0, 1, 2} \<and>
   (\<exists>w'. SSLServer_destroy life_calls (life_ctx True) [[]] (sim_server\<lparr>srv_class := SSLServer 1\<rparr>, 1) (snd (life_tls True)) = (Inr (), w') \<and>
      sim_open w' = {0, 1, 2})"
proof -
  let ?s = "sim_server\<lparr>srv_class := SSLServer 1\<rparr>"
  have run: "SSLServer_new life_calls (life_ctx good) (LinuxPoller_new sim_srv_os life_epoll) 8080 False TestProtocol_create_session
      Threads_Single ''cert'' ''key'' life_world = (fst (life_tls good), snd (life_tls good))" for good
    by (simp add: life_tls_def)
  have op: "os_open sim_srv_os = sim_open" "sim_open life_world = {0, 1, 2}" by (simp_all add: sim_srv_os_def sim_os_def life_world_def)
  have ok: "protocol_ok TestProtocol_create_session" "manager_ok (ThreadManager_new Threads_Single :: session thread list)"
    by (simp_all add: protocol_ok_def TestProtocol_create_session_def manager_ok_def)
  note L = SSLServer_lifetime [OF life_epoll_env life_creates life_ctx_keeps life_ctx_keeps ok life_run [unfolded life_calls_def]
      run [unfolded life_calls_def], folded life_calls_def, unfolded op life_tls]
  have "orders_ok [[]] (srv_threads ?s)" by (simp add: orders_ok_def sim_server_def ThreadSingle_new_def)
  moreover have "srv_reach life_calls (?s, snd (life_tls True)) (?s, [], snd (life_tls True))"
    using reach_init [of life_calls "(?s, snd (life_tls True))"] by simp
  moreover have "\<forall>t \<in> set (srv_threads ?s). quiet_thread t" by (simp add: sim_server_def quiet_thread_def)
  note Server_destroy_quiet [OF this, of life_calls "[[]]" "cx_free (life_ctx True) 1 (snd (life_tls True))"]
  moreover note L [of True]
  ultimately have "\<exists>w'. SSLServer_destroy life_calls (life_ctx True) [[]] (?s, 1) (snd (life_tls True)) = (Inr (), w') \<and> sim_open w' = {0, 1, 2}"
    by (fastforce simp: SSLServer_destroy_def)
  then show ?thesis using L [of False] by (simp add: life_tls)
qed

end
