(* ===== verification/Progress.thy ===== *)
theory Progress
  imports Streams
begin

text \<open>
  The server makes progress (\<^verbatim>\<open>server/server.cc\<close> on each of the three pollers): when clients have
  connected and sent a request each, a bounded number of calls of \<^verbatim>\<open>Server::iterate\<close> accepts and
  answers all of them. The contracts of the kernel interfaces speak of a network that delivers
  nothing more while the server works off what has arrived; what has arrived is a value of type
  \<open>arrivals\<close>. The locale \<open>server_progress\<close> states what the event loop relies on, and is
  interpreted for epoll, kqueue and WSAPoll.
\<close>

subsection \<open>What has arrived\<close>

text \<open>
  The requests of the clients that wait to be accepted, in the order in which they will be; what can be
  received on each descriptor, what was sent on it, and the open descriptors.
\<close>

record arrivals =
  backlog :: "string list"
  inbox :: "SOCKET \<Rightarrow> string"
  outbox :: "SOCKET \<Rightarrow> string"
  opened :: "SOCKET set"

definition accepted :: "SOCKET \<Rightarrow> arrivals \<Rightarrow> arrivals" where
  "accepted fd a = a\<lparr>backlog := tl (backlog a), inbox := (inbox a)(fd := hd (backlog a)),
     outbox := (outbox a)(fd := ''''), opened := insert fd (opened a)\<rparr>"

definition received :: "SOCKET \<Rightarrow> nat \<Rightarrow> arrivals \<Rightarrow> arrivals" where
  "received fd n a = a\<lparr>inbox := (inbox a)(fd := drop n (inbox a fd))\<rparr>"

definition handed_over :: "SOCKET \<Rightarrow> string \<Rightarrow> arrivals \<Rightarrow> arrivals" where
  "handed_over fd d a = a\<lparr>outbox := (outbox a)(fd := outbox a fd @ d)\<rparr>"

text \<open>Calling \<^verbatim>\<open>iterate\<close> a number of times, until one raises.\<close>

fun Server_iterations ::
  "('p, 'w, 'x) platform_calls_scheme \<Rightarrow> nat \<Rightarrow> 'p server \<Rightarrow> 'w \<Rightarrow> (failure + unit) \<times> 'p server \<times> 'w" where
  "Server_iterations pc 0 s w = (Inr (), s, w)"
| "Server_iterations pc (Suc n) s w =
     (case Server_iterate pc s w of
        (Inl e, s', w') \<Rightarrow> (Inl e, s', w')
      | (Inr _, s', w') \<Rightarrow> Server_iterations pc n s' w')"

subsection \<open>Events that are due\<close>

definition data_fds :: "Event list \<Rightarrow> SOCKET list" where
  "data_fds es = map ev_fd (filter (\<lambda>e. ev_type e = ClientDataReady) es)"

definition news :: "Event list \<Rightarrow> nat" where
  "news es = length (filter (\<lambda>e. ev_type e = NewClient) es)"

lemma event_list_simps [simp]:
  "data_fds [] = []" "news [] = 0"
  "data_fds (e # es) = (if ev_type e = ClientDataReady then [ev_fd e] else []) @ data_fds es"
  "news (e # es) = (if ev_type e = NewClient then 1 else 0) + news es"
  by (simp_all add: data_fds_def news_def)

text \<open>
  Events about something: a new client for each \<open>NewClient\<close>, input for each \<open>ClientDataReady\<close>,
  and no disconnection.
\<close>

definition due :: "arrivals \<Rightarrow> Event list \<Rightarrow> bool" where
  "due a es \<longleftrightarrow> (\<forall>e \<in> set es. ev_type e \<noteq> ClientDisconnected) \<and> news es \<le> length (backlog a) \<and>
     distinct (data_fds es) \<and> (\<forall>fd \<in> set (data_fds es). inbox a fd \<noteq> '''')"

subsection \<open>The state of the work\<close>

text \<open>
  A client on \<open>fd\<close> whose request is \<open>d\<close>: its answer was sent and its session is the one that
  answers the request, or the request waits to be read by a new session.
\<close>

definition replied :: "arrivals \<Rightarrow> session session_map \<Rightarrow> (connection \<Rightarrow> session) \<Rightarrow> SOCKET \<Rightarrow> string \<Rightarrow> bool" where
  "replied a m pr fd d \<longleftrightarrow> inbox a fd = '''' \<and>
     (\<exists>x. m fd = Some x \<and> session_feed (pr (TCPConnection fd)) d = Some (outbox a fd, x))"

definition unread :: "arrivals \<Rightarrow> session session_map \<Rightarrow> (connection \<Rightarrow> session) \<Rightarrow> SOCKET \<Rightarrow> string \<Rightarrow> bool" where
  "unread a m pr fd d \<longleftrightarrow> inbox a fd = d \<and> outbox a fd = '''' \<and> m fd = Some (pr (TCPConnection fd))"

text \<open>
  \<open>acc\<close> lists the clients accepted so far with their requests, \<open>R\<close> are the descriptors that the
  poller is going to report, \<open>es\<close> the events of the current batch that are still to be handled.
\<close>

definition work ::
  "nat \<Rightarrow> SOCKET \<Rightarrow> string list \<Rightarrow> (connection \<Rightarrow> session) \<Rightarrow> (SOCKET \<times> string) list \<Rightarrow> SOCKET set \<Rightarrow> Event list \<Rightarrow>
     session session_map \<Rightarrow> arrivals \<Rightarrow> bool" where
  "work lim sfd requests pr acc R es m a \<longleftrightarrow>
     requests = map snd acc @ backlog a \<and> distinct (map fst acc) \<and> card (opened a) + length (backlog a) \<le> lim \<and>
     sfd \<in> opened a - fst ` set acc \<and> fst ` set acc \<subseteq> opened a \<and> dom m \<subseteq> fst ` set acc \<and>
     (\<forall>fd. inbox a fd \<noteq> '''' \<longrightarrow> fd \<in> fst ` set acc) \<and>
     (\<forall>(fd, d) \<in> set acc. replied a m pr fd d \<or> unread a m pr fd d \<and> fd \<in> R \<union> set (data_fds es)) \<and>
     due a es"

text \<open>The work that is left: a client to be accepted counts twice, as its request has to be read, too.\<close>

definition work_left :: "arrivals \<Rightarrow> nat" where
  "work_left a = 2 * length (backlog a) + card {fd. inbox a fd \<noteq> ''''}"

lemma workD:
  assumes "work lim sfd requests pr acc R es m a"
  shows "(fd, d) \<in> set acc \<Longrightarrow> replied a m pr fd d \<or> unread a m pr fd d \<and> fd \<in> R \<union> set (data_fds es)"
    and "inbox a fd \<noteq> '''' \<Longrightarrow> fd \<in> fst ` set acc"
  using assms unfolding work_def by blast+

lemma work_finite: "work lim sfd requests pr acc R es m a \<Longrightarrow> finite {fd. inbox a fd \<noteq> ''''}"
  by (rule finite_subset [of _ "fst ` set acc"]) (auto simp: work_def)

lemma work_fresh:
  assumes "work lim sfd requests pr acc R es m a" and "fd \<notin> opened a"
  shows "fd \<notin> fst ` set acc" and "fd \<noteq> sfd" and "m fd = None" and "inbox a fd = ''''"
proof -
  show n: "fd \<notin> fst ` set acc" and "fd \<noteq> sfd" using assms by (auto simp: work_def)
  show "m fd = None" using assms(1) n unfolding work_def by blast
  show "inbox a fd = ''''" using workD(2) [OF assms(1)] n by blast
qed

lemma work_accept:
  assumes "work lim sfd requests pr acc R (e # es) m a" and "ev_type e = NewClient"
    and "fd \<notin> opened a" and "R \<subseteq> R'" and "fd \<in> R'" and "'''' \<notin> set requests"
  shows "work lim sfd requests pr (acc @ [(fd, hd (backlog a))]) R' es (m(fd \<mapsto> pr (TCPConnection fd))) (accepted fd a)"
    and "Suc (work_left (accepted fd a)) = work_left a"
proof -
  have b: "backlog a = hd (backlog a) # tl (backlog a)" using assms(1,2) by (cases "backlog a") (auto simp: work_def due_def)
  note new = work_fresh [OF assms(1,3)]
  have rq: "requests = map snd acc @ backlog a" and l: "card (opened a) + length (backlog a) \<le> lim"
    using assms(1) by (simp_all add: work_def)
  have d: "hd (backlog a) \<noteq> ''''" using assms(6) b unfolding rq by (metis UnCI list.set_intros(1) set_append)
  have l': "card (insert fd (opened a)) + length (tl (backlog a)) \<le> lim"
    using l b assms(3) by (cases "backlog a") simp_all
  have old: "x \<noteq> fd" if "(x, y) \<in> set acc" for x y using new(1) that by force
  show "work lim sfd requests pr (acc @ [(fd, hd (backlog a))]) R' es (m(fd \<mapsto> pr (TCPConnection fd))) (accepted fd a)"
    using assms(1-5) b new d l' unfolding work_def accepted_def
    by (auto simp: replied_def unread_def due_def dest: old split: if_splits)
  have "{x. inbox (accepted fd a) x \<noteq> ''''} = insert fd {x. inbox a x \<noteq> ''''}" using d by (auto simp: accepted_def)
  then show "Suc (work_left (accepted fd a)) = work_left a"
    using work_finite [OF assms(1)] new(4) b by (cases "backlog a") (auto simp: work_left_def accepted_def)
qed

lemma work_read:
  assumes "work lim sfd requests pr acc R (e # es) m a" and "ev_type e = ClientDataReady"
    and "session_feed (pr (TCPConnection (ev_fd e))) (inbox a (ev_fd e)) = Some (r, x)"
    and "R - {ev_fd e} \<subseteq> R'" and "length (inbox a (ev_fd e)) \<le> n"
  shows "work lim sfd requests pr acc R' es (m(ev_fd e \<mapsto> x)) (handed_over (ev_fd e) r (received (ev_fd e) n a))"
    and "Suc (work_left (handed_over (ev_fd e) r (received (ev_fd e) n a))) = work_left a"
proof -
  let ?fd = "ev_fd e" and ?a = "handed_over (ev_fd e) r (received (ev_fd e) n a)"
  have ne: "inbox a ?fd \<noteq> ''''" using assms(1,2) by (simp add: work_def due_def)
  then have mem: "?fd \<in> fst ` set acc" using assms(1) by (simp add: work_def)
  have mine: "unread a m pr ?fd d" if "(?fd, d) \<in> set acc" for d
    using assms(1) that ne by (fastforce simp: work_def replied_def)
  have "replied ?a (m(?fd \<mapsto> x)) pr fd d \<or> unread ?a (m(?fd \<mapsto> x)) pr fd d \<and> fd \<in> R' \<union> set (data_fds es)"
    if "(fd, d) \<in> set acc" for fd d
  proof (cases "fd = ?fd")
    case True
    with mine [of d] that assms(3,5) show ?thesis by (simp add: replied_def unread_def handed_over_def received_def)
  next
    case False
    then have "replied a m pr fd d \<or> unread a m pr fd d \<and> fd \<in> R \<union> set (data_fds es)"
      using assms(1,2) that by (fastforce simp: work_def)
    with False assms(4) show ?thesis by (auto simp: replied_def unread_def handed_over_def received_def)
  qed
  moreover have "due ?a es" using assms(1,2) by (auto simp: work_def due_def handed_over_def received_def)
  ultimately show "work lim sfd requests pr acc R' es (m(?fd \<mapsto> x)) ?a"
    using assms(1) mem unfolding work_def by (auto simp: handed_over_def received_def split: if_splits)
  have "{fd. inbox a fd \<noteq> ''''} = insert ?fd {fd. inbox ?a fd \<noteq> ''''}" "?fd \<notin> {fd. inbox ?a fd \<noteq> ''''}"
    using ne assms(5) by (auto simp: handed_over_def received_def)
  then show "Suc (work_left ?a) = work_left a"
    using work_finite [OF assms(1)] by (auto simp: work_left_def handed_over_def received_def)
qed

lemma work_wait:
  assumes "work lim sfd requests pr acc R [] m a" and "due a es" and "R \<subseteq> R' \<union> set (data_fds es)"
  shows "work lim sfd requests pr acc R' es m a"
  using assms unfolding work_def by fastforce

lemma work_done:
  assumes "work lim sfd requests pr acc R es m a" and "work_left a = 0"
  shows "backlog a = []" and "requests = map snd acc" and "(fd, d) \<in> set acc \<Longrightarrow> '''' \<notin> set requests \<Longrightarrow> replied a m pr fd d"
proof -
  have i: "inbox a x = ''''" for x using assms(2) work_finite [OF assms(1)] by (auto simp: work_left_def)
  show "backlog a = []" using assms(2) by (simp add: work_left_def)
  then show "requests = map snd acc" using assms(1) by (simp add: work_def)
  then have "d \<in> set requests" if "(fd, d) \<in> set acc" using that by force
  then show "replied a m pr fd d" if "(fd, d) \<in> set acc" "'''' \<notin> set requests"
    using workD(1) [OF assms(1) that(1)] i that by (auto simp: unread_def)
qed

text \<open>As long as work is left there is something the poller has to report.\<close>

lemma work_pending:
  assumes "work lim sfd requests pr acc R [] m a" and "work_left a \<noteq> 0"
  shows "backlog a \<noteq> [] \<or> R \<noteq> {}"
proof (rule ccontr)
  assume "\<not> ?thesis"
  then have e: "backlog a = []" "R = {}" by simp_all
  have "inbox a fd = ''''" for fd
  proof (rule ccontr)
    assume n: "inbox a fd \<noteq> ''''"
    then obtain d where "(fd, d) \<in> set acc" using workD(2) [OF assms(1)] by fastforce
    from workD(1) [OF assms(1) this] e(2) n show False by (simp add: replied_def)
  qed
  with e(1) assms(2) show False by (simp add: work_left_def)
qed

text \<open>Requests that a session of the protocol answers after one receive.\<close>

definition requests_ok :: "(connection \<Rightarrow> session) \<Rightarrow> string list \<Rightarrow> bool" where
  "requests_ok pr requests \<longleftrightarrow> protocol_ok pr \<and> '''' \<notin> set requests \<and>
     (\<forall>d \<in> set requests. length d \<le> RECV_BUF_SZ) \<and> (\<forall>d \<in> set requests. \<forall>c. session_feed (pr c) d \<noteq> None)"

text \<open>A single-threaded TCP server that has accepted nobody yet.\<close>

definition ready_to_serve :: "nat \<Rightarrow> SOCKET \<Rightarrow> 'p server \<Rightarrow> arrivals \<Rightarrow> bool" where
  "ready_to_serve lim sfd s a \<longleftrightarrow> srv_class s = TCPServer \<and> srv_fd s = sfd \<and>
     srv_threads s = ThreadManager_new Threads_Single \<and> sfd \<in> opened a \<and> inbox a = (\<lambda>fd. '''') \<and>
     card (opened a) + length (backlog a) \<le> lim"

text \<open>
  The \<open>i\<close>th request came from a client on the descriptor \<open>fds ! i\<close>: what was sent there is the answer of a new
  session to this request, and the session kept for it is in the state after the answer.
\<close>

definition each_replied ::
  "(connection \<Rightarrow> session) \<Rightarrow> 'p server \<Rightarrow> SOCKET list \<Rightarrow> string list \<Rightarrow> (SOCKET \<Rightarrow> string) \<Rightarrow> bool" where
  "each_replied pr s fds requests sent \<longleftrightarrow> length fds = length requests \<and> distinct fds \<and>
     (\<forall>i < length requests. \<exists>x. manager_lookup thread_sessions (srv_threads s) (fds ! i) = Some x \<and>
        session_feed (pr (TCPConnection (fds ! i))) (requests ! i) = Some (sent (fds ! i), x))"

lemma session_iteration_feed:
  assumes "session_connection x = c" and "connection_recv os sl c w = (Inr d, w1)" and "d \<noteq> ''''"
    and "session_feed x d = Some (y, x')" and "connection_send os sl c y w1 = (Inr (), w2)"
  shows "session_iteration os sl x w = (Inr (), x', w2)"
  using assms by (cases x) (auto simp: Session_iteration_def LineSession_iteration_def io_bind_def)

lemma work_unread:
  assumes "work lim sfd requests pr acc R (e # es) m a" and "ev_type e = ClientDataReady"
  obtains d where "inbox a (ev_fd e) = d" and "d \<noteq> ''''" and "d \<in> set requests"
    and "m (ev_fd e) = Some (pr (TCPConnection (ev_fd e)))"
proof -
  have ne: "inbox a (ev_fd e) \<noteq> ''''" using assms by (simp add: work_def due_def)
  then obtain d where d: "(ev_fd e, d) \<in> set acc" using workD(2) [OF assms(1)] by fastforce
  from workD(1) [OF assms(1) d] ne have "unread a m pr (ev_fd e) d" by (simp add: replied_def)
  moreover have "requests = map snd acc @ backlog a" using assms(1) by (simp add: work_def)
  then have "d \<in> set requests" by (auto intro: rev_image_eqI [OF d])
  ultimately show ?thesis using ne that by (simp add: unread_def)
qed

lemma work_replied:
  assumes "work lim sfd requests pr acc R es (manager_lookup thread_sessions (srv_threads s)) a" and "work_left a = 0"
    and "requests_ok pr requests"
  shows "each_replied pr s (map fst acc) requests (outbox a)"
proof -
  let ?m = "manager_lookup thread_sessions (srv_threads s)"
  have "replied a ?m pr (fst (acc ! i)) (snd (acc ! i))" if "i < length acc" for i
    using work_done(3) [OF assms(1,2), of "fst (acc ! i)" "snd (acc ! i)"] nth_mem [OF that] assms(3)
    by (simp add: requests_ok_def)
  moreover have "distinct (map fst acc)" using assms(1) by (simp add: work_def)
  ultimately show ?thesis using work_done(2) [OF assms(1,2)] by (simp add: each_replied_def replied_def)
qed

lemma manager_lookup_single: "manager_lookup thread_sessions [Single t] = ts_sessions t"
  by (simp add: fun_eq_iff manager_lookup_def thread_index_mod)

subsection \<open>The event loop makes progress\<close>

text \<open>
  What the loop relies on. \<open>view\<close> observes what has arrived, \<open>ready p w\<close> are the clients the poller is
  going to report, and \<open>ok p F w\<close> holds of a poller that watches the clients \<open>F\<close>. Events that were not reported yet
  stay to be reported; a wait reports something if there is anything.
\<close>

locale server_progress =
  fixes pc :: "('p, 'w) platform_calls" and lim :: nat and sfd :: SOCKET and view :: "'w \<Rightarrow> arrivals"
    and ready :: "'p \<Rightarrow> 'w \<Rightarrow> SOCKET set" and ok :: "'p \<Rightarrow> SOCKET set \<Rightarrow> 'w \<Rightarrow> bool" and contract :: bool
  assumes wait_law: "contract \<Longrightarrow> ok p F w \<Longrightarrow> \<exists>es p' w'. pl_wait (pc_poller pc) p w = (Inr es, p', w') \<and> ok p' F w' \<and>
      view w' = view w \<and> due (view w) es \<and> ready p w \<subseteq> ready p' w' \<union> set (data_fds es) \<and>
      (es = [] \<longrightarrow> backlog (view w) = [] \<and> ready p w = {})"
    and add_law: "contract \<Longrightarrow> ok p F w \<Longrightarrow> fd \<notin> F \<Longrightarrow> fd \<noteq> sfd \<Longrightarrow> inbox (view w) fd \<noteq> '''' \<Longrightarrow>
      \<exists>p' w'. pl_add_client (pc_poller pc) fd p w = (Inr (), p', w') \<and> ok p' (insert fd F) w' \<and>
        view w' = view w \<and> insert fd (ready p w) \<subseteq> ready p' w'"
    and accept_law: "contract \<Longrightarrow> backlog (view w) \<noteq> [] \<Longrightarrow> card (opened (view w)) < lim \<Longrightarrow>
      \<exists>fd w'. TCPServer_accept (pc_os pc) (pc_net pc) sfd w = (Inr fd, w') \<and> fd \<notin> opened (view w) \<and>
        view w' = accepted fd (view w) \<and> (\<forall>p F. ok p F w \<longrightarrow> fd \<notin> F \<longrightarrow> ok p F w' \<and> ready p w \<subseteq> ready p w')"
    and recv_law: "contract \<Longrightarrow> inbox (view w) fd \<noteq> '''' \<Longrightarrow> length (inbox (view w) fd) \<le> RECV_BUF_SZ \<Longrightarrow>
      \<exists>w'. connection_recv (pc_os pc) (pc_ssl pc) (TCPConnection fd) w = (Inr (inbox (view w) fd), w') \<and>
        view w' = received fd RECV_BUF_SZ (view w) \<and> (\<forall>p F. ok p F w \<longrightarrow> ok p F w' \<and> ready p w - {fd} \<subseteq> ready p w')"
    and send_law: "contract \<Longrightarrow>
      \<exists>w'. connection_send (pc_os pc) (pc_ssl pc) (TCPConnection fd) d w = (Inr (), w') \<and>
        view w' = handed_over fd d (view w) \<and> (\<forall>p F. ok p F w \<longrightarrow> ok p F w' \<and> ready p w \<subseteq> ready p w')"
begin

text \<open>The server in the course of its work.\<close>

abbreviation progress ::
  "string list \<Rightarrow> (connection \<Rightarrow> session) \<Rightarrow> (SOCKET \<times> string) list \<Rightarrow> 'p server \<Rightarrow> session session_map \<Rightarrow> Event list \<Rightarrow> 'w \<Rightarrow> bool" where
  "progress requests pr acc s m es w \<equiv>
     srv_class s = TCPServer \<and> srv_fd s = sfd \<and> srv_protocol s = pr \<and> srv_threads s = [Single \<lparr> ts_sessions = m \<rparr>] \<and>
     ok (srv_poller s) (fst ` set acc) w \<and> work lim sfd requests pr acc (ready (srv_poller s) w) es m (view w)"

lemma accept_event:
  assumes c: contract and "protocol_ok pr" and "'''' \<notin> set requests"
    and "progress requests pr acc s m (e # es) w" and "ev_type e = NewClient"
  shows "\<exists>acc' s' m' w'. Server_event pc e s w = (Inr (), s', w') \<and> progress requests pr acc' s' m' es w' \<and>
    Suc (work_left (view w')) = work_left (view w)"
proof -
  have b: "backlog (view w) \<noteq> []" using assms(4,5) by (auto simp: work_def due_def)
  then have free: "card (opened (view w)) < lim" using assms(4) by (cases "backlog (view w)") (auto simp: work_def)
  obtain fd w1 where acc: "TCPServer_accept (pc_os pc) (pc_net pc) sfd w = (Inr fd, w1)" "fd \<notin> opened (view w)"
    "view w1 = accepted fd (view w)" "\<forall>p F. ok p F w \<longrightarrow> fd \<notin> F \<longrightarrow> ok p F w1 \<and> ready p w \<subseteq> ready p w1"
    using accept_law [OF c b free] by blast
  have new: "fd \<notin> fst ` set acc" "fd \<noteq> sfd" "m fd = None" using work_fresh [OF _ acc(2)] assms(4) by metis+
  have "hd (backlog (view w)) \<in> set requests" using assms(4) b by (simp add: work_def)
  with assms(3) have "inbox (view w1) fd \<noteq> ''''" by (auto simp: acc(3) accepted_def)
  then obtain p2 w2 where add: "pl_add_client (pc_poller pc) fd (srv_poller s) w1 = (Inr (), p2, w2)"
    "ok p2 (insert fd (fst ` set acc)) w2" "view w2 = view w1" "insert fd (ready (srv_poller s) w1) \<subseteq> ready p2 w2"
    using add_law [OF c _ new(1,2), of "srv_poller s" w1] assms(4) acc(4) new(1) by blast
  have R: "ready (srv_poller s) w \<subseteq> ready p2 w2" "fd \<in> ready p2 w2" using acc(4) add(4) assms(4) new(1) by blast+
  let ?m = "m(fd \<mapsto> pr (TCPConnection fd))"
  let ?s = "s\<lparr>srv_threads := [Single \<lparr> ts_sessions = ?m \<rparr>], srv_poller := p2\<rparr>"
  have fdx: "session_fd (pr (TCPConnection fd)) = fd" using assms(2) by (simp add: protocol_ok_def session_fd_def)
  have "Server_event pc e s w = (Inr (), ?s, w2)"
    using assms(4,5) acc(1) add(1) fdx new(3)
    by (simp add: Server_event_def Server_new_client_def ThreadManager_add_session_def at_thread_def thread_index_mod
        ThreadSingle_add_session_def drop_session_def)
  moreover note W = work_accept [OF _ assms(5) acc(2) R assms(3), of lim sfd pr acc es m]
  have "progress requests pr (acc @ [(fd, hd (backlog (view w)))]) ?s ?m es w2"
    using W(1) assms(4) add(2,3) acc(3) by simp
  moreover have "Suc (work_left (view w2)) = work_left (view w)" using W(2) assms(4) add(3) acc(3) by simp
  ultimately show ?thesis by blast
qed

lemma data_event:
  assumes c: contract and "\<forall>d \<in> set requests. length d \<le> RECV_BUF_SZ"
    and "\<forall>d \<in> set requests. \<forall>cn. session_feed (pr cn) d \<noteq> None" and "protocol_ok pr"
    and "progress requests pr acc s m (e # es) w" and "ev_type e = ClientDataReady"
  shows "\<exists>acc' s' m' w'. Server_event pc e s w = (Inr (), s', w') \<and> progress requests pr acc' s' m' es w' \<and>
    Suc (work_left (view w')) = work_left (view w)"
proof -
  let ?fd = "ev_fd e"
  have W: "work lim sfd requests pr acc (ready (srv_poller s) w) (e # es) m (view w)" using assms(5) by blast
  obtain d where d: "inbox (view w) ?fd = d" "d \<noteq> ''''" "d \<in> set requests" "m ?fd = Some (pr (TCPConnection ?fd))"
    by (rule work_unread [OF W assms(6)])
  obtain w1 where r: "connection_recv (pc_os pc) (pc_ssl pc) (TCPConnection ?fd) w = (Inr d, w1)"
    "view w1 = received ?fd RECV_BUF_SZ (view w)" "\<forall>p F. ok p F w \<longrightarrow> ok p F w1 \<and> ready p w - {?fd} \<subseteq> ready p w1"
    using recv_law [OF c, of w ?fd] d assms(2) by blast
  obtain y x where f: "session_feed (pr (TCPConnection ?fd)) d = Some (y, x)" using assms(3) d(3) by fastforce
  obtain w2 where t: "connection_send (pc_os pc) (pc_ssl pc) (TCPConnection ?fd) y w1 = (Inr (), w2)"
    "view w2 = handed_over ?fd y (view w1)" "\<forall>p F. ok p F w1 \<longrightarrow> ok p F w2 \<and> ready p w1 \<subseteq> ready p w2"
    using send_law [OF c] by blast
  have "session_connection (pr (TCPConnection ?fd)) = TCPConnection ?fd" using assms(4) by (simp add: protocol_ok_def)
  then have it: "session_iteration (pc_os pc) (pc_ssl pc) (pr (TCPConnection ?fd)) w = (Inr (), x, w2)"
    by (rule session_iteration_feed [OF _ r(1) d(2) f t(1)])
  let ?m = "m(?fd \<mapsto> x)"
  have "Server_event pc e s w = (Inr (), s\<lparr>srv_threads := [Single \<lparr> ts_sessions = ?m \<rparr>]\<rparr>, w2)"
    using assms(5,6) d(4) it by (simp add: Server_event_def ThreadManager_single_dispatch)
  moreover have R: "ready (srv_poller s) w - {?fd} \<subseteq> ready (srv_poller s) w2" and k: "ok (srv_poller s) (fst ` set acc) w2"
    using r(3) t(3) assms(5) by blast+
  note read = work_read [OF W assms(6) _ R, of y x RECV_BUF_SZ]
  have "progress requests pr acc (s\<lparr>srv_threads := [Single \<lparr> ts_sessions = ?m \<rparr>]\<rparr>) ?m es w2"
    "Suc (work_left (view w2)) = work_left (view w)"
    using read assms(2,5) d f k by (simp_all add: t(2) r(2))
  ultimately show ?thesis by blast
qed

text \<open>A batch is handled without an exception, and every event of it is work done.\<close>

lemma events_progress:
  assumes c: contract and "requests_ok pr requests" and "progress requests pr acc s m es w"
  shows "\<exists>acc' s' m' w'. Server_events pc es s w = (Inr (), s', w') \<and> progress requests pr acc' s' m' [] w' \<and>
    work_left (view w') + length es = work_left (view w)"
  using assms(3)
proof (induction es arbitrary: acc s m w)
  case Nil
  then show ?case by (intro exI [of _ acc] exI [of _ s] exI [of _ m] exI [of _ w]) simp
next
  case (Cons e es)
  have "ev_type e = NewClient \<or> ev_type e = ClientDataReady"
    using Cons.prems by (cases "ev_type e") (auto simp: work_def due_def)
  then obtain acc1 s1 m1 w1 where e: "Server_event pc e s w = (Inr (), s1, w1)"
    "progress requests pr acc1 s1 m1 es w1" "Suc (work_left (view w1)) = work_left (view w)"
    using accept_event [OF c _ _ Cons.prems] data_event [OF c _ _ _ Cons.prems] assms(2)
    unfolding requests_ok_def by blast
  from Cons.IH [OF e(2)] obtain acc' s' m' w' where "Server_events pc es s1 w1 = (Inr (), s', w')"
    "progress requests pr acc' s' m' [] w'" "work_left (view w') + length es = work_left (view w1)" by blast
  with e show ?case by (intro exI [of _ acc'] exI [of _ s'] exI [of _ m'] exI [of _ w']) simp
qed

lemma iterate_progress:
  assumes c: contract and "requests_ok pr requests" and "progress requests pr acc s m [] w"
  shows "\<exists>acc' s' m' w'. Server_iterate pc s w = (Inr (), s', w') \<and> progress requests pr acc' s' m' [] w' \<and>
    work_left (view w') \<le> work_left (view w) - 1"
proof -
  obtain es p w1 where wt: "pl_wait (pc_poller pc) (srv_poller s) w = (Inr es, p, w1)" "ok p (fst ` set acc) w1"
    "view w1 = view w" "due (view w) es" "ready (srv_poller s) w \<subseteq> ready p w1 \<union> set (data_fds es)"
    "es = [] \<longrightarrow> backlog (view w) = [] \<and> ready (srv_poller s) w = {}"
    using wait_law [OF c, of "srv_poller s" "fst ` set acc" w] assms(3) by blast
  have "work lim sfd requests pr acc (ready p w1) es m (view w)" using work_wait [OF _ wt(4,5)] assms(3) by blast
  then have "progress requests pr acc (s\<lparr>srv_poller := p\<rparr>) m es w1" using assms(3) wt(2,3) by simp
  from events_progress [OF c assms(2) this] obtain acc' s' m' w' where
    ev: "Server_events pc es (s\<lparr>srv_poller := p\<rparr>) w1 = (Inr (), s', w')" "progress requests pr acc' s' m' [] w'"
    "work_left (view w') + length es = work_left (view w1)" by blast
  have "es \<noteq> [] \<or> work_left (view w) = 0" using wt(6) work_pending assms(3) by blast
  with ev wt(1,3) show ?thesis
    by (intro exI [of _ acc'] exI [of _ s'] exI [of _ m'] exI [of _ w']) (cases es, auto simp: Server_iterate_def)
qed

lemma iterations_progress:
  assumes c: contract and "requests_ok pr requests" and "progress requests pr acc s m [] w"
  shows "\<exists>acc' s' m' w'. Server_iterations pc n s w = (Inr (), s', w') \<and> progress requests pr acc' s' m' [] w' \<and>
    work_left (view w') \<le> work_left (view w) - n"
  using assms(3)
proof (induction n arbitrary: acc s m w)
  case 0
  then show ?case by (intro exI [of _ acc] exI [of _ s] exI [of _ m] exI [of _ w]) simp
next
  case (Suc n)
  from iterate_progress [OF c assms(2) Suc.prems] obtain acc1 s1 m1 w1 where
    it: "Server_iterate pc s w = (Inr (), s1, w1)" "progress requests pr acc1 s1 m1 [] w1"
    "work_left (view w1) \<le> work_left (view w) - 1" by blast
  from Suc.IH [OF it(2)] obtain acc' s' m' w' where "Server_iterations pc n s1 w1 = (Inr (), s', w')"
    "progress requests pr acc' s' m' [] w'" "work_left (view w') \<le> work_left (view w1) - n" by blast
  with it show ?case by (intro exI [of _ acc'] exI [of _ s'] exI [of _ m'] exI [of _ w']) simp
qed

text \<open>From a server that has accepted nobody yet.\<close>

lemma all_answered_in_time:
  assumes c: contract and "requests_ok (srv_protocol s) (backlog (view w))" and "ready_to_serve lim sfd s (view w)"
    and "ok (srv_poller s) {} w" and "2 * length (backlog (view w)) \<le> n"
  shows "\<exists>s' w' fds. Server_iterations pc n s w = (Inr (), s', w') \<and> backlog (view w') = [] \<and>
    each_replied (srv_protocol s) s' fds (backlog (view w)) (outbox (view w'))"
proof -
  let ?pr = "srv_protocol s" and ?rq = "backlog (view w)"
  have "work lim sfd ?rq ?pr [] (ready (srv_poller s) w) [] Map.empty (view w)" and l: "work_left (view w) = 2 * length ?rq"
    using assms(3) by (simp_all add: work_def due_def ready_to_serve_def work_left_def)
  then have "progress ?rq ?pr [] s Map.empty [] w"
    using assms(3,4) by (simp add: ready_to_serve_def ThreadSingle_new_def)
  from iterations_progress [OF c assms(2) this, of n] l assms(5) obtain acc s' m w' where
    r: "Server_iterations pc n s w = (Inr (), s', w')" "progress ?rq ?pr acc s' m [] w'" "work_left (view w') = 0" by auto
  then have W: "work lim sfd ?rq ?pr acc (ready (srv_poller s') w') [] m (view w')" by blast
  then have "work lim sfd ?rq ?pr acc (ready (srv_poller s') w') [] (manager_lookup thread_sessions (srv_threads s')) (view w')"
    using r(2) by (simp add: manager_lookup_single)
  from work_replied [OF this r(3) assms(2)] r(1) work_done(1) [OF W r(3)] show ?thesis by blast
qed

end

subsection \<open>The socket calls\<close>

text \<open>
  The calls on sockets when nothing more arrives while the server works. \<open>watch\<close> observes the
  clients registered with the kernel's poller, and for each of them whether it is going to be
  reported. A receive on a descriptor with input takes as much of it as there is room for, a send takes all of its data,
  accepting with a client waiting opens a new descriptor, on which the client's request can be read and
  which is not registered, as long as fewer than \<open>lim\<close> descriptors are open.
\<close>

definition quiet_sockets ::
  "('w, 'z) os_scheme \<Rightarrow> ('w, 'n) net_scheme \<Rightarrow> nat \<Rightarrow> SOCKET \<Rightarrow> ('w \<Rightarrow> arrivals) \<Rightarrow> ('w \<Rightarrow> SOCKET \<rightharpoonup> bool) \<Rightarrow> bool" where
  [contract_defs]: "quiet_sockets os nt lim sfd view watch \<longleftrightarrow>
     (\<forall>fd n w. inbox (view w) fd \<noteq> '''' \<longrightarrow> 0 < n \<longrightarrow>
        (\<exists>b w'. os_recv os fd n w = ((int (length b), b), w') \<and> b = take n (inbox (view w) fd) \<and>
          view w' = received fd n (view w) \<and> dom (watch w') = dom (watch w) \<and>
          (\<forall>x. x \<noteq> fd \<longrightarrow> watch w' x = watch w x))) \<and>
     (\<forall>fd d w. \<exists>w'. os_send os fd d w = (int (length d), w') \<and>
        view w' = handed_over fd d (view w) \<and> watch w' = watch w) \<and>
     (\<forall>w. backlog (view w) \<noteq> [] \<longrightarrow> card (opened (view w)) < lim \<longrightarrow>
        (\<exists>fd w'. net_accept nt sfd w = (fd, w') \<and> fd \<noteq> INVALID_SOCKET \<and> fd \<notin> opened (view w) \<and>
          view w' = accepted fd (view w) \<and> watch w' = (watch w)(fd := None))) \<and>
     (\<forall>fd w. \<exists>fl w'. os_fcntl_getfl os fd w = (fl, w') \<and> fl \<noteq> -1 \<and> view w' = view w \<and> watch w' = watch w) \<and>
     (\<forall>fd fl w. \<exists>r w'. os_fcntl_setfl os fd fl w = (r, w') \<and> 0 \<le> r \<and> view w' = view w \<and> watch w' = watch w) \<and>
     (\<forall>fd w. \<exists>w'. os_ioctl_fionbio os fd w = (0, w') \<and> view w' = view w \<and> watch w' = watch w) \<and>
     (\<forall>fd. keeps (\<lambda>w. (view w, watch w)) (net_getnameinfo nt fd)) \<and>
     (\<forall>lg w. view (os_set_logger os lg w) = view w \<and> watch (os_set_logger os lg w) = watch w)"

lemma quiet_socketsD:
  assumes "quiet_sockets os nt lim sfd view watch"
  shows "inbox (view w) fd \<noteq> '''' \<Longrightarrow> 0 < n \<Longrightarrow>
      \<exists>b w'. os_recv os fd n w = ((int (length b), b), w') \<and> b = take n (inbox (view w) fd) \<and>
        view w' = received fd n (view w) \<and> dom (watch w') = dom (watch w) \<and> (\<forall>x. x \<noteq> fd \<longrightarrow> watch w' x = watch w x)"
    and "\<exists>w'. os_send os fd d w = (int (length d), w') \<and> view w' = handed_over fd d (view w) \<and> watch w' = watch w"
    and "backlog (view w) \<noteq> [] \<Longrightarrow> card (opened (view w)) < lim \<Longrightarrow>
      \<exists>fd w'. net_accept nt sfd w = (fd, w') \<and> fd \<noteq> INVALID_SOCKET \<and> fd \<notin> opened (view w) \<and>
        view w' = accepted fd (view w) \<and> watch w' = (watch w)(fd := None)"
    and "\<exists>fl w'. os_fcntl_getfl os fd w = (fl, w') \<and> fl \<noteq> -1 \<and> view w' = view w \<and> watch w' = watch w"
    and "\<exists>r w'. os_fcntl_setfl os fd fl w = (r, w') \<and> 0 \<le> r \<and> view w' = view w \<and> watch w' = watch w"
    and "\<exists>w'. os_ioctl_fionbio os fd w = (0, w') \<and> view w' = view w \<and> watch w' = watch w"
    and "keeps (\<lambda>w. (view w, watch w)) (net_getnameinfo nt fd)"
    and "view (log_with os f w) = view w" and "watch (log_with os f w) = watch w"
  using assms unfolding quiet_sockets_def log_with_def by simp_all

lemma quiet_mark_nonblocking:
  assumes "quiet_sockets os nt lim sfd view watch"
  obtains w' where "socket_mark_as_nonblocking os fd w = (Inr (), w')" and "view w' = view w" and "watch w' = watch w"
proof (cases "os_platform os")
  case Win32
  obtain w' where "os_ioctl_fionbio os fd w = (0, w')" "view w' = view w" "watch w' = watch w"
    using quiet_socketsD(6) [OF assms] by blast
  with Win32 show ?thesis using that by (simp add: socket_mark_as_nonblocking_def io_bind_call)
next
  case Posix
  obtain fl w1 where g: "os_fcntl_getfl os fd w = (fl, w1)" "fl \<noteq> -1" "view w1 = view w" "watch w1 = watch w"
    using quiet_socketsD(4) [OF assms] by blast
  obtain r w' where "os_fcntl_setfl os fd (fl OR os_O_NONBLOCK os) w1 = (r, w')" "0 \<le> r" "view w' = view w1" "watch w' = watch w1"
    using quiet_socketsD(5) [OF assms] by blast
  with Posix g show ?thesis using that by (simp add: socket_mark_as_nonblocking_def io_bind_call)
qed

lemma quiet_accept:
  assumes "quiet_sockets os nt lim sfd view watch" and "backlog (view w) \<noteq> []" and "card (opened (view w)) < lim"
  obtains fd w' where "TCPServer_accept os nt sfd w = (Inr fd, w')" and "fd \<notin> opened (view w)"
    and "view w' = accepted fd (view w)" and "watch w' = (watch w)(fd := None)"
proof -
  obtain fd w1 where a: "net_accept nt sfd w = (fd, w1)" "fd \<noteq> INVALID_SOCKET" "fd \<notin> opened (view w)"
    "view w1 = accepted fd (view w)" "watch w1 = (watch w)(fd := None)"
    using quiet_socketsD(3) [OF assms] by blast
  obtain r h t w2 where n: "net_getnameinfo nt fd w1 = ((r, h, t), w2)" by (metis prod.exhaust)
  from keepsD [OF quiet_socketsD(7) [OF assms(1)] n] have w2: "view w2 = view w1" "watch w2 = watch w1" by simp_all
  define w3 where "w3 = (if r = 0 then log_with os (DBG (''New connection from '' @ h @ '':'' @ t @
      '' as fd '' @ show_int (sint fd))) w2 else w2)"
  have w3: "view w3 = view w1" "watch w3 = watch w1"
    using quiet_socketsD(8,9) [OF assms(1)] w2 by (simp_all add: w3_def)
  obtain w4 where m: "socket_mark_as_nonblocking os fd w3 = (Inr (), w4)" "view w4 = view w3" "watch w4 = watch w3"
    by (rule quiet_mark_nonblocking [OF assms(1)])
  have "TCPServer_accept os nt sfd w = (Inr fd, w4)"
    using a(1,2) n m(1) by (cases "r = 0") (simp_all add: TCPServer_accept_def io_bind_call w3_def)
  with a m w3 show ?thesis using that by simp
qed

lemma quiet_recv:
  assumes "quiet_sockets os nt lim sfd view watch" and "inbox (view w) fd \<noteq> ''''" and "length (inbox (view w) fd) \<le> RECV_BUF_SZ"
  obtains w' where "connection_recv os sl (TCPConnection fd) w = (Inr (inbox (view w) fd), w')"
    and "view w' = received fd RECV_BUF_SZ (view w)" and "dom (watch w') = dom (watch w)" and "\<forall>x. x \<noteq> fd \<longrightarrow> watch w' x = watch w x"
proof -
  have "0 < RECV_BUF_SZ" by (simp add: RECV_BUF_SZ_def)
  then obtain b w' where r: "os_recv os fd RECV_BUF_SZ w = ((int (length b), b), w')" "b = take RECV_BUF_SZ (inbox (view w) fd)"
    "view w' = received fd RECV_BUF_SZ (view w)" "dom (watch w') = dom (watch w)" "\<forall>x. x \<noteq> fd \<longrightarrow> watch w' x = watch w x"
    using quiet_socketsD(1) [OF assms(1,2)] by blast
  with assms(2,3) have "TCPConnection_recv os fd w = (Inr (inbox (view w) fd), w')"
    by (simp add: TCPConnection_recv_def io_bind_call recv_result_data)
  with r show ?thesis using that by simp
qed

lemma quiet_send:
  assumes "quiet_sockets os nt lim sfd view watch"
  obtains w' where "connection_send os sl (TCPConnection fd) d w = (Inr (), w')"
    and "view w' = handed_over fd d (view w)" and "watch w' = watch w"
proof (cases "d = ''''")
  case True
  then have "TCPConnection_send os fd d w = (Inr (), w)" by (simp add: TCPConnection_send_def send_loop_done)
  moreover have "handed_over fd '''' (view w) = view w" by (simp add: handed_over_def)
  ultimately show ?thesis using True that by simp
next
  case False
  obtain w' where w': "os_send os fd d w = (int (length d), w')" "view w' = handed_over fd d (view w)" "watch w' = watch w"
    using quiet_socketsD(2) [OF assms] by blast
  have "0 < length d" using False by simp
  from send_loop_round [where call = "os_send os fd d", OF this w'(1)]
  have "send_loop (os_send os fd d) (send_error os) (length d) 0 w = Some (Inr (), w')" by (simp add: send_loop_done)
  with w' show ?thesis using that by (simp add: TCPConnection_send_def)
qed

subsection \<open>Linux\<close>

text \<open>The clients that are going to be reported.\<close>

definition to_report :: "('w \<Rightarrow> SOCKET \<rightharpoonup> bool) \<Rightarrow> 'w \<Rightarrow> SOCKET set" where
  "to_report watch w = {fd. watch w fd = Some True}"

text \<open>
  epoll in the same circumstances: registering a client that is not registered yet succeeds and notes input
  that is already there; \<^verbatim>\<open>epoll_wait\<close> reports the listening socket only if a client waits to be accepted, and clients
  only if they have input and were not reported before; it reports something if there is something to report, and
  what it does not report, it reports later.
\<close>

definition quiet_epoll_wait ::
  "('w, 'e) epoll_scheme \<Rightarrow> SOCKET \<Rightarrow> SOCKET \<Rightarrow> ('w \<Rightarrow> arrivals) \<Rightarrow> ('w \<Rightarrow> SOCKET \<rightharpoonup> bool) \<Rightarrow> bool" where
  [contract_defs]: "quiet_epoll_wait ep epfd sfd view watch \<longleftrightarrow>
     (\<forall>n t w. 0 < n \<longrightarrow>
        (\<exists>evs w'. ep_wait ep epfd n t w = ((int (length evs), evs), w') \<and> distinct (map snd evs) \<and>
          (\<forall>(fl, fd) \<in> set evs. fl = EPOLLIN \<and>
             (if fd = sfd then backlog (view w) \<noteq> [] else fd \<in> to_report watch w \<and> inbox (view w) fd \<noteq> '''')) \<and>
          (evs = [] \<longrightarrow> backlog (view w) = [] \<and> to_report watch w = {}) \<and>
          view w' = view w \<and> dom (watch w') = dom (watch w) \<and> to_report watch w - snd ` set evs \<subseteq> to_report watch w'))"

definition quiet_epoll ::
  "('w, 'e) epoll_scheme \<Rightarrow> SOCKET \<Rightarrow> SOCKET \<Rightarrow> ('w \<Rightarrow> arrivals) \<Rightarrow> ('w \<Rightarrow> SOCKET \<rightharpoonup> bool) \<Rightarrow> bool" where
  [contract_defs]: "quiet_epoll ep epfd sfd view watch \<longleftrightarrow>
     (\<forall>fd fl w. fd \<noteq> sfd \<longrightarrow> fd \<notin> dom (watch w) \<longrightarrow> fl AND EPOLLIN \<noteq> 0 \<longrightarrow>
        (\<exists>w'. ep_ctl_add ep epfd fd fl fd w = (0, w') \<and> view w' = view w \<and>
          watch w' = (watch w)(fd \<mapsto> inbox (view w) fd \<noteq> ''''))) \<and>
     quiet_epoll_wait ep epfd sfd view watch"

text \<open>
  A batch in which no client is disconnected: the loop over the entries makes no call, each entry gives one event,
  and the batch is due if the listening socket is reported for a waiting client and the clients for their input.
\<close>

lemma event_loop_pure:
  "(\<And>e w. e \<in> set es \<Longrightarrow> step e w = (Inr (class_event cls key e), w)) \<Longrightarrow>
     event_loop step es w = (Inr (class_events cls key es), w)"
  by (induction es) auto

lemma quiet_batch:
  assumes "\<forall>e \<in> set es. cls e = Some (if key e = sfd then NewClient else ClientDataReady)"
  shows "data_fds (class_events cls key es) = filter (\<lambda>fd. fd \<noteq> sfd) (map key es)"
    and "news (class_events cls key es) = count_list (map key es) sfd"
    and "e \<in> set (class_events cls key es) \<Longrightarrow> ev_type e \<noteq> ClientDisconnected"
    and "class_events cls key es = [] \<longleftrightarrow> es = []"
  using assms by (induction es) (auto simp: class_event_def split: if_splits)

lemma count_list_distinct: "distinct xs \<Longrightarrow> count_list xs x = (if x \<in> set xs then 1 else 0)"
  by (induction xs) auto

lemma due_batch:
  assumes "\<forall>e \<in> set es. cls e = Some (if key e = sfd then NewClient else ClientDataReady)"
    and "distinct (map key es)"
    and "\<forall>e \<in> set es. if key e = sfd then backlog a \<noteq> [] else inbox a (key e) \<noteq> ''''"
  shows "due a (class_events cls key es)"
proof -
  have "count_list (map key es) sfd = (if sfd \<in> key ` set es then 1 else 0)"
    using count_list_distinct [OF assms(2)] by simp
  also have "\<dots> \<le> length (backlog a)" using assms(3) by (cases "backlog a") (auto split: if_splits)
  finally show ?thesis using quiet_batch [OF assms(1)] assms(2,3) by (auto simp: due_def)
qed

lemma linux_event_quiet:
  "linux_event os ep p (EPOLLIN, fd) w = (Inr (class_event (linux_class (lp_server_fd p)) snd (EPOLLIN, fd)), w)"
  by (simp add: linux_event_def class_event_def linux_class_def EPOLLIN_def EPOLLERR_def EPOLLHUP_def EPOLLRDHUP_def EPOLLET_def)

lemma LinuxPoller_wait_batch:
  assumes "quiet_epoll_wait ep (epoll_fd p) (lp_server_fd p) view watch"
  obtains evs w' where "ep_wait ep (epoll_fd p) EVENT_BUFFER_SZ (int_of_count t) w = ((int (length evs), evs), w')"
    and "LinuxPoller_wait os ep t p w = (Inr (class_events (linux_class (lp_server_fd p)) snd evs), w')"
    and "\<forall>x \<in> set evs. linux_class (lp_server_fd p) x = Some (if snd x = lp_server_fd p then NewClient else ClientDataReady)"
    and "due (view w) (class_events (linux_class (lp_server_fd p)) snd evs)"
    and "\<forall>x \<in> set evs. snd x \<noteq> lp_server_fd p \<longrightarrow> snd x \<in> to_report watch w"
    and "evs = [] \<longrightarrow> backlog (view w) = [] \<and> to_report watch w = {}" and "view w' = view w" and "dom (watch w') = dom (watch w)"
    and "to_report watch w - snd ` set evs \<subseteq> to_report watch w'"
proof -
  let ?s = "lp_server_fd p"
  have "0 < EVENT_BUFFER_SZ" by (simp add: EVENT_BUFFER_SZ_def)
  then obtain evs w' where e: "ep_wait ep (epoll_fd p) EVENT_BUFFER_SZ (int_of_count t) w = ((int (length evs), evs), w')"
    "distinct (map snd evs)" "\<forall>(fl, fd) \<in> set evs. fl = EPOLLIN \<and>
        (if fd = ?s then backlog (view w) \<noteq> [] else fd \<in> to_report watch w \<and> inbox (view w) fd \<noteq> '''')"
    "evs = [] \<longrightarrow> backlog (view w) = [] \<and> to_report watch w = {}" "view w' = view w" "dom (watch w') = dom (watch w)"
    "to_report watch w - snd ` set evs \<subseteq> to_report watch w'"
    using assms unfolding quiet_epoll_wait_def by meson
  let ?es = "class_events (linux_class ?s) snd evs"
  have cls: "\<forall>x \<in> set evs. linux_class ?s x = Some (if snd x = ?s then NewClient else ClientDataReady)"
    using e(3) by (auto simp: linux_class_def EPOLLIN_def EPOLLERR_def EPOLLHUP_def EPOLLRDHUP_def EPOLLET_def)
  have "event_loop (linux_event os ep p) evs w' = (Inr ?es, w')"
    by (rule event_loop_pure) (use e(3) linux_event_quiet in fastforce)
  then have "LinuxPoller_wait os ep t p w = (Inr ?es, w')" by (simp add: LinuxPoller_wait_def io_bind_call e(1))
  moreover have "due (view w) ?es" using e(3) by (intro due_batch [OF cls e(2)]) auto
  moreover have "\<forall>x \<in> set evs. snd x \<noteq> ?s \<longrightarrow> snd x \<in> to_report watch w" using e(3) by auto
  ultimately show ?thesis using that e(1,4-7) cls by blast
qed

lemma LinuxPoller_wait_quiet:
  assumes "quiet_epoll ep (epoll_fd p) (lp_server_fd p) view watch" and "dom (watch w) = F" and "lp_server_fd p \<notin> F"
  shows "\<exists>es w'. LinuxPoller_wait os ep t p w = (Inr es, w') \<and> dom (watch w') = F \<and> view w' = view w \<and>
    due (view w) es \<and> to_report watch w \<subseteq> to_report watch w' \<union> set (data_fds es) \<and>
    (es = [] \<longrightarrow> backlog (view w) = [] \<and> to_report watch w = {})"
proof -
  have q: "quiet_epoll_wait ep (epoll_fd p) (lp_server_fd p) view watch" using assms(1) by (simp add: quiet_epoll_def)
  obtain evs w' where e: "LinuxPoller_wait os ep t p w = (Inr (class_events (linux_class (lp_server_fd p)) snd evs), w')"
    "\<forall>x \<in> set evs. linux_class (lp_server_fd p) x = Some (if snd x = lp_server_fd p then NewClient else ClientDataReady)"
    "due (view w) (class_events (linux_class (lp_server_fd p)) snd evs)"
    "evs = [] \<longrightarrow> backlog (view w) = [] \<and> to_report watch w = {}" "view w' = view w" "dom (watch w') = dom (watch w)"
    "to_report watch w - snd ` set evs \<subseteq> to_report watch w'"
    by (rule LinuxPoller_wait_batch [OF q, of t w os])
  have "to_report watch w \<subseteq> to_report watch w' \<union> set (data_fds (class_events (linux_class (lp_server_fd p)) snd evs))"
    using e(7) assms(2,3) by (auto simp: quiet_batch(1) [OF e(2)] to_report_def)
  with e assms(2) quiet_batch(4) [OF e(2)] show ?thesis by blast
qed

lemma LinuxPoller_add_quiet:
  assumes "quiet_epoll ep (epoll_fd p) sfd view watch" and "fd \<noteq> sfd" and "fd \<notin> dom (watch w)" and "inbox (view w) fd \<noteq> ''''"
  shows "\<exists>w'. LinuxPoller_add_client os ep fd p w = (Inr (), w') \<and> view w' = view w \<and> watch w' = (watch w)(fd \<mapsto> True)"
proof -
  have "(EPOLLIN OR EPOLLET OR EPOLLRDHUP OR EPOLLHUP OR EPOLLERR) AND EPOLLIN \<noteq> 0"
    by (simp add: EPOLLIN_def EPOLLERR_def EPOLLHUP_def EPOLLRDHUP_def EPOLLET_def)
  then obtain w' where "ep_ctl_add ep (epoll_fd p) fd (EPOLLIN OR EPOLLET OR EPOLLRDHUP OR EPOLLHUP OR EPOLLERR) fd w = (0, w')"
    "view w' = view w" "watch w' = (watch w)(fd \<mapsto> inbox (view w) fd \<noteq> '''')"
    using assms(1-3) unfolding quiet_epoll_def by meson
  with assms(4) show ?thesis by (simp add: LinuxPoller_add_client_def io_bind_call)
qed

text \<open>What the calls on sockets mean for a kernel poller, epoll or kqueue.\<close>

lemma quiet_watch_accept:
  assumes "quiet_sockets os nt lim sfd view watch" and "backlog (view w) \<noteq> []" and "card (opened (view w)) < lim"
  shows "\<exists>fd w'. TCPServer_accept os nt sfd w = (Inr fd, w') \<and> fd \<notin> opened (view w) \<and>
    view w' = accepted fd (view w) \<and>
    (fd \<notin> dom (watch w) \<longrightarrow> dom (watch w') = dom (watch w) \<and> to_report watch w \<subseteq> to_report watch w')"
  by (rule quiet_accept [OF assms]) (auto simp: to_report_def)

lemma quiet_watch_recv:
  assumes "quiet_sockets os nt lim sfd view watch" and "inbox (view w) fd \<noteq> ''''" and "length (inbox (view w) fd) \<le> RECV_BUF_SZ"
  shows "\<exists>w'. connection_recv os sl (TCPConnection fd) w = (Inr (inbox (view w) fd), w') \<and>
    view w' = received fd RECV_BUF_SZ (view w) \<and> dom (watch w') = dom (watch w) \<and> to_report watch w - {fd} \<subseteq> to_report watch w'"
  by (rule quiet_recv [OF assms, of sl]) (auto simp: to_report_def)

lemma quiet_watch_send:
  assumes "quiet_sockets os nt lim sfd view watch"
  shows "\<exists>w'. connection_send os sl (TCPConnection fd) d w = (Inr (), w') \<and>
    view w' = handed_over fd d (view w) \<and> dom (watch w') = dom (watch w) \<and> to_report watch w \<subseteq> to_report watch w'"
  by (rule quiet_send [OF assms, of sl fd d w]) (auto simp: to_report_def)

lemmas quiet_watch = quiet_watch_accept quiet_watch_recv quiet_watch_send

interpretation lin_prog: server_progress "linux_calls os sl nt ep" lim sfd view "\<lambda>p. to_report watch"
  "\<lambda>p F w. epoll_fd p = epfd \<and> lp_server_fd p = sfd \<and> sfd \<notin> F \<and> dom (watch w) = F"
  "quiet_sockets os nt lim sfd view watch \<and> quiet_epoll ep epfd sfd view watch"
  for os :: "'w os" and sl :: "'w openssl" and nt :: "'w net" and ep :: "('w, 'e) epoll_scheme" and lim :: nat and sfd epfd :: SOCKET
    and view :: "'w \<Rightarrow> arrivals" and watch :: "'w \<Rightarrow> SOCKET \<rightharpoonup> bool"
proof (unfold_locales, goal_cases)
  case (1 p F w)
  then have "\<exists>es w'. LinuxPoller_wait os ep wait_timeout p w = (Inr es, w') \<and> dom (watch w') = F \<and> view w' = view w \<and>
      due (view w) es \<and> to_report watch w \<subseteq> to_report watch w' \<union> set (data_fds es) \<and>
      (es = [] \<longrightarrow> backlog (view w) = [] \<and> to_report watch w = {})"
    by (intro LinuxPoller_wait_quiet) auto
  with 1 show ?case by (fastforce simp: linux_calls_def LinuxPoller_def)
next
  case (2 p F w fd)
  with LinuxPoller_add_quiet [of ep p sfd view watch fd w os] show ?case
    by (fastforce simp: linux_calls_def LinuxPoller_def to_report_def)
next
  case (3 w)
  with quiet_watch(1) [of os nt lim sfd view watch w] show ?case by (fastforce simp: linux_calls_def)
next
  case (4 w fd)
  with quiet_watch(2) [of os nt lim sfd view watch w fd sl] show ?case by (fastforce simp: linux_calls_def)
next
  case (5 fd d w)
  with quiet_watch(3) [of os nt lim sfd view watch sl fd d w] show ?case by (fastforce simp: linux_calls_def)
qed

subsection \<open>BSD and macOS\<close>

text \<open>kqueue in the same circumstances; a filter without \<^verbatim>\<open>EV_CLEAR\<close> goes on being reported until the input is read.\<close>

definition quiet_kqueue ::
  "('w, 'k) kqueue_scheme \<Rightarrow> SOCKET \<Rightarrow> SOCKET \<Rightarrow> ('w \<Rightarrow> arrivals) \<Rightarrow> ('w \<Rightarrow> SOCKET \<rightharpoonup> bool) \<Rightarrow> bool" where
  [contract_defs]: "quiet_kqueue kq kfd sfd view watch \<longleftrightarrow>
     (\<forall>fd w. fd \<noteq> sfd \<longrightarrow> fd \<notin> dom (watch w) \<longrightarrow>
        (\<exists>w'. kq_change kq kfd (scast fd) (EV_ADD OR EV_ENABLE) w = (0, w') \<and> view w' = view w \<and>
          watch w' = (watch w)(fd \<mapsto> inbox (view w) fd \<noteq> ''''))) \<and>
     (\<forall>n t w. 0 < n \<longrightarrow>
        (\<exists>evs w'. kq_wait kq kfd n t w = ((int (length evs), evs), w') \<and> distinct (map bsd_key evs) \<and>
          (\<forall>(i, fl) \<in> set evs. fl AND EV_EOF = 0 \<and>
             (if ucast i = sfd then backlog (view w) \<noteq> [] else ucast i \<in> to_report watch w \<and> inbox (view w) (ucast i) \<noteq> '''')) \<and>
          (evs = [] \<longrightarrow> backlog (view w) = [] \<and> to_report watch w = {}) \<and>
          view w' = view w \<and> dom (watch w') = dom (watch w) \<and> to_report watch w - bsd_key ` set evs \<subseteq> to_report watch w'))"

lemma bsd_event_quiet:
  "fl AND EV_EOF = 0 \<Longrightarrow> bsd_event os kq p (i, fl) w = (Inr (class_event (bsd_class (bp_server_fd p)) bsd_key (i, fl)), w)"
  by (simp add: bsd_event_def class_event_def bsd_class_def Let_def)

lemma BsdPoller_wait_quiet:
  assumes "quiet_kqueue kq (kqueue_fd p) (bp_server_fd p) view watch" and "dom (watch w) = F" and "bp_server_fd p \<notin> F"
  shows "\<exists>es w'. BsdPoller_wait os kq t p w = (Inr es, w') \<and> dom (watch w') = F \<and> view w' = view w \<and>
    due (view w) es \<and> to_report watch w \<subseteq> to_report watch w' \<union> set (data_fds es) \<and>
    (es = [] \<longrightarrow> backlog (view w) = [] \<and> to_report watch w = {})"
proof -
  let ?s = "bp_server_fd p"
  have "0 < EVENT_BUFFER_SZ" by (simp add: EVENT_BUFFER_SZ_def)
  then obtain evs w' where e: "kq_wait kq (kqueue_fd p) EVENT_BUFFER_SZ (0, t * 1000000) w = ((int (length evs), evs), w')"
    "distinct (map bsd_key evs)" "\<forall>(i, fl) \<in> set evs. fl AND EV_EOF = 0 \<and>
        (if ucast i = ?s then backlog (view w) \<noteq> [] else ucast i \<in> to_report watch w \<and> inbox (view w) (ucast i) \<noteq> '''')"
    "evs = [] \<longrightarrow> backlog (view w) = [] \<and> to_report watch w = {}" "view w' = view w" "dom (watch w') = dom (watch w)"
    "to_report watch w - bsd_key ` set evs \<subseteq> to_report watch w'"
    using assms(1) unfolding quiet_kqueue_def by meson
  let ?es = "class_events (bsd_class ?s) bsd_key evs"
  have cls: "\<forall>x \<in> set evs. bsd_class ?s x = Some (if bsd_key x = ?s then NewClient else ClientDataReady)"
    using e(3) by (auto simp: bsd_class_def)
  have "event_loop (bsd_event os kq p) evs w' = (Inr ?es, w')"
    by (rule event_loop_pure) (use e(3) bsd_event_quiet in fastforce)
  then have "BsdPoller_wait os kq t p w = (Inr ?es, w')" by (simp add: BsdPoller_wait_def io_bind_call e(1))
  moreover have "due (view w) ?es" using e(3) by (intro due_batch [OF cls e(2)]) auto
  moreover have "to_report watch w \<subseteq> to_report watch w' \<union> set (data_fds ?es)"
    using e(7) assms(2,3) by (auto simp: quiet_batch(1) [OF cls] to_report_def)
  ultimately show ?thesis using e(4-6) assms(2) quiet_batch(4) [OF cls] by blast
qed

lemma BsdPoller_add_quiet:
  assumes "quiet_kqueue kq (kqueue_fd p) sfd view watch" and "fd \<noteq> sfd" and "fd \<notin> dom (watch w)" and "inbox (view w) fd \<noteq> ''''"
  shows "\<exists>w'. BsdPoller_add_client os kq fd p w = (Inr (), w') \<and> view w' = view w \<and> watch w' = (watch w)(fd \<mapsto> True)"
proof -
  obtain w' where "kq_change kq (kqueue_fd p) (scast fd) (EV_ADD OR EV_ENABLE) w = (0, w')"
    "view w' = view w" "watch w' = (watch w)(fd \<mapsto> inbox (view w) fd \<noteq> '''')"
    using assms(1-3) unfolding quiet_kqueue_def by meson
  with assms(4) show ?thesis by (simp add: BsdPoller_add_client_def io_bind_call)
qed

interpretation bsd_prog: server_progress "bsd_calls os sl nt kq" lim sfd view "\<lambda>p. to_report watch"
  "\<lambda>p F w. kqueue_fd p = kfd \<and> bp_server_fd p = sfd \<and> sfd \<notin> F \<and> dom (watch w) = F"
  "quiet_sockets os nt lim sfd view watch \<and> quiet_kqueue kq kfd sfd view watch"
  for os :: "'w os" and sl :: "'w openssl" and nt :: "'w net" and kq :: "('w, 'k) kqueue_scheme" and lim :: nat and sfd kfd :: SOCKET
    and view :: "'w \<Rightarrow> arrivals" and watch :: "'w \<Rightarrow> SOCKET \<rightharpoonup> bool"
proof (unfold_locales, goal_cases)
  case (1 p F w)
  then have "\<exists>es w'. BsdPoller_wait os kq wait_timeout p w = (Inr es, w') \<and> dom (watch w') = F \<and> view w' = view w \<and>
      due (view w) es \<and> to_report watch w \<subseteq> to_report watch w' \<union> set (data_fds es) \<and>
      (es = [] \<longrightarrow> backlog (view w) = [] \<and> to_report watch w = {})"
    by (intro BsdPoller_wait_quiet) auto
  with 1 show ?case by (fastforce simp: bsd_calls_def BsdPoller_def)
next
  case (2 p F w fd)
  with BsdPoller_add_quiet [of kq p sfd view watch fd w os] show ?case
    by (fastforce simp: bsd_calls_def BsdPoller_def to_report_def)
next
  case (3 w)
  with quiet_watch(1) [of os nt lim sfd view watch w] show ?case by (fastforce simp: bsd_calls_def)
next
  case (4 w fd)
  with quiet_watch(2) [of os nt lim sfd view watch w fd sl] show ?case by (fastforce simp: bsd_calls_def)
next
  case (5 fd d w)
  with quiet_watch(3) [of os nt lim sfd view watch sl fd d w] show ?case by (fastforce simp: bsd_calls_def)
qed

subsection \<open>Windows\<close>

text \<open>
  WSAPoll in the same circumstances: the listening socket is readable if a client waits to be accepted, a client if
  it has input; the result is the number of entries that are.
\<close>

definition poll_revents :: "SOCKET \<Rightarrow> arrivals \<Rightarrow> SOCKET \<Rightarrow> 16 word" where
  "poll_revents sfd a fd =
     (if (if fd = sfd then backlog a \<noteq> [] else inbox a fd \<noteq> '''') then POLLRDNORM else 0)"

definition quiet_wsapoll :: "('w, 'y) wsapoll_scheme \<Rightarrow> SOCKET \<Rightarrow> ('w \<Rightarrow> arrivals) \<Rightarrow> bool" where
  [contract_defs]: "quiet_wsapoll wsa sfd view \<longleftrightarrow>
     (\<forall>fds t w. \<exists>revents w'. wsa_poll wsa fds t w = ((int (length (filter (\<lambda>r. r \<noteq> 0) revents)), revents), w') \<and>
        revents = map (poll_revents sfd (view w) \<circ> pfd_fd) fds \<and> view w' = view w)"

text \<open>The poller of a server that has accepted the clients \<open>F\<close>, and those of them with input.\<close>

definition polls :: "SOCKET \<Rightarrow> win32_poller \<Rightarrow> SOCKET set \<Rightarrow> bool" where
  "polls sfd p F \<longleftrightarrow> wp_server_fd p = sfd \<and> sfd \<notin> F \<and>
     (\<exists>cs. map pfd_fd (wp_fds p) = sfd # cs \<and> distinct cs \<and> set cs = F)"

definition polled_input :: "('w \<Rightarrow> arrivals) \<Rightarrow> win32_poller \<Rightarrow> 'w \<Rightarrow> SOCKET set" where
  "polled_input view p w = {fd \<in> set (tl (map pfd_fd (wp_fds p))). inbox (view w) fd \<noteq> ''''}"

lemma poll_revents_0: "poll_revents sfd a fd = 0 \<longleftrightarrow> (if fd = sfd then backlog a = [] else inbox a fd = '''')"
  by (simp add: poll_revents_def POLLRDNORM_def)

lemma map2_update: "map2 (\<lambda>x y. f x y) xs (map (g \<circ> h) xs) = map (\<lambda>x. f x (g (h x))) xs"
  by (induction xs) auto

lemma client_events_quiet:
  assumes "sfd \<notin> pfd_fd ` set fds"
  shows "concat (map win32_client_events (map (\<lambda>f. f\<lparr>pfd_revents := poll_revents sfd a (pfd_fd f)\<rparr>) fds)) =
    map (mk_Event ClientDataReady) (filter (\<lambda>fd. inbox a fd \<noteq> '''') (map pfd_fd fds))"
  using assms by (induction fds) (auto simp: win32_client_events_def poll_revents_def POLLRDNORM_def POLLHUP_def POLLERR_def POLLNVAL_def)

lemma data_fds_data: "data_fds (map (mk_Event ClientDataReady) fds) = fds" "news (map (mk_Event ClientDataReady) fds) = 0"
  by (induction fds) simp_all

lemma Win32Poller_wait_result:
  assumes "wp_fds p \<noteq> []" and "wsa_poll wsa (wp_fds p) (if t < 0 then -1 else int_of_count t) w = ((int k, revents), w')"
    and "map2 (\<lambda>fd rev. fd\<lparr>pfd_revents := rev\<rparr>) (wp_fds p) revents = fds"
  shows "Win32Poller_wait wsa t p w =
    (Inr (if k = 0 then []
          else (if pfd_revents (hd fds) AND POLLRDNORM \<noteq> 0 then [mk_Event NewClient (wp_server_fd p)] else []) @
            concat (map win32_client_events (tl fds))), p\<lparr>wp_fds := fds\<rparr>, w')"
  using assms(1,2) unfolding Win32Poller_wait_def assms(3) [symmetric] by (simp add: Let_def)

lemma Win32Poller_wait_quiet:
  assumes "quiet_wsapoll wsa sfd view" and "polls sfd p F"
  shows "\<exists>es p' w'. Win32Poller_wait wsa t p w = (Inr es, p', w') \<and> polls sfd p' F \<and> view w' = view w \<and>
    due (view w) es \<and> polled_input view p w \<subseteq> polled_input view p' w' \<and>
    (es = [] \<longrightarrow> backlog (view w) = [] \<and> polled_input view p w = {})"
proof -
  obtain f fs where p: "wp_fds p = f # fs" "pfd_fd f = sfd" "wp_server_fd p = sfd" "sfd \<notin> F" "distinct (map pfd_fd fs)" "set (map pfd_fd fs) = F"
    using assms(2) by (cases "wp_fds p") (auto simp: polls_def)
  let ?r = "map (poll_revents sfd (view w) \<circ> pfd_fd) (wp_fds p)"
  let ?fds = "map (\<lambda>f. f\<lparr>pfd_revents := poll_revents sfd (view w) (pfd_fd f)\<rparr>) (wp_fds p)"
  let ?new = "if backlog (view w) \<noteq> [] then [mk_Event NewClient sfd] else []"
  let ?data = "filter (\<lambda>fd. inbox (view w) fd \<noteq> '''') (map pfd_fd fs)"
  define es where "es = ?new @ map (mk_Event ClientDataReady) ?data"
  define p' where "p' = p\<lparr>wp_fds := ?fds\<rparr>"
  define k where "k = length (filter (\<lambda>r. r \<noteq> 0) ?r)"
  obtain w' where w': "wsa_poll wsa (wp_fds p) (if t < 0 then -1 else int_of_count t) w =
      ((int k, ?r), w')" "view w' = view w" unfolding k_def
    using assms(1) unfolding quiet_wsapoll_def by metis
  have fds: "map2 (\<lambda>fd rev. fd\<lparr>pfd_revents := rev\<rparr>) (wp_fds p) ?r = ?fds" by (rule map2_update)
  have s: "sfd \<notin> pfd_fd ` set fs" using p(4,6) by auto
  then have s': "pfd_fd g \<noteq> sfd" if "g \<in> set fs" for g using that by auto
  have n: "k = 0 \<longleftrightarrow> ?new = [] \<and> ?data = []"
    using p(1,2) s' by (auto simp: k_def filter_empty_conv poll_revents_0)
  have hd: "pfd_revents (hd ?fds) AND POLLRDNORM \<noteq> 0 \<longleftrightarrow> backlog (view w) \<noteq> []"
    using p(1,2) by (simp add: poll_revents_def POLLRDNORM_def)
  have tl: "concat (map win32_client_events (tl ?fds)) = map (mk_Event ClientDataReady) ?data"
    using client_events_quiet [OF s, of "view w"] p(1) by simp
  have "wp_fds p \<noteq> []" using p(1) by simp
  then have wait: "Win32Poller_wait wsa t p w = (Inr es, p', w')"
    using Win32Poller_wait_result [OF _ w'(1) fds] n unfolding hd tl p(3) es_def p'_def by (cases "k = 0") simp_all
  have p': "polls sfd p' F" "polled_input view p w \<subseteq> polled_input view p' w'"
    using p by (auto simp: p'_def polls_def comp_def polled_input_def w'(2))
  have due: "due (view w) es" using p(5) by (cases "backlog (view w)") (auto simp: es_def due_def data_fds_data)
  have "es = [] \<longrightarrow> backlog (view w) = [] \<and> polled_input view p w = {}"
    using p(1) by (auto simp: es_def polled_input_def filter_empty_conv)
  with wait p' due w'(2) show ?thesis by blast
qed

interpretation win_prog: server_progress "win32_calls os sl nt wsa" lim sfd view "polled_input view"
  "\<lambda>p F w. polls sfd p F" "quiet_sockets os nt lim sfd view (\<lambda>_. Map.empty) \<and> quiet_wsapoll wsa sfd view"
  for os :: "'w os" and sl :: "'w openssl" and nt :: "'w net" and wsa :: "('w, 'y) wsapoll_scheme" and lim :: nat and sfd :: SOCKET
    and view :: "'w \<Rightarrow> arrivals"
proof (unfold_locales, goal_cases)
  case (1 p F w)
  with Win32Poller_wait_quiet [of wsa sfd view p F wait_timeout w] show ?case
    by (fastforce simp: win32_calls_def Win32Poller_def)
next
  case (2 p F w fd)
  then have "polls sfd (Win32Poller_add_client fd p) (insert fd F)"
    by (auto simp: polls_def Win32Poller_add_client_def poll_fd_def)
  moreover have "insert fd (polled_input view p w) \<subseteq> polled_input view (Win32Poller_add_client fd p) w"
    using 2 by (cases "wp_fds p") (auto simp: polls_def polled_input_def Win32Poller_add_client_def poll_fd_def)
  ultimately show ?case by (auto simp: win32_calls_def Win32Poller_def)
next
  case (3 w)
  then obtain fd w' where a: "TCPServer_accept os nt sfd w = (Inr fd, w')" "fd \<notin> opened (view w)" "view w' = accepted fd (view w)"
    using quiet_watch(1) [of os nt lim sfd view "\<lambda>_. Map.empty" w] by blast
  have "polled_input view p w \<subseteq> polled_input view p w'" if "polls sfd p F" "fd \<notin> F" for p F
    using that by (auto simp: polls_def polled_input_def a(3) accepted_def)
  with a show ?case by (auto simp: win32_calls_def)
next
  case (4 w fd)
  then obtain w' where r: "connection_recv os sl (TCPConnection fd) w = (Inr (inbox (view w) fd), w')"
    "view w' = received fd RECV_BUF_SZ (view w)"
    using quiet_watch(2) [of os nt lim sfd view "\<lambda>_. Map.empty" w fd sl] by blast
  have "polled_input view p w - {fd} \<subseteq> polled_input view p w'" for p
    by (auto simp: polled_input_def r(2) received_def)
  with r show ?case by (auto simp: win32_calls_def)
next
  case (5 fd d w)
  then obtain w' where r: "connection_send os sl (TCPConnection fd) d w = (Inr (), w')" "view w' = handed_over fd d (view w)"
    using quiet_watch(3) [of os nt lim sfd view "\<lambda>_. Map.empty" sl fd d w] by blast
  have "polled_input view p w \<subseteq> polled_input view p w'" for p by (auto simp: polled_input_def r(2) handed_over_def)
  with r show ?case by (auto simp: win32_calls_def)
qed

subsection \<open>Protocols that answer every request\<close>

lemma LineSession_answers:
  assumes "sep \<noteq> ''''"
  shows "session_feed (LineSession c p (LineSession_new incl sep)) d \<noteq> None"
  using line_loop_total [of "(LineSession_new incl sep)\<lparr>buffer := d\<rparr>" p 0 "''''"] assms
  by (auto simp: LineSession_feed_def LineSession_new_def line_ok_def)

text \<open>The protocols of the programs and of the tests.\<close>

lemma requests_ok_protocols:
  assumes "'''' \<notin> set requests" and "\<forall>d \<in> set requests. length d \<le> RECV_BUF_SZ"
    and "pr \<in> {EchoProtocol_create_session, EchoSSLProtocol_create_session, LoadTestProtocol_create_session, TestProtocol_create_session}"
  shows "requests_ok pr requests"
  using assms LineSession_answers [of crlf] LineSession_answers [of lf]
  by (auto simp: requests_ok_def protocol_ok_def EchoProtocol_create_session_def EchoSSLProtocol_create_session_def
      LoadTestProtocol_create_session_def TestProtocol_create_session_def crlf_def lf_def)

subsection \<open>A concrete environment\<close>

text \<open>
  A world that consists of what has arrived, the clients registered with epoll and whether something arrived since
  they were last reported, and the logger. The listening socket is 3.
\<close>

record quiet_world =
  qw_arrivals :: arrivals
  qw_watch :: "(SOCKET \<times> bool) list"
  qw_logger :: logger

definition qw_watched :: "quiet_world \<Rightarrow> SOCKET \<rightharpoonup> bool" where
  "qw_watched w fd = (if fd = 3 then None else map_option (\<lambda>b. b \<and> inbox (qw_arrivals w) fd \<noteq> '''') (map_of (qw_watch w) fd))"

definition qw_free :: "SOCKET set \<Rightarrow> SOCKET list" where
  "qw_free F = filter (\<lambda>fd. fd \<notin> F) (map word_of_nat [0..<64])"

definition quiet_os :: "quiet_world os" where
  "quiet_os = \<lparr> os_platform = Posix, os_errno = (\<lambda>w. EAGAIN), os_strerror = (\<lambda>e. ''error''), os_WSAGetLastError = (\<lambda>w. 0),
     os_recv = (\<lambda>fd n w. let b = take n (inbox (qw_arrivals w) fd) in
       ((if b = '''' then -1 else int (length b), b), w\<lparr>qw_arrivals := received fd n (qw_arrivals w)\<rparr>)),
     os_send = (\<lambda>fd d w. (int (length d), w\<lparr>qw_arrivals := handed_over fd d (qw_arrivals w)\<rparr>)),
     os_close = (\<lambda>fd w. (0, w\<lparr>qw_arrivals := (qw_arrivals w)\<lparr>opened := opened (qw_arrivals w) - {fd}\<rparr>\<rparr>)),
     os_fcntl_getfl = (\<lambda>fd w. (2, w)), os_fcntl_setfl = (\<lambda>fd fl w. (0, w)), os_ioctl_fionbio = (\<lambda>fd w. (0, w)),
     os_O_NONBLOCK = 2048, os_logger = qw_logger, os_set_logger = (\<lambda>lg w. w\<lparr>qw_logger := lg\<rparr>),
     os_open = (\<lambda>w. opened (qw_arrivals w)), os_sent = (\<lambda>w. outbox (qw_arrivals w)) \<rparr>"

definition quiet_nt :: "quiet_world net" where
  "quiet_nt = \<lparr> net_getaddrinfo = (\<lambda>h p hints w. ((-2, []), w)), net_gai_strerror = (\<lambda>e. ''not known''),
     net_freeaddrinfo = (\<lambda>l w. w), net_socket = (\<lambda>f t p w. (INVALID_SOCKET, w)), net_setsockopt = (\<lambda>fd w. (0, w)),
     net_bind = (\<lambda>fd a w. (0, w)), net_listen = (\<lambda>fd n w. (0, w)),
     net_accept = (\<lambda>fd w. case qw_free (opened (qw_arrivals w)) of
         [] \<Rightarrow> (INVALID_SOCKET, w)
       | c # _ \<Rightarrow> if backlog (qw_arrivals w) = [] then (INVALID_SOCKET, w)
           else (c, w\<lparr>qw_arrivals := accepted c (qw_arrivals w), qw_watch := filter (\<lambda>(x, b). x \<noteq> c) (qw_watch w)\<rparr>)),
     net_connect = (\<lambda>fd a w. (-1, w)), net_SOMAXCONN = 4096, net_getnameinfo = (\<lambda>fd w. ((0, ''10.0.0.1'', ''40000''), w)),
     net_inet_ntop = (\<lambda>f a. a), net_lists = (\<lambda>w. 0) \<rparr>"

definition qw_events :: "quiet_world \<Rightarrow> (32 word \<times> SOCKET) list" where
  "qw_events w = (if backlog (qw_arrivals w) = [] then [] else [(EPOLLIN, 3)]) @
     map (\<lambda>fd. (EPOLLIN, fd)) (filter (\<lambda>fd. qw_watched w fd = Some True) (remdups (map fst (qw_watch w))))"

definition quiet_ep :: "quiet_world epoll" where
  "quiet_ep = \<lparr> ep_create1 = (\<lambda>w. (5, w)), ep_ctl_add = (\<lambda>epfd fd fl u w. (0, w\<lparr>qw_watch := (fd, True) # qw_watch w\<rparr>)),
     ep_ctl_del = (\<lambda>epfd fd w. (0, w\<lparr>qw_watch := filter (\<lambda>(x, b). x \<noteq> fd) (qw_watch w)\<rparr>)),
     ep_wait = (\<lambda>epfd n t w. let evs = take n (qw_events w) in
       ((int (length evs), evs), w\<lparr>qw_watch := map (\<lambda>(x, b). (x, b \<and> x \<notin> snd ` set evs)) (qw_watch w)\<rparr>)),
     ep_interest = (\<lambda>w epfd. fst ` set (qw_watch w)) \<rparr>"

text \<open>No TLS: the server of the witness makes no such call.\<close>

definition quiet_sl :: "quiet_world openssl" where
  "quiet_sl = \<lparr> ssl_new = (\<lambda>ctx w. (1, w)), ssl_set_fd = (\<lambda>ssl fd w. (1, w)), ssl_accept = (\<lambda>ssl w. (-1, w)),
     ssl_print_errors = (\<lambda>w. (None, w)), ssl_read = (\<lambda>ssl n w. ((-1, ''''), w)), ssl_write = (\<lambda>ssl d n w. (-1, w)),
     ssl_shutdown = (\<lambda>ssl w. (0, w)), ssl_free = (\<lambda>ssl w. w), ssl_sent = (\<lambda>w ssl. '''') \<rparr>"

lemma map_of_filter_other: "map_of (filter (\<lambda>(x, b). x \<noteq> c) xs) y = (if y = c then None else map_of xs y)"
  by (induction xs) auto

lemma qw_free_cases:
  assumes "card F < 64"
  obtains c cs where "qw_free F = c # cs" and "c \<noteq> INVALID_SOCKET" and "c \<notin> F"
proof -
  let ?A = "word_of_nat ` {0..<64} :: SOCKET set"
  have "inj_on (word_of_nat :: nat \<Rightarrow> SOCKET) {0..<64}"
    by (rule inj_onI) (auto simp: word_of_nat_eq_iff take_bit_nat_eq_self)
  then have "card ?A = 64" by (simp add: card_image)
  with assms have "\<not> ?A \<subseteq> F" using card_mono [of F ?A] by auto
  then have "qw_free F \<noteq> []" by (auto simp: qw_free_def filter_empty_conv)
  then obtain c cs where c: "qw_free F = c # cs" by (cases "qw_free F") auto
  then have "c \<in> set (qw_free F)" by simp
  then have "c \<notin> F" and "unat c < 64" by (auto simp: qw_free_def unat_of_nat)
  moreover have "\<not> unat INVALID_SOCKET < 64" by (simp add: INVALID_SOCKET_def unsigned_minus_1_eq_mask mask_eq_exp_minus_1)
  ultimately show ?thesis using that [OF c] by metis
qed

lemma quiet_world_sockets: "quiet_sockets quiet_os quiet_nt 64 3 qw_arrivals qw_watched"
  unfolding quiet_sockets_def
proof (intro conjI allI impI)
  fix w :: quiet_world
  assume "backlog (qw_arrivals w) \<noteq> []" and "card (opened (qw_arrivals w)) < 64"
  moreover from this(2) obtain c cs where "qw_free (opened (qw_arrivals w)) = c # cs" "c \<noteq> INVALID_SOCKET" "c \<notin> opened (qw_arrivals w)"
    by (rule qw_free_cases)
  ultimately show "\<exists>fd w'. net_accept quiet_nt 3 w = (fd, w') \<and> fd \<noteq> INVALID_SOCKET \<and> fd \<notin> opened (qw_arrivals w) \<and>
      qw_arrivals w' = accepted fd (qw_arrivals w) \<and> qw_watched w' = (qw_watched w)(fd := None)"
    by (auto simp: quiet_nt_def qw_watched_def accepted_def fun_eq_iff map_of_filter_other)
qed (auto simp: quiet_os_def quiet_nt_def keeps_def Let_def received_def handed_over_def qw_watched_def fun_eq_iff split: if_splits)

lemma map_of_map_snd: "map_of (map (\<lambda>(x, b). (x, f x b)) xs) y = map_option (f y) (map_of xs y)"
  by (induction xs) auto

lemma qw_watched_dom: "dom (qw_watched w) = fst ` set (qw_watch w) - {3}"
  by (auto simp: qw_watched_def dom_def dom_map_of_conv_image_fst [symmetric] split: if_splits)

lemma qw_watched_report: "fd \<in> to_report qw_watched w \<longleftrightarrow> fd \<noteq> 3 \<and> map_of (qw_watch w) fd = Some True \<and> inbox (qw_arrivals w) fd \<noteq> ''''"
  by (auto simp: to_report_def qw_watched_def)

lemma qw_events_report:
  "(fl, fd) \<in> set (qw_events w) \<longleftrightarrow> fl = EPOLLIN \<and> (if fd = 3 then backlog (qw_arrivals w) \<noteq> [] else fd \<in> to_report qw_watched w)"
  by (force simp: qw_events_def to_report_def qw_watched_def image_iff dest: map_of_SomeD)

lemma qw_events_Nil:
  assumes "qw_events w = []"
  shows "backlog (qw_arrivals w) = [] \<and> to_report qw_watched w = {}"
proof -
  have "fd \<notin> to_report qw_watched w" for fd
    using assms qw_events_report [of EPOLLIN fd w] by (cases "fd = 3") (simp_all add: qw_watched_report)
  with assms qw_events_report [of EPOLLIN 3 w] show ?thesis by auto
qed

lemma qw_events_distinct: "distinct (map snd (qw_events w))"
  by (auto simp: qw_events_def qw_watched_def comp_def)

lemma quiet_world_epoll: "quiet_epoll quiet_ep 5 3 qw_arrivals qw_watched"
  unfolding quiet_epoll_def quiet_epoll_wait_def
proof (intro conjI allI impI)
  fix fd :: SOCKET and fl :: "32 word" and w :: quiet_world
  assume "fd \<noteq> 3"
  then show "\<exists>w'. ep_ctl_add quiet_ep 5 fd fl fd w = (0, w') \<and> qw_arrivals w' = qw_arrivals w \<and>
      qw_watched w' = (qw_watched w)(fd \<mapsto> inbox (qw_arrivals w) fd \<noteq> '''')"
    by (auto simp: quiet_ep_def qw_watched_def fun_eq_iff)
next
  fix n :: nat and t :: int and w :: quiet_world
  assume n: "0 < n"
  let ?evs = "take n (qw_events w)"
  let ?w = "w\<lparr>qw_watch := map (\<lambda>(x, b). (x, b \<and> x \<notin> snd ` set ?evs)) (qw_watch w)\<rparr>"
  have "ep_wait quiet_ep 5 n t w = ((int (length ?evs), ?evs), ?w)" by (simp add: quiet_ep_def Let_def)
  moreover have "distinct (map snd ?evs)" using qw_events_distinct by (simp add: take_map [symmetric])
  moreover have "\<forall>(fl, fd) \<in> set ?evs. fl = EPOLLIN \<and> (if fd = 3 then backlog (qw_arrivals w) \<noteq> []
      else fd \<in> to_report qw_watched w \<and> inbox (qw_arrivals w) fd \<noteq> '''')"
    by (auto dest!: in_set_takeD simp: qw_events_report qw_watched_report split: if_splits)
  moreover have "?evs = [] \<longrightarrow> backlog (qw_arrivals w) = [] \<and> to_report qw_watched w = {}"
    using n qw_events_Nil [of w] by simp
  moreover have "dom (qw_watched ?w) = dom (qw_watched w)" by (force simp: qw_watched_dom)
  moreover have "to_report qw_watched w - snd ` set ?evs \<subseteq> to_report qw_watched ?w"
    by (auto simp: qw_watched_report map_of_map_snd)
  ultimately show "\<exists>evs w'. ep_wait quiet_ep 5 n t w = ((int (length evs), evs), w') \<and> distinct (map snd evs) \<and>
      (\<forall>(fl, fd) \<in> set evs. fl = EPOLLIN \<and> (if fd = 3 then backlog (qw_arrivals w) \<noteq> []
         else fd \<in> to_report qw_watched w \<and> inbox (qw_arrivals w) fd \<noteq> '''')) \<and>
      (evs = [] \<longrightarrow> backlog (qw_arrivals w) = [] \<and> to_report qw_watched w = {}) \<and>
      qw_arrivals w' = qw_arrivals w \<and> dom (qw_watched w') = dom (qw_watched w) \<and>
      to_report qw_watched w - snd ` set evs \<subseteq> to_report qw_watched w'" by (intro exI [of _ ?evs] exI [of _ ?w]) simp
qed

subsection \<open>The theorems\<close>


text \<open>The same on BSD and macOS, and on Windows.\<close>

lemma Server_serves_backlog_bsd:
  assumes "quiet_sockets os nt lim (srv_fd s) view watch" and "quiet_kqueue kq (kqueue_fd (srv_poller s)) (srv_fd s) view watch"
    and "bp_server_fd (srv_poller s) = srv_fd s" and "watch w = Map.empty"
    and "ready_to_serve lim (srv_fd s) s (view w)" and "requests_ok (srv_protocol s) (backlog (view w))"
    and "2 * length (backlog (view w)) \<le> n"
  shows "\<exists>s' w' fds. Server_iterations (bsd_calls os sl nt kq) n s w = (Inr (), s', w') \<and> backlog (view w') = [] \<and>
    each_replied (srv_protocol s) s' fds (backlog (view w)) (outbox (view w'))"
  by (rule bsd_prog.all_answered_in_time [OF conjI [OF assms(1,2)] assms(6,5) _ assms(7)]) (simp add: assms(3,4))

lemma Server_serves_backlog_win32:
  assumes "quiet_sockets os nt lim (srv_fd s) view (\<lambda>_. Map.empty)" and "quiet_wsapoll wsa (srv_fd s) view"
    and "srv_poller s = Win32Poller_new (srv_fd s)"
    and "ready_to_serve lim (srv_fd s) s (view w)" and "requests_ok (srv_protocol s) (backlog (view w))"
    and "2 * length (backlog (view w)) \<le> n"
  shows "\<exists>s' w' fds. Server_iterations (win32_calls os sl nt wsa) n s w = (Inr (), s', w') \<and> backlog (view w') = [] \<and>
    each_replied (srv_protocol s) s' fds (backlog (view w)) (outbox (view w'))"
  by (rule win_prog.all_answered_in_time [OF conjI [OF assms(1,2)] assms(5,4) _ assms(6)])
    (simp add: assms(3) polls_def Win32Poller_new_def poll_fd_def)

text \<open>
  The first case of \<^verbatim>\<open>tests/tcpserver.cc\<close>: two clients have connected and sent a line each, \<^verbatim>\<open>iterate\<close> is called
  ten times, and each client gets its line back.
\<close>

definition test_world :: quiet_world where
  "test_world = \<lparr> qw_arrivals = \<lparr> backlog = [''hello'' @ crlf, ''hellw'' @ crlf], inbox = (\<lambda>_. ''''), outbox = (\<lambda>_. ''''), opened = {3, 5} \<rparr>,
     qw_watch = [], qw_logger = init_logger \<rparr>"


end
