(* ===== verification/Notifications.thy ===== *)
theory Notifications
  imports Server
begin

text \<open>
  How much a server reads for each notification of the poller (\<^verbatim>\<open>server/server.cc\<close>,
  \<^verbatim>\<open>protocol/session.cc\<close>, \<^verbatim>\<open>server/tcp/tcpconnection.cc\<close>, \<^verbatim>\<open>server/poller/poller.linux.cpp\<close>): a data event is
  one entry of one batch or of one worker's queue, and an iteration of a session makes a single
  call of \<^verbatim>\<open>recv\<close>. On Linux clients are registered with \<^verbatim>\<open>EPOLLET\<close>, so that input is notified once when
  it arrives; what one call leaves behind is not asked for again.
\<close>

subsection \<open>Data events that are still to be served\<close>

definition pending :: "SOCKET \<Rightarrow> Event list \<Rightarrow> nat" where
  "pending fd es = length (filter (\<lambda>e. ev_type e = ClientDataReady \<and> ev_fd e = fd) es)"

fun thread_queue :: "'s thread \<Rightarrow> SOCKET list" where
  "thread_queue (Single t) = []"
| "thread_queue (Multi t) = tm_queue t"

definition queued :: "SOCKET \<Rightarrow> 's thread list \<Rightarrow> nat" where
  "queued fd ts = sum_list (map (\<lambda>t. count_list (thread_queue t) fd) ts)"

lemma pending_simps [simp]:
  "pending fd [] = 0"
  "pending fd (e # es) = (if ev_type e = ClientDataReady \<and> ev_fd e = fd then 1 else 0) + pending fd es"
  by (simp_all add: pending_def)

lemma pending_append [simp]: "pending fd (es @ es') = pending fd es + pending fd es'"
  by (simp add: pending_def)

lemma pending_class_events: "pending fd (class_events cls key es) \<le> count_list (map key es) fd"
proof (induction es)
  case (Cons e es)
  then show ?case by (cases "cls e") (auto simp: class_event_def)
qed simp

lemma queued_update:
  "i < length ts \<Longrightarrow> queued fd (ts[i := t]) + count_list (thread_queue (ts ! i)) fd = queued fd ts + count_list (thread_queue t) fd"
  unfolding queued_def
proof (induction ts arbitrary: i)
  case (Cons u ts)
  then show ?case by (cases i) (auto simp: add.assoc)
qed simp

lemma queued_new [simp]: "queued fd (ThreadManager_new n) = 0"
  by (cases n) (simp_all add: queued_def ThreadMulti_new_def sum_list_replicate)

subsection \<open>The sessions of a TCP server\<close>

text \<open>Every session reads from the descriptor it is stored under.\<close>

definition tcp_map :: "session session_map \<Rightarrow> bool" where
  "tcp_map m \<longleftrightarrow> (\<forall>fd x. m fd = Some x \<longrightarrow> session_connection x = TCPConnection fd)"

lemma tcp_map_upd: "tcp_map m \<Longrightarrow> (\<And>x. v = Some x \<Longrightarrow> session_connection x = TCPConnection fd) \<Longrightarrow> tcp_map (m(fd := v))"
  by (auto simp: tcp_map_def)

lemma tcp_map_iterate:
  assumes "tcp_map m" and "sessions_iterate (Session_vtable os sl) fd m w = (r, m', w')"
  shows "tcp_map m'"
  using assms session_iteration_connection
  by (fastforce simp: sessions_iterate_def tcp_map_def split: option.splits prod.splits if_splits)

subsection \<open>One receive per notification\<close>

locale notified_reads =
  fixes pc :: "('p, 'w) platform_calls" and taken :: "'w \<Rightarrow> SOCKET \<Rightarrow> nat" and notices :: "'w \<Rightarrow> SOCKET \<Rightarrow> nat" and contract :: bool
  assumes recv_law: "contract \<Longrightarrow> connection_recv (pc_os pc) (pc_ssl pc) (TCPConnection fd) w = (r, w') \<Longrightarrow>
      notices w' = notices w \<and> taken w' x \<le> taken w x + RECV_BUF_SZ * (if x = fd then 1 else 0)"
    and send_law: "contract \<Longrightarrow> connection_send (pc_os pc) (pc_ssl pc) (TCPConnection fd) d w = (q, w') \<Longrightarrow>
      (taken w', notices w') = (taken w, notices w)"
    and close_law: "contract \<Longrightarrow> (taken (close_socket (pc_os pc) fd w), notices (close_socket (pc_os pc) fd w)) = (taken w, notices w)"
    and accept_law: "contract \<Longrightarrow> TCPServer_accept (pc_os pc) (pc_net pc) sfd w = (Inr fd, w') \<Longrightarrow>
      (taken w', notices w') = (taken w, notices w)"
    and wait_law: "contract \<Longrightarrow> pl_wait (pc_poller pc) p w = (Inr evs, p', w') \<Longrightarrow>
      taken w' = taken w \<and> notices w x + pending x evs \<le> notices w' x"
    and add_law: "contract \<Longrightarrow> pl_add_client (pc_poller pc) fd p w = (q, p', w') \<Longrightarrow>
      (taken w', notices w') = (taken w, notices w)"
begin

text \<open>What has been read, with what may still be read for the events not yet served.\<close>

abbreviation budget :: "Event list \<Rightarrow> session thread list \<Rightarrow> 'w \<Rightarrow> bool" where
  "budget es ts w \<equiv> \<forall>fd. taken w fd + RECV_BUF_SZ * (queued fd ts + pending fd es) \<le> RECV_BUF_SZ * notices w fd"

abbreviation inv :: "'p server \<Rightarrow> Event list \<Rightarrow> 'w \<Rightarrow> bool" where
  "inv s es w \<equiv> protocol_ok (srv_protocol s) \<and> srv_class s = TCPServer \<and>
     (\<forall>t \<in> set (srv_threads s). tcp_map (thread_sessions t)) \<and> budget es (srv_threads s) w"

lemma iterate_law:
  assumes c: contract and m: "tcp_map m" and run: "sessions_iterate (pc_vt pc) fd m w = (r, m', w')"
  shows "notices w' = notices w \<and> taken w' x \<le> taken w x + RECV_BUF_SZ * (if x = fd then 1 else 0)"
proof (cases "m fd")
  case None
  with run show ?thesis by (auto simp: sessions_iterate_def)
next
  case (Some y)
  then have y: "session_connection y = TCPConnection fd" using m by (simp add: tcp_map_def)
  obtain y' where it: "session_iteration (pc_os pc) (pc_ssl pc) y w = (r, y', w')"
    using run Some by (auto simp: sessions_iterate_def split: prod.splits)
  obtain q w1 where rv: "connection_recv (pc_os pc) (pc_ssl pc) (TCPConnection fd) w = (q, w1)" by fastforce
  have "w' = w1 \<or> (\<exists>d p. connection_send (pc_os pc) (pc_ssl pc) (TCPConnection fd) d w1 = (p, w'))"
    using it y rv by (cases y) (auto simp: Session_iteration_def LineSession_iteration_def io_bind_def
        split: prod.splits sum.splits option.splits if_splits)
  with recv_law [OF c rv, of x] send_law [OF c, of fd _ w1] show ?thesis by auto
qed

text \<open>Replacing one thread, where \<open>used\<close> counts the notifications that were served by a receive.\<close>

lemma budget_update:
  assumes "budget es ts w" and "i < length ts" and "notices w' = notices w"
    and "\<And>x. taken w' x \<le> taken w x + RECV_BUF_SZ * used x"
    and "\<And>x. count_list (thread_queue t) x + pending x es' + used x \<le> count_list (thread_queue (ts ! i)) x + pending x es"
  shows "budget es' (ts[i := t]) w'"
proof
  fix x
  have "queued x (ts[i := t]) + pending x es' + used x \<le> queued x ts + pending x es"
    using queued_update [OF assms(2), of x t] assms(5) [of x] by linarith
  then have "RECV_BUF_SZ * (queued x (ts[i := t]) + pending x es') + RECV_BUF_SZ * used x \<le> RECV_BUF_SZ * (queued x ts + pending x es)"
    by (metis add_mult_distrib2 mult_le_mono2)
  moreover have "taken w x + RECV_BUF_SZ * (queued x ts + pending x es) \<le> RECV_BUF_SZ * notices w x" using assms(1) by blast
  ultimately show "taken w' x + RECV_BUF_SZ * (queued x (ts[i := t]) + pending x es') \<le> RECV_BUF_SZ * notices w' x"
    using assms(4) [of x] unfolding assms(3) by linarith
qed

lemmas budget_serve = budget_update [where used = "\<lambda>x. if x = fd then 1 else 0" for fd]
lemmas budget_keep = budget_update [where used = "\<lambda>x. 0"]

lemma inv_update:
  assumes "inv s es w" and "budget es' ((srv_threads s)[i := t']) w'" and "tcp_map (thread_sessions t')"
  shows "inv (s\<lparr>srv_threads := (srv_threads s)[i := t']\<rparr>) es' w'"
proof -
  have "\<forall>t \<in> set ((srv_threads s)[i := t']). tcp_map (thread_sessions t)"
    using assms(1,3) set_update_subset_insert [of "srv_threads s" i t'] by blast
  with assms(1,2) show ?thesis by simp
qed

text \<open>The operations of the manager, on whatever thread the descriptor selects.\<close>

lemma data_inv:
  assumes c: contract and I: "inv s (mk_Event ClientDataReady fd # es) w"
    and run: "ThreadManager_data_available (pc_vt pc) fd (srv_threads s) w = (Inr (), ts, w')"
  shows "inv (s\<lparr>srv_threads := ts\<rparr>) es w'"
proof -
  obtain i t' where i: "i < length (srv_threads s)" and ts: "ts = (srv_threads s)[i := t']"
    and t': "thread_data_available (pc_vt pc) fd (srv_threads s ! i) w = (Inr (), t', w')"
    using run by (auto simp: ThreadManager_data_available_def at_thread_def split: sum.splits if_splits prod.splits)
  have m: "tcp_map (thread_sessions (srv_threads s ! i))" using I i by simp
  have B: "budget (mk_Event ClientDataReady fd # es) (srv_threads s) w" using I by blast
  have "budget es ts w' \<and> tcp_map (thread_sessions t')"
  proof (cases "srv_threads s ! i")
    case (Single u)
    with t' have it: "sessions_iterate (pc_vt pc) fd (thread_sessions (srv_threads s ! i)) w = (Inr (), thread_sessions t', w')"
      and q: "thread_queue t' = []" by (auto simp: ThreadSingle_data_available_def split: prod.splits)
    note L = iterate_law [OF c m it]
    have "budget es ts w'"
      unfolding ts by (rule budget_serve [OF B i conjunct1 [OF L] conjunct2 [OF L]]) (auto simp: q mk_Event_def)
    with tcp_map_iterate [OF m it] show ?thesis by simp
  next
    case (Multi u)
    with t' have eq: "t' = Multi (ThreadMulti_data_available fd u)" "w' = w" by simp_all
    have "budget es ts w'"
      unfolding ts by (rule budget_keep [OF B i]) (auto simp: eq Multi mk_Event_def ThreadMulti_data_available_def)
    with m show ?thesis by (simp add: eq Multi ThreadMulti_data_available_def)
  qed
  then show ?thesis unfolding ts by (intro inv_update [OF I]) blast+
qed

lemma drop_law: "contract \<Longrightarrow> (\<And>x. v = Some x \<Longrightarrow> \<exists>fd. session_connection x = TCPConnection fd) \<Longrightarrow>
    (taken (drop_session (pc_vt pc) v w), notices (drop_session (pc_vt pc) v w)) = (taken w, notices w)"
  using close_law by (cases v) (auto simp: drop_session_def session_destroy_def)

lemma remove_inv:
  assumes c: contract and I: "inv s (e # es) w" and e: "ev_type e \<noteq> ClientDataReady"
    and run: "ThreadManager_remove_session (pc_vt pc) fd (srv_threads s) w = (Inr (), ts, w')"
  shows "inv (s\<lparr>srv_threads := ts\<rparr>) es w'"
proof -
  obtain i t' where i: "i < length (srv_threads s)" and ts: "ts = (srv_threads s)[i := t']"
    and t': "thread_remove_session (pc_vt pc) fd (srv_threads s ! i) w = (t', w')"
    using run by (auto simp: ThreadManager_remove_session_def at_thread_def split: sum.splits if_splits prod.splits)
  have m: "tcp_map (thread_sessions (srv_threads s ! i))" using I i by simp
  have q: "thread_queue t' = thread_queue (srv_threads s ! i)" "thread_sessions t' = (thread_sessions (srv_threads s ! i))(fd := None)"
    "w' = drop_session (pc_vt pc) (thread_sessions (srv_threads s ! i) fd) w"
    using t' by (cases "srv_threads s ! i"; auto simp: ThreadSingle_remove_session_def ThreadMulti_remove_session_def)+
  have "(taken w', notices w') = (taken w, notices w)"
    unfolding q(3) by (rule drop_law [OF c]) (use m in \<open>auto simp: tcp_map_def\<close>)
  then have "budget es ts w'"
    unfolding ts using I e by (intro budget_keep [OF _ i]) (auto simp: q)
  moreover have "tcp_map (thread_sessions t')" unfolding q(2) by (rule tcp_map_upd [OF m]) simp
  ultimately show ?thesis unfolding ts by (intro inv_update [OF I])
qed

lemma new_client_inv:
  assumes c: contract and I: "inv s (e # es) w" and e: "ev_type e \<noteq> ClientDataReady"
    and run: "Server_new_client pc s w = (Inr (), s', w')"
  shows "inv s' es w'"
proof -
  obtain fd w1 where acc: "TCPServer_accept (pc_os pc) (pc_net pc) (srv_fd s) w = (Inr fd, w1)"
    using run by (auto simp: Server_new_client_def split: prod.splits sum.splits)
  let ?x = "srv_protocol s (TCPConnection fd)"
  obtain ts w3 where add: "ThreadManager_add_session (pc_vt pc) ?x (srv_threads s) w1 = (Inr (), ts, w3)"
    using run I by (auto simp: Server_new_client_def acc split: prod.splits sum.splits)
  obtain p where pl: "pl_add_client (pc_poller pc) fd (srv_poller s) w3 = (Inr (), p, w')"
    and s': "s' = s\<lparr>srv_threads := ts, srv_poller := p\<rparr>"
    using run I by (auto simp: Server_new_client_def acc add split: prod.splits)
  have x: "session_connection ?x = TCPConnection fd" "session_fd ?x = fd" using I by (simp_all add: protocol_ok_def session_fd_def)
  obtain i t' where i: "i < length (srv_threads s)" and ts: "ts = (srv_threads s)[i := t']"
    and t': "thread_add_session (pc_vt pc) ?x (srv_threads s ! i) w1 = (t', w3)"
    using add by (auto simp: ThreadManager_add_session_def at_thread_def split: sum.splits if_splits prod.splits)
  have m: "tcp_map (thread_sessions (srv_threads s ! i))" using I i by simp
  have q: "thread_queue t' = thread_queue (srv_threads s ! i)" "thread_sessions t' = (thread_sessions (srv_threads s ! i))(fd \<mapsto> ?x)"
    "w3 = drop_session (pc_vt pc) (thread_sessions (srv_threads s ! i) fd) w1"
    using t' x by (cases "srv_threads s ! i"; auto simp: ThreadSingle_add_session_def ThreadMulti_add_session_def)+
  have "(taken w3, notices w3) = (taken w1, notices w1)"
    unfolding q(3) by (rule drop_law [OF c]) (use m in \<open>auto simp: tcp_map_def\<close>)
  with accept_law [OF c acc] add_law [OF c pl] have "(taken w', notices w') = (taken w, notices w)" by simp
  then have "budget es ts w'" unfolding ts using I e by (intro budget_keep [OF _ i]) (auto simp: q)
  moreover have "tcp_map (thread_sessions t')" unfolding q(2) by (rule tcp_map_upd [OF m]) (use x in simp)
  ultimately have "inv (s\<lparr>srv_threads := ts\<rparr>) es w'" unfolding ts by (intro inv_update [OF I])
  then show ?thesis by (simp add: s')
qed

lemma step_inv:
  assumes c: contract and step: "srv_step pc a b" and I: "case a of (s, es, w) \<Rightarrow> inv s es w"
  shows "case b of (s, es, w) \<Rightarrow> inv s es w"
  using step
proof (cases rule: srv_step.cases)
  case (poll s w evs p w')
  have "budget evs (srv_threads s) w'"
  proof
    fix x
    have "taken w x + RECV_BUF_SZ * queued x (srv_threads s) \<le> RECV_BUF_SZ * notices w x" using I poll(1) by simp
    moreover have "RECV_BUF_SZ * (notices w x + pending x evs) \<le> RECV_BUF_SZ * notices w' x"
      by (rule mult_le_mono2) (use wait_law [OF c poll(4)] in blast)
    ultimately show "taken w' x + RECV_BUF_SZ * (queued x (srv_threads s) + pending x evs) \<le> RECV_BUF_SZ * notices w' x"
      using conjunct1 [OF wait_law [OF c poll(4)]] by (simp add: add_mult_distrib2)
  qed
  with I poll show ?thesis by simp
next
  case (handle e s w s' w' es)
  with I have J: "inv s (e # es) w" by simp
  have "inv s' es w'"
  proof (cases "ev_type e")
    case NewClient
    with handle(3) new_client_inv [OF c J] show ?thesis by (simp add: Server_event_def)
  next
    case ClientDataReady
    then have e: "e = mk_Event ClientDataReady (ev_fd e)" by (simp add: mk_Event_def)
    have "inv s (mk_Event ClientDataReady (ev_fd e) # es) w" using J unfolding e [symmetric] .
    note D = data_inv [OF c this]
    obtain ts where "ThreadManager_data_available (pc_vt pc) (ev_fd e) (srv_threads s) w = (Inr (), ts, w')" "s' = s\<lparr>srv_threads := ts\<rparr>"
      using handle(3) ClientDataReady by (auto simp: Server_event_def split: prod.splits)
    with D show ?thesis by blast
  next
    case ClientDisconnected
    then obtain ts where "ThreadManager_remove_session (pc_vt pc) (ev_fd e) (srv_threads s) w = (Inr (), ts, w')" "s' = s\<lparr>srv_threads := ts\<rparr>"
      using handle(3) by (auto simp: Server_event_def split: prod.splits)
    with remove_inv [OF c J] ClientDisconnected show ?thesis by auto
  qed
  with handle show ?thesis by simp
next
  case (worker_test i s t es w)
  with I have J: "inv s es w" by simp
  have "budget es ((srv_threads s)[i := Multi (ThreadMulti_test t)]) w"
    by (rule budget_keep [OF _ worker_test(3)]) (use J worker_test(4) in \<open>auto simp: ThreadMulti_test_def\<close>)
  moreover have "tcp_map (thread_sessions (srv_threads s ! i))" using J worker_test(3) by simp
  ultimately have "inv (s\<lparr>srv_threads := (srv_threads s)[i := Multi (ThreadMulti_test t)]\<rparr>) es w"
    by (intro inv_update [OF J]) (simp_all add: worker_test(4))
  then show ?thesis by (simp add: worker_test(2))
next
  case (worker_wake i s t w t' w' es)
  with I have J: "inv s es w" and m: "tcp_map (tm_sessions t)" using nth_mem [OF worker_wake(3)] by fastforce+
  have "budget es ((srv_threads s)[i := Multi t']) w' \<and> tcp_map (tm_sessions t')"
  proof (cases "tm_queue t")
    case Nil
    with worker_wake(6) have "t' = t\<lparr>worker := AtTest\<rparr>" "w' = w" by (simp_all add: ThreadMulti_wake_def)
    moreover from this have "budget es ((srv_threads s)[i := Multi t']) w'"
      by (intro budget_keep [OF _ worker_wake(3), where w = w]) (use J worker_wake(4) Nil in auto)
    ultimately show ?thesis using m by simp
  next
    case (Cons fd q)
    obtain r m' w1 where it: "sessions_iterate (pc_vt pc) fd (tm_sessions t) w = (r, m', w1)" by (metis prod.exhaust)
    with worker_wake(6) Cons have t': "t' = t\<lparr>tm_sessions := m', tm_queue := q, worker := AtTest\<rparr>" "w' = w1"
      by (simp_all add: ThreadMulti_wake_def)
    note L = iterate_law [OF c m it, folded t'(2)]
    have "budget es (srv_threads s) w" using J by blast
    from budget_serve [OF this worker_wake(3) conjunct1 [OF L] conjunct2 [OF L]]
    have "budget es ((srv_threads s)[i := Multi t']) w'" by (auto simp: worker_wake(4) Cons t')
    with tcp_map_iterate [OF m it] show ?thesis by (simp add: t')
  qed
  then have "inv (s\<lparr>srv_threads := (srv_threads s)[i := Multi t']\<rparr>) es w'" by (intro inv_update [OF J]) simp_all
  then show ?thesis by (simp add: worker_wake(2))
next
  case (stop s es w)
  with I show ?thesis by (simp add: Server_stop_def)
qed

lemma reach_inv:
  assumes c: contract and I: "inv s [] w" and reach: "srv_reach pc (s, w) y"
  shows "case y of (s', es, w') \<Rightarrow> inv s' es w'"
  using reach
proof induction
  case reach_init
  with I show ?case by simp
next
  case (reach_step x y)
  from step_inv [OF c reach_step.hyps(2) reach_step.IH] show ?case .
qed

end

subsection \<open>Linux\<close>

text \<open>
  \<open>taken\<close> counts the bytes that \<^verbatim>\<open>recv\<close> has returned on a descriptor, \<open>notices\<close> the entries for it
  that \<^verbatim>\<open>epoll_wait\<close> has returned; no other call changes these counts.
\<close>

definition notify_contract ::
  "('w, 'z) os_scheme \<Rightarrow> ('w, 'n) net_scheme \<Rightarrow> ('w, 'e) epoll_scheme \<Rightarrow> ('w \<Rightarrow> SOCKET \<Rightarrow> nat) \<Rightarrow> ('w \<Rightarrow> SOCKET \<Rightarrow> nat) \<Rightarrow> bool" where
  [contract_defs]: "notify_contract os nt ep taken notices \<longleftrightarrow> epoll_contract ep \<and>
     (\<forall>fd n w r b w'. os_recv os fd n w = ((r, b), w') \<longrightarrow>
        length b \<le> n \<and> taken w' = (taken w)(fd := taken w fd + length b) \<and> notices w' = notices w) \<and>
     (\<forall>epfd n t w r evs w'. ep_wait ep epfd n t w = ((r, evs), w') \<longrightarrow>
        taken w' = taken w \<and> (\<forall>fd. notices w' fd = notices w fd + count_list (map snd evs) fd)) \<and>
     (\<forall>fd d. keeps (\<lambda>w. (taken w, notices w)) (os_send os fd d)) \<and>
     (\<forall>fd. keeps (\<lambda>w. (taken w, notices w)) (os_close os fd)) \<and>
     (\<forall>fd. keeps (\<lambda>w. (taken w, notices w)) (os_fcntl_getfl os fd)) \<and>
     (\<forall>fd fl. keeps (\<lambda>w. (taken w, notices w)) (os_fcntl_setfl os fd fl)) \<and>
     (\<forall>fd. keeps (\<lambda>w. (taken w, notices w)) (os_ioctl_fionbio os fd)) \<and>
     (\<forall>fd. keeps (\<lambda>w. (taken w, notices w)) (net_accept nt fd)) \<and>
     (\<forall>fd. keeps (\<lambda>w. (taken w, notices w)) (net_getnameinfo nt fd)) \<and>
     (\<forall>epfd fd fl d. keeps (\<lambda>w. (taken w, notices w)) (ep_ctl_add ep epfd fd fl d)) \<and>
     (\<forall>epfd fd. keeps (\<lambda>w. (taken w, notices w)) (ep_ctl_del ep epfd fd)) \<and>
     (\<forall>lg w. (taken (os_set_logger os lg w), notices (os_set_logger os lg w)) = (taken w, notices w))"

lemma notify_contractD:
  assumes "notify_contract os nt ep taken notices"
  shows "epoll_contract ep"
    "os_recv os fd n w = ((r, b), w') \<Longrightarrow>
       length b \<le> n \<and> taken w' = (taken w)(fd := taken w fd + length b) \<and> notices w' = notices w"
    "ep_wait ep epfd n t w = ((r, evs), w') \<Longrightarrow>
       taken w' = taken w \<and> (\<forall>fd. notices w' fd = notices w fd + count_list (map snd evs) fd)"
    "keeps (\<lambda>w. (taken w, notices w)) (os_send os fd d)" "keeps (\<lambda>w. (taken w, notices w)) (os_close os fd)"
    "keeps (\<lambda>w. (taken w, notices w)) (os_fcntl_getfl os fd)" "keeps (\<lambda>w. (taken w, notices w)) (os_fcntl_setfl os fd fl)"
    "keeps (\<lambda>w. (taken w, notices w)) (os_ioctl_fionbio os fd)" "keeps (\<lambda>w. (taken w, notices w)) (net_accept nt fd)"
    "keeps (\<lambda>w. (taken w, notices w)) (net_getnameinfo nt fd)" "keeps (\<lambda>w. (taken w, notices w)) (ep_ctl_add ep epfd fd fs x)"
    "keeps (\<lambda>w. (taken w, notices w)) (ep_ctl_del ep epfd fd)"
    "(taken (os_set_logger os lg w), notices (os_set_logger os lg w)) = (taken w, notices w)"
  using assms unfolding notify_contract_def by (blast | simp)+

lemma linux_wait_notified:
  assumes N: "notify_contract os nt ep taken notices" and run: "LinuxPoller_wait os ep t p w = (Inr res, w')"
  shows "taken w' = taken w \<and> notices w x + pending x res \<le> notices w' x"
proof -
  obtain n evs w1 where wt: "ep_wait ep (epoll_fd p) EVENT_BUFFER_SZ (int_of_count t) w = ((n, evs), w1)" by (metis prod.exhaust)
  note W = notify_contractD(3) [OF N wt] and C = epoll_contractD(3) [OF notify_contractD(1) [OF N] wt]
  show ?thesis
  proof (cases "n < 0")
    case True
    with run LinuxPoller_wait_failure [OF wt, of os] have "res = []" "w' = w1" by (auto split: if_splits)
    with W show ?thesis by simp
  next
    case False
    with LinuxPoller_wait_result [OF notify_contractD(1) [OF N] wt, of os] run
    have res: "res = class_events (linux_class (lp_server_fd p)) snd evs" by auto
    have "(taken w', notices w') = (taken w1, notices w1)"
    proof (rule event_loop_keeps [where step = "linux_event os ep p" and es = evs and r = "Inr res"])
      show "event_loop (linux_event os ep p) evs w1 = (Inr res, w')"
        using run False C by (simp add: LinuxPoller_wait_def io_bind_call wt)
      show "(taken b, notices b) = (taken a, notices a)" if "linux_event os ep p e a = (r, b)" for e a r b
        using that by (auto simp: linux_event_def io_bind_call throw_errno_def split: prod.splits if_splits
            dest!: keepsD [OF notify_contractD(12) [OF N]])
    qed
    with W pending_class_events [of x "linux_class (lp_server_fd p)" snd evs] show ?thesis by (simp add: res)
  qed
qed

interpretation lin_reads: notified_reads "linux_calls os sl nt ep" taken notices "notify_contract os nt ep taken notices"
  for os :: "'w os" and sl :: "'w openssl" and nt :: "'w net" and ep :: "('w, 'e) epoll_scheme" and taken notices
proof (unfold_locales, goal_cases)
  case (1 fd w r w' x)
  note D = notify_contractD [OF 1(1)]
  obtain i b w1 where rv: "os_recv os fd RECV_BUF_SZ w = ((i, b), w1)" by (metis prod.exhaust)
  with 1(2) have "w' = w1" by (auto simp: linux_calls_def TCPConnection_recv_eq [OF rv] dest: recv_result_world)
  with D(2) [OF rv] show ?case by simp
next
  case (2 fd d w q w')
  note D = notify_contractD [OF 2(1)]
  from 2(2) have run: "io_loop w (send_loop (os_send os fd d) (send_error os) (length d) 0 w) = (q, w')"
    by (simp add: linux_calls_def TCPConnection_send_def)
  show ?case by (rule io_loop_send_frame [OF run]) (rule keepsD [OF D(4)])
next
  case (3 fd w)
  from notify_contractD(5) [OF 3] show ?case by (simp add: keeps_def linux_calls_def close_socket_def)
next
  case (4 sfd w fd w')
  note D = notify_contractD [OF 4(1)]
  from 4(2) have run: "TCPServer_accept os nt sfd w = (Inr fd, w')" by (simp add: linux_calls_def)
  obtain w1 where "net_accept nt sfd w = (fd, w1)" "(taken w', notices w') = (taken w1, notices w1)"
    by (rule accept_keeps [OF run, of "\<lambda>w. (taken w, notices w)"]) (use D(6-8,10,13) in auto)
  with keepsD [OF D(9)] show ?case by metis
next
  case (5 p w evs p' w' x)
  from 5(2) linux_wait_notified [OF 5(1)] show ?case by (auto simp: linux_calls_def LinuxPoller_def)
next
  case (6 fd p w q p' w')
  from 6(2) keepsD [OF notify_contractD(11) [OF 6(1)]] show ?case
    by (auto simp: linux_calls_def LinuxPoller_def LinuxPoller_add_client_def io_bind_call throw_errno_def split: prod.splits if_splits)
qed


subsection \<open>A concrete burst\<close>

text \<open>
  The concrete world with the two counts. One client sends 20000 bytes at once, which are notified
  once; after the server has served the notification 3616 of them are left unread.
\<close>

record sim_cnt = sim_net +
  sim_taken :: "SOCKET \<Rightarrow> nat"
  sim_notices :: "SOCKET \<Rightarrow> nat"

definition cnt_os :: "sim_cnt os" where
  "cnt_os = sim_os\<lparr>os_recv := (\<lambda>fd n w. case sim_recv fd n w of ((r, b), w') \<Rightarrow>
     ((r, b), w'\<lparr>sim_taken := (sim_taken w')(fd := sim_taken w' fd + length b)\<rparr>))\<rparr>"

definition cnt_epoll :: "sim_cnt epoll" where
  "cnt_epoll = sim_epoll\<lparr>ep_wait := (\<lambda>epfd n t w. case ep_wait sim_epoll epfd n t w of ((r, evs), w') \<Rightarrow>
     ((r, evs), w'\<lparr>sim_notices := (\<lambda>fd. sim_notices w' fd + count_list (map snd evs) fd)\<rparr>))\<rparr>"

definition cnt_world :: sim_cnt where
  "cnt_world = sim_net.extend (sim_srv_world\<lparr>sim_events := [[(1, 3)], [(1, 0)]], sim_recvs := [replicate 20000 CHR ''x'']\<rparr>)
     (sim_cnt.fields (\<lambda>_. 0) (\<lambda>_. 0))"

definition cnt_calls :: "(linux_poller, sim_cnt) platform_calls" where
  "cnt_calls = linux_calls cnt_os sim_ssl sim_nt cnt_epoll"

lemma cnt_contract: "notify_contract cnt_os sim_nt cnt_epoll sim_taken sim_notices"
proof -
  note E = epoll_contractD [OF sim_epoll_contract]
  have c: "ep_ctl_add cnt_epoll = ep_ctl_add sim_epoll" "ep_ctl_del cnt_epoll = ep_ctl_del sim_epoll"
    "ep_interest cnt_epoll = ep_interest sim_epoll" by (simp_all add: cnt_epoll_def)
  have i: "ep_interest sim_epoll (w\<lparr>sim_notices := f\<rparr>) = ep_interest sim_epoll w" for f and w :: sim_cnt
    by (simp add: sim_epoll_def)
  have "ep_interest cnt_epoll w' = ep_interest cnt_epoll w \<and> r \<le> int n \<and> length evs = nat r \<and>
      distinct (map snd evs) \<and> snd ` set evs \<subseteq> ep_interest cnt_epoll w epfd"
    if "ep_wait cnt_epoll epfd n t w = ((r, evs), w')" for epfd n t w r evs w'
  proof -
    from that obtain w1 where w1: "ep_wait sim_epoll epfd n t w = ((r, evs), w1)"
      "w' = w1\<lparr>sim_notices := (\<lambda>fd. sim_notices w1 fd + count_list (map snd evs) fd)\<rparr>"
      by (auto simp: cnt_epoll_def split: prod.splits)
    with E(3) [OF w1(1)] show ?thesis by (simp add: c i)
  qed
  then have "epoll_contract cnt_epoll" unfolding epoll_contract_def c using E(1,2) by blast
  then show ?thesis
    by (auto simp: notify_contract_def cnt_os_def cnt_epoll_def keeps_def sim_os_def sim_recv_def sim_send_def sim_nt_def sim_new_fd_def
        sim_epoll_def Let_def split: list.splits prod.splits)
qed

lemmas cnt_eval = cnt_calls_def linux_calls_def LinuxPoller_def const_state_def LinuxPoller_wait_def linux_event_def io_bind_call
  sim_server_def sim_linux_def cnt_epoll_def cnt_os_def EVENT_BUFFER_SZ_def

text \<open>The worlds after the call of the client, after it is accepted and after its data is notified.\<close>

definition cnt_called :: sim_cnt where
  "cnt_called = cnt_world\<lparr>sim_events := [[(1, 0)]], sim_notices := (\<lambda>_. 0)(3 := 1)\<rparr>"

definition cnt_accepted :: sim_cnt where
  "cnt_accepted = cnt_called\<lparr>sim_open := {0, 3, 5}, sim_interest := (\<lambda>q. if q = 5 then {0, 3} else {})\<rparr>"

definition cnt_notified :: sim_cnt where
  "cnt_notified = cnt_accepted\<lparr>sim_events := [], sim_notices := (\<lambda>_. 0)(3 := 1, 0 := 1)\<rparr>"

lemmas cnt_worlds = cnt_notified_def cnt_accepted_def cnt_called_def cnt_world_def sim_srv_world_def sim_net_eval sim_net.defs sim_cnt.defs

lemma cnt_polls:
  "pl_wait (pc_poller cnt_calls) sim_linux cnt_world = (Inr [mk_Event NewClient 3], sim_linux, cnt_called)"
  "pl_wait (pc_poller cnt_calls) sim_linux cnt_accepted = (Inr [mk_Event ClientDataReady 0], sim_linux, cnt_notified)"
  by (simp_all add: cnt_eval cnt_worlds fun_eq_iff EPOLLIN_def EPOLLET_def EPOLLERR_def EPOLLHUP_def EPOLLRDHUP_def)

lemma cnt_client: "Server_new_client cnt_calls sim_server cnt_called = (Inr (), sim_served, cnt_accepted)"
proof -
  let ?w = "cnt_called\<lparr>sim_open := {0, 3, 5}\<rparr>"
  have acc: "TCPServer_accept cnt_os sim_nt 3 cnt_called = (Inr 0, ?w)"
    by (simp add: TCPServer_accept_def socket_mark_as_nonblocking_def sim_new_fd_def upt_conv_Cons INVALID_SOCKET_def log_quiet init_logger_def
        cnt_eval cnt_worlds)
  have "\<exists>i < 1. thread_index 0 1 = Inr i" by (rule thread_index_bound) simp_all
  then have add: "ThreadManager_add_session (Session_vtable cnt_os sim_ssl) (sim_session 0)
      (ThreadManager_new Threads_Single) ?w = (Inr (), [Single \<lparr> ts_sessions = [0 \<mapsto> sim_session 0] \<rparr>], ?w)"
    by (auto simp: ThreadManager_add_session_def at_thread_def ThreadSingle_new_def ThreadSingle_add_session_def
        drop_session_def)
  have pl: "pl_add_client (LinuxPoller cnt_os cnt_epoll) 0 sim_linux ?w = (Inr (), sim_linux, cnt_accepted)"
    by (simp add: LinuxPoller_add_client_def cnt_eval cnt_worlds fun_eq_iff)
  show ?thesis
    by (simp add: Server_new_client_def cnt_calls_def linux_calls_def sim_server_def acc add pl sim_served_def
        del: ThreadManager_new.simps)
qed

text \<open>The session reads as much as its buffer holds and echoes it.\<close>

lemma cnt_iteration:
  "\<exists>w'. session_iteration cnt_os sim_ssl (sim_session 0) cnt_notified = (Inr (), sim_session 0, w') \<and>
     sim_taken w' 0 = RECV_BUF_SZ \<and> sim_notices w' 0 = 1 \<and> sim_recvs w' = [replicate 3616 CHR ''x'']"
proof -
  let ?d = "replicate RECV_BUF_SZ CHR ''x''"
  let ?w = "cnt_notified\<lparr>sim_recvs := [replicate 3616 CHR ''x''], sim_taken := (\<lambda>_. 0)(0 := RECV_BUF_SZ)\<rparr>"
  have "os_recv cnt_os 0 RECV_BUF_SZ cnt_notified = ((int RECV_BUF_SZ, ?d), ?w)"
    by (simp add: cnt_os_def cnt_worlds sim_recv_def RECV_BUF_SZ_def)
  then have recv: "TCPConnection_recv cnt_os 0 cnt_notified = (Inr ?d, ?w)"
    by (simp add: TCPConnection_recv_eq recv_result_data RECV_BUF_SZ_def str_resize_def overwrite_def)
  obtain w' where w': "os_send cnt_os 0 ?d ?w = (int (length ?d), w')" and "sim_taken w' = sim_taken ?w" "sim_notices w' = sim_notices ?w"
    "sim_recvs w' = sim_recvs ?w"
    by (simp add: cnt_os_def sim_os_def sim_send_def cnt_worlds sim_world_def Let_def)
  moreover have "TCPConnection_send cnt_os 0 ?d ?w = (Inr (), w')"
    using send_loop_round [where call = "os_send cnt_os 0 ?d", OF _ w', of 0] by (simp add: TCPConnection_send_def send_loop_done RECV_BUF_SZ_def)
  moreover from this have "session_iteration cnt_os sim_ssl (sim_session 0) cnt_notified = (Inr (), sim_session 0, w')"
    using recv by (simp add: TestProtocol_create_session_def Session_iteration_def) (simp add: RECV_BUF_SZ_def)
  ultimately show ?thesis by (intro exI [of _ w']) (simp add: cnt_worlds)
qed

lemma cnt_poll_step:
  assumes "pl_wait (pc_poller cnt_calls) sim_linux w = (Inr evs, sim_linux, w')" and "s = sim_server\<lparr>srv_threads := ts\<rparr>"
  shows "srv_step cnt_calls (s, [], w) (s, evs, w')"
proof -
  have "srv_running s" "srv_poller s = sim_linux" "s\<lparr>srv_poller := sim_linux\<rparr> = s" by (simp_all add: assms(2) sim_server_def)
  with assms(1) poll [of s cnt_calls w evs sim_linux w'] show ?thesis by simp
qed

lemma cnt_reach:
  "\<exists>w'. srv_reach cnt_calls (sim_server, cnt_world) (sim_served, [], w') \<and>
     sim_taken w' 0 = RECV_BUF_SZ \<and> sim_notices w' 0 = 1 \<and> sim_recvs w' = [replicate 3616 CHR ''x'']"
proof -
  obtain w' where it: "session_iteration cnt_os sim_ssl (sim_session 0) cnt_notified = (Inr (), sim_session 0, w')"
    and w': "sim_taken w' 0 = RECV_BUF_SZ" "sim_notices w' 0 = 1" "sim_recvs w' = [replicate 3616 CHR ''x'']"
    using cnt_iteration by blast
  have "srv_reach cnt_calls (sim_server, cnt_world) (sim_server, [], cnt_world)"
    using reach_init [of cnt_calls "(sim_server, cnt_world)"] by simp
  then have "srv_reach cnt_calls (sim_server, cnt_world) (sim_server, [mk_Event NewClient 3], cnt_called)"
    by (rule reach_step) (rule cnt_poll_step [OF cnt_polls(1), of _ "srv_threads sim_server"], simp)
  then have "srv_reach cnt_calls (sim_server, cnt_world) (sim_served, [], cnt_accepted)"
    by (rule reach_step) (rule handle, simp add: Server_event_def cnt_client)
  then have "srv_reach cnt_calls (sim_server, cnt_world) (sim_served, [mk_Event ClientDataReady 0], cnt_notified)"
    by (rule reach_step) (rule cnt_poll_step [OF cnt_polls(2)], simp add: sim_served_def)
  moreover have "Server_event cnt_calls (mk_Event ClientDataReady 0) sim_served cnt_notified = (Inr (), sim_served, w')"
    by (simp add: Server_event_def cnt_calls_def linux_calls_def sim_served_def ThreadManager_single_dispatch it)
  ultimately have "srv_reach cnt_calls (sim_server, cnt_world) (sim_served, [], w')" by (blast intro: reach_step handle)
  with w' show ?thesis by blast
qed


end
