(* ===== verification/Delivery.thy ===== *)
theory Delivery
  imports Progress Notifications
begin

text \<open>
  No request is lost (\<^verbatim>\<open>server/server.cc\<close>, \<^verbatim>\<open>thread/threadmulti.cc\<close>, \<^verbatim>\<open>server/poller/poller.linux.cpp\<close>), with any
  number of threads and under every interleaving of the event loop with its workers. On Linux clients are registered with
  \<^verbatim>\<open>EPOLLET\<close>, so that input is reported once: each request that was not read yet must have exactly one token,
  which epoll holds until it reports the client, then the batch of events, then the queue of a worker.
\<close>

subsection \<open>Tokens\<close>

definition tokens :: "('w \<Rightarrow> SOCKET \<rightharpoonup> bool) \<Rightarrow> arrivals \<Rightarrow> session thread list \<Rightarrow> Event list \<Rightarrow> 'w \<Rightarrow> SOCKET \<Rightarrow> nat" where
  "tokens watch a ts es w fd =
     queued fd ts + pending fd es + (if fd \<in> to_report watch w \<and> inbox a fd \<noteq> '''' then 1 else 0)"

definition one_token :: "('w \<Rightarrow> SOCKET \<rightharpoonup> bool) \<Rightarrow> arrivals \<Rightarrow> session thread list \<Rightarrow> Event list \<Rightarrow> 'w \<Rightarrow> bool" where
  "one_token watch a ts es w \<longleftrightarrow> (\<forall>fd. tokens watch a ts es w fd = (if inbox a fd \<noteq> '''' then 1 else 0))"

text \<open>A worker's queue holds descriptors that are routed to it.\<close>

definition jobs_routed :: "'s thread list \<Rightarrow> bool" where
  "jobs_routed ts \<longleftrightarrow> (\<forall>i < length ts. \<forall>fd \<in> set (thread_queue (ts ! i)). thread_index fd (length ts) = Inr i)"

lemma jobs_routed_update:
  assumes "jobs_routed ts" and "\<And>fd. fd \<in> set (thread_queue t) \<Longrightarrow> fd \<in> set (thread_queue (ts ! i)) \<or> thread_index fd (length ts) = Inr i"
  shows "jobs_routed (ts[i := t])"
  unfolding jobs_routed_def
proof (intro allI impI ballI)
  fix j fd
  assume j: "j < length (ts[i := t])" and fd: "fd \<in> set (thread_queue (ts[i := t] ! j))"
  show "thread_index fd (length (ts[i := t])) = Inr j"
    using assms(1) assms(2) [of fd] j fd by (cases "j = i") (auto simp: jobs_routed_def)
qed

text \<open>Nobody has asked a worker to stop.\<close>

fun alive :: "'s thread \<Rightarrow> bool" where
  "alive (Single t) = True"
| "alive (Multi t) = (\<not> stop_requested t \<and> worker t \<noteq> Exited)"

lemma alive_update: "\<forall>t \<in> set ts. alive t \<Longrightarrow> alive t' \<Longrightarrow> \<forall>t \<in> set (ts[i := t']). alive t"
  using set_update_subset_insert [of ts i t'] by blast

subsection \<open>The invariant\<close>

text \<open>
  \<open>acc\<close> lists the clients accepted so far with their requests; the part of the invariant that does not speak of tokens
  is \<open>work\<close>.
\<close>

definition delivery ::
  "('w, 'z) os_scheme \<Rightarrow> ('w, 'y) openssl_scheme \<Rightarrow> nat \<Rightarrow> SOCKET \<Rightarrow> SOCKET \<Rightarrow> ('w \<Rightarrow> arrivals) \<Rightarrow> ('w \<Rightarrow> SOCKET \<rightharpoonup> bool) \<Rightarrow>
     string list \<Rightarrow> (connection \<Rightarrow> session) \<Rightarrow> (SOCKET \<times> string) list \<Rightarrow> linux_poller server \<Rightarrow> Event list \<Rightarrow> 'w \<Rightarrow> bool" where
  "delivery os sl lim sfd epfd view watch requests pr acc s es w \<longleftrightarrow>
     srv_class s = TCPServer \<and> srv_fd s = sfd \<and> srv_protocol s = pr \<and> lp_server_fd (srv_poller s) = sfd \<and> epoll_fd (srv_poller s) = epfd \<and>
     manager_inv (Session_vtable os sl) thread_sessions (srv_threads s) \<and> jobs_routed (srv_threads s) \<and>
     work lim sfd requests pr acc UNIV [] (manager_lookup thread_sessions (srv_threads s)) (view w) \<and>
     dom (watch w) = fst ` set acc \<and> one_token watch (view w) (srv_threads s) es w \<and>
     news es \<le> length (backlog (view w)) \<and> (\<forall>e \<in> set es. ev_type e \<noteq> ClientDisconnected) \<and>
     (\<forall>t \<in> set (srv_threads s). alive t)"

lemma deliveryD:
  assumes "delivery os sl lim sfd epfd view watch requests pr acc s es w"
  shows "srv_class s = TCPServer" "srv_fd s = sfd" "srv_protocol s = pr" "lp_server_fd (srv_poller s) = sfd" "epoll_fd (srv_poller s) = epfd"
    "manager_inv (Session_vtable os sl) thread_sessions (srv_threads s)" "jobs_routed (srv_threads s)"
    "work lim sfd requests pr acc UNIV [] (manager_lookup thread_sessions (srv_threads s)) (view w)"
    "dom (watch w) = fst ` set acc" "one_token watch (view w) (srv_threads s) es w"
    "news es \<le> length (backlog (view w))" "\<forall>e \<in> set es. ev_type e \<noteq> ClientDisconnected"
    "manager_ok (srv_threads s)" "\<forall>t \<in> set (srv_threads s). alive t"
  using assms by (auto simp: delivery_def manager_inv_def)

text \<open>Something that is queued or in the batch has a request to be read.\<close>

lemma token_unread:
  assumes "one_token watch a ts es w" and "0 < queued fd ts + pending fd es"
  shows "inbox a fd \<noteq> ''''" and "queued fd ts + pending fd es = 1" and "\<not> (fd \<in> to_report watch w \<and> inbox a fd \<noteq> '''')"
proof -
  have "tokens watch a ts es w fd = (if inbox a fd \<noteq> '''' then 1 else 0)" using assms(1) by (simp add: one_token_def)
  with assms(2) show "inbox a fd \<noteq> ''''" "queued fd ts + pending fd es = 1" "\<not> (fd \<in> to_report watch w \<and> inbox a fd \<noteq> '''')"
    by (auto simp: tokens_def split: if_splits)
qed

subsection \<open>The steps that are left\<close>

text \<open>
  Every step with a token brings it closer to a session: from epoll to the batch, from there to a queue or, with a single
  thread, to the session at once. A client that waits to be accepted counts for the token it is going to have, and for its event.
\<close>

definition held :: "('w \<Rightarrow> SOCKET \<rightharpoonup> bool) \<Rightarrow> arrivals \<Rightarrow> 'w \<Rightarrow> SOCKET set" where
  "held watch a w = {fd \<in> to_report watch w. inbox a fd \<noteq> ''''}"

definition jobs :: "'s thread list \<Rightarrow> nat" where
  "jobs ts = sum_list (map (length \<circ> thread_queue) ts)"

definition effort :: "('w \<Rightarrow> SOCKET \<rightharpoonup> bool) \<Rightarrow> arrivals \<Rightarrow> session thread list \<Rightarrow> Event list \<Rightarrow> 'w \<Rightarrow> nat" where
  "effort watch a ts es w = 4 * length (backlog a) + (length (backlog a) - news es) + 3 * card (held watch a w) +
     2 * length (data_fds es) + jobs ts"

lemma jobs_update: "i < length ts \<Longrightarrow> jobs (ts[i := t]) + length (thread_queue (ts ! i)) = jobs ts + length (thread_queue t)"
  unfolding jobs_def
proof (induction ts arbitrary: i)
  case (Cons u ts)
  then show ?case by (cases i) (auto simp: add.assoc)
qed simp

lemma held_finite: "work lim sfd requests pr acc R es m a \<Longrightarrow> finite (held watch a w)"
  by (rule finite_subset [OF _ work_finite]) (auto simp: held_def)

subsection \<open>Reading a request\<close>

text \<open>An iteration of the session of a client whose request was not read yet.\<close>

lemma read_job:
  assumes q: "quiet_sockets os nt lim sfd view watch" and ok: "requests_ok pr requests"
    and D: "delivery os sl lim sfd epfd view watch requests pr acc s es w"
    and i: "i < length (srv_threads s)" "thread_index fd (length (srv_threads s)) = Inr i" and ne: "inbox (view w) fd \<noteq> ''''"
  obtains x y w' where "sessions_iterate (Session_vtable os sl) fd (thread_sessions (srv_threads s ! i)) w =
      (Inr (), (thread_sessions (srv_threads s ! i))(fd \<mapsto> x), w')"
    and "session_feed (pr (TCPConnection fd)) (inbox (view w) fd) = Some (y, x)"
    and "view w' = handed_over fd y (received fd RECV_BUF_SZ (view w))"
    and "dom (watch w') = dom (watch w)" and "\<forall>z. z \<noteq> fd \<longrightarrow> watch w' z = watch w z"
    and "inbox (view w') = (inbox (view w))(fd := '''')" and "backlog (view w') = backlog (view w)"
proof -
  let ?m = "manager_lookup thread_sessions (srv_threads s)" and ?e = "mk_Event ClientDataReady fd"
  have "due (view w) [?e]" using ne by (simp add: due_def)
  from work_wait [OF deliveryD(8) [OF D] this, of UNIV] have W: "work lim sfd requests pr acc UNIV [?e] ?m (view w)" by simp
  obtain d where d: "inbox (view w) fd = d" "d \<in> set requests" "?m fd = Some (pr (TCPConnection fd))"
    by (rule work_unread [OF W]) simp_all
  have p: "protocol_ok pr" and len: "length (inbox (view w) fd) \<le> RECV_BUF_SZ" using ok d(1,2) by (auto simp: requests_ok_def)
  obtain w1 where r: "connection_recv os sl (TCPConnection fd) w = (Inr (inbox (view w) fd), w1)"
    "view w1 = received fd RECV_BUF_SZ (view w)" "dom (watch w1) = dom (watch w)" "\<forall>x. x \<noteq> fd \<longrightarrow> watch w1 x = watch w x"
    by (rule quiet_recv [OF q ne len])
  obtain y x where f: "session_feed (pr (TCPConnection fd)) (inbox (view w) fd) = Some (y, x)"
    using ok d(1,2) by (fastforce simp: requests_ok_def)
  obtain w2 where t: "connection_send os sl (TCPConnection fd) y w1 = (Inr (), w2)" "view w2 = handed_over fd y (view w1)" "watch w2 = watch w1"
    by (rule quiet_send [OF q])
  have "session_connection (pr (TCPConnection fd)) = TCPConnection fd" using p by (simp add: protocol_ok_def)
  from session_iteration_feed [OF this r(1) ne f t(1)]
  have "session_iteration os sl (pr (TCPConnection fd)) w = (Inr (), x, w2)" .
  moreover have "thread_sessions (srv_threads s ! i) fd = Some (pr (TCPConnection fd))"
    using d(3) i(2) by (simp add: manager_lookup_def)
  moreover have "inbox (view w2) = (inbox (view w))(fd := '''')" "backlog (view w2) = backlog (view w)"
    using len by (simp_all add: t(2) r(2) handed_over_def received_def)
  ultimately show ?thesis using that f r t by (simp add: sessions_iterate_def)
qed

text \<open>The same in the thread that does it, which uses up the client's token.\<close>

lemma read_done:
  assumes D: "delivery os sl lim sfd epfd view watch requests pr acc s es w" and ok: "requests_ok pr requests"
    and i: "i < length (srv_threads s)" "thread_index fd (length (srv_threads s)) = Inr i" and ne: "inbox (view w) fd \<noteq> ''''"
    and run: "sessions_iterate (Session_vtable os sl) fd (thread_sessions (srv_threads s ! i)) w = (Inr (), thread_sessions t', w')"
    and x: "thread_sessions t' = (thread_sessions (srv_threads s ! i))(fd \<mapsto> x)"
    and f: "session_feed (pr (TCPConnection fd)) (inbox (view w) fd) = Some (y, x)"
    and v: "view w' = handed_over fd y (received fd RECV_BUF_SZ (view w))"
    and wa: "dom (watch w') = dom (watch w)" "\<forall>z. z \<noteq> fd \<longrightarrow> watch w' z = watch w z"
    and use: "\<And>z. count_list (thread_queue t') z + pending z es' + (if z = fd then 1 else 0) =
      count_list (thread_queue (srv_threads s ! i)) z + pending z es"
    and al: "alive t'" and es': "news es' = news es" "set es' \<subseteq> set es" and sub: "set (thread_queue t') \<subseteq> set (thread_queue (srv_threads s ! i))"
  shows "delivery os sl lim sfd epfd view watch requests pr acc (s\<lparr>srv_threads := (srv_threads s)[i := t']\<rparr>) es' w'"
proof -
  let ?ts = "srv_threads s" and ?m = "manager_lookup thread_sessions (srv_threads s)" and ?e = "mk_Event ClientDataReady fd"
  note I = deliveryD [OF D]
  have "keys_ok (Session_vtable os sl) (thread_sessions (?ts ! i))" using I(6) i(1) by (simp add: manager_inv_def)
  then have M: "manager_inv (Session_vtable os sl) thread_sessions (?ts[i := t'])"
    using sess.iterate_keys(1,3) [OF run] by (intro manager_same_dom(1) [OF I(6) i(1)]) simp_all
  have m: "manager_lookup thread_sessions (?ts[i := t']) = ?m(fd \<mapsto> x)" by (rule manager_lookup_update [OF i x])
  have "due (view w) [?e]" using ne by (simp add: due_def)
  from work_wait [OF I(8) this, of UNIV] have W: "work lim sfd requests pr acc UNIV [?e] ?m (view w)" by simp
  obtain d where "inbox (view w) fd = d" "d \<in> set requests" by (rule work_unread [OF W]) simp_all
  then have len: "length (inbox (view w) fd) \<le> RECV_BUF_SZ" using ok by (simp add: requests_ok_def)
  with work_read(1) [OF W, of y x UNIV RECV_BUF_SZ] f
  have W': "work lim sfd requests pr acc UNIV [] (?m(fd \<mapsto> x)) (view w')" by (simp add: v)
  have inb: "inbox (view w') z = (if z = fd then '''' else inbox (view w) z)" for z
    using len by (simp add: v handed_over_def received_def)
  have "one_token watch (view w') (?ts[i := t']) es' w'"
    unfolding one_token_def
  proof
    fix z
    have c: "queued z (?ts[i := t']) + pending z es' + (if z = fd then 1 else 0) = queued z ?ts + pending z es"
      using queued_update [OF i(1), of z t'] use [of z] by linarith
    show "tokens watch (view w') (?ts[i := t']) es' w' z = (if inbox (view w') z \<noteq> '''' then 1 else 0)"
    proof (cases "z = fd")
      case True
      then have u: "Suc (queued fd (?ts[i := t']) + pending fd es') = queued fd ?ts + pending fd es" using c by simp
      then have "0 < queued fd ?ts + pending fd es" by linarith
      from token_unread(2) [OF I(10) this] u True have "queued z (?ts[i := t']) + pending z es' = 0" by simp
      with True show ?thesis by (simp add: tokens_def inb)
    next
      case False
      with c I(10) wa(2) show ?thesis by (simp add: tokens_def one_token_def inb to_report_def)
    qed
  qed
  moreover have "jobs_routed (?ts[i := t'])" using sub by (intro jobs_routed_update [OF I(7)]) blast
  moreover have "news es' \<le> length (backlog (view w'))" using I(11) es'(1) by (simp add: v handed_over_def received_def)
  ultimately show ?thesis using I M W' m wa(1) es'(2) alive_update [OF I(14) al, of i] by (auto simp: delivery_def)
qed

lemma read_effort:
  assumes "one_token watch (view w) ts es w" and "0 < queued fd ts + pending fd es" and "i < length ts"
    and "inbox (view w') = (inbox (view w))(fd := '''')" and "backlog (view w') = backlog (view w)"
    and "\<forall>z. z \<noteq> fd \<longrightarrow> watch w' z = watch w z" and "news es' = news es"
    and "length (thread_queue t') + 2 * length (data_fds es') < length (thread_queue (ts ! i)) + 2 * length (data_fds es)"
  shows "effort watch (view w') (ts[i := t']) es' w' < effort watch (view w) ts es w"
proof -
  have "held watch (view w') w' = held watch (view w) w"
    using token_unread(3) [OF assms(1,2)] assms(4,6) by (auto simp: held_def to_report_def split: if_splits)
  with jobs_update [OF assms(3), of t'] assms(5,7,8) show ?thesis by (simp add: effort_def)
qed

subsection \<open>Clients registered with EPOLLET\<close>

text \<open>
  epoll when nothing more arrives, as in \<open>quiet_epoll\<close>, with what \<^verbatim>\<open>EPOLLET\<close> promises: \<open>watch\<close> observes the clients
  registered with this flag, and a report of one of them is not repeated.
\<close>

definition edge_epoll ::
  "('w, 'e) epoll_scheme \<Rightarrow> SOCKET \<Rightarrow> SOCKET \<Rightarrow> ('w \<Rightarrow> arrivals) \<Rightarrow> ('w \<Rightarrow> SOCKET \<rightharpoonup> bool) \<Rightarrow> bool" where
  [contract_defs]: "edge_epoll ep epfd sfd view watch \<longleftrightarrow>
     (\<forall>fd fl w. fd \<noteq> sfd \<longrightarrow> fd \<notin> dom (watch w) \<longrightarrow> fl AND EPOLLIN \<noteq> 0 \<longrightarrow> fl AND EPOLLET \<noteq> 0 \<longrightarrow>
        (\<exists>w'. ep_ctl_add ep epfd fd fl fd w = (0, w') \<and> view w' = view w \<and>
          watch w' = (watch w)(fd \<mapsto> inbox (view w) fd \<noteq> ''''))) \<and>
     quiet_epoll_wait ep epfd sfd view watch \<and>
     (\<forall>n t w r evs w'. ep_wait ep epfd n t w = ((r, evs), w') \<longrightarrow> to_report watch w' \<subseteq> to_report watch w - snd ` set evs)"

lemma edge_add:
  assumes "edge_epoll ep (epoll_fd p) sfd view watch" and "fd \<noteq> sfd" and "fd \<notin> dom (watch w)" and "inbox (view w) fd \<noteq> ''''"
  obtains w' where "LinuxPoller_add_client os ep fd p w = (Inr (), w')" and "view w' = view w" and "watch w' = (watch w)(fd \<mapsto> True)"
proof -
  let ?fl = "EPOLLIN OR EPOLLET OR EPOLLRDHUP OR EPOLLHUP OR EPOLLERR"
  have "?fl AND EPOLLIN \<noteq> 0" "?fl AND EPOLLET \<noteq> 0"
    by (simp_all add: EPOLLIN_def EPOLLERR_def EPOLLHUP_def EPOLLRDHUP_def EPOLLET_def)
  then obtain w' where "ep_ctl_add ep (epoll_fd p) fd ?fl fd w = (0, w')"
    "view w' = view w" "watch w' = (watch w)(fd \<mapsto> inbox (view w) fd \<noteq> '''')"
    using assms(1-3) unfolding edge_epoll_def by meson
  with assms(4) show ?thesis using that by (simp add: LinuxPoller_add_client_def io_bind_call)
qed

subsection \<open>The steps of the server\<close>

text \<open>A new session changes no queue.\<close>

lemma add_session_queues:
  assumes "ThreadManager_add_session vt x ts w = (Inr (), ts', w')"
  shows "queued fd ts' = queued fd ts" and "jobs_routed ts \<Longrightarrow> jobs_routed ts'"
    and "\<forall>t \<in> set ts. alive t \<Longrightarrow> \<forall>t \<in> set ts'. alive t" and "jobs ts' = jobs ts"
proof -
  obtain i t' where i: "i < length ts" and ts: "ts' = ts[i := t']" and t': "thread_add_session vt x (ts ! i) w = (t', w')"
    using assms by (auto simp: ThreadManager_add_session_def at_thread_def split: sum.splits if_splits prod.splits)
  have q: "thread_queue t' = thread_queue (ts ! i)" "alive t' = alive (ts ! i)"
    using t' by (cases "ts ! i"; auto simp: ThreadSingle_add_session_def ThreadMulti_add_session_def)+
  show "queued fd ts' = queued fd ts" using queued_update [OF i, of fd t'] by (simp add: ts q)
  show "jobs ts' = jobs ts" using jobs_update [OF i, of t'] by (simp add: ts q)
  show "jobs_routed ts'" if "jobs_routed ts" unfolding ts by (rule jobs_routed_update [OF that]) (simp add: q)
  show "\<forall>t \<in> set ts'. alive t" if "\<forall>t \<in> set ts. alive t"
    unfolding ts using that i by (intro alive_update [OF that]) (simp add: q)
qed

text \<open>The token of a new client is in epoll.\<close>

lemma one_token_accept:
  assumes "one_token watch a ts (e # es) w" and "ev_type e = NewClient" and "inbox a fd = ''''" and "hd (backlog a) \<noteq> ''''"
    and "\<And>x. queued x ts' = queued x ts" and "watch w' = (watch w)(fd \<mapsto> True)"
  shows "one_token watch (accepted fd a) ts' es w'"
  unfolding one_token_def
proof
  fix x
  have "tokens watch a ts (e # es) w x = (if inbox a x \<noteq> '''' then 1 else 0)" using assms(1) by (simp add: one_token_def)
  with assms(2-6) show "tokens watch (accepted fd a) ts' es w' x = (if inbox (accepted fd a) x \<noteq> '''' then 1 else 0)"
    by (cases "x = fd") (auto simp: tokens_def accepted_def to_report_def)
qed

lemma accept_effort:
  assumes "ev_type e = NewClient" and "finite (held watch a w)" and "inbox a fd = ''''" and "hd (backlog a) \<noteq> ''''" and "backlog a \<noteq> []"
    and "news (e # es) \<le> length (backlog a)" and "jobs ts' = jobs ts" and "a' = accepted fd a" and "watch w' = (watch w)(fd \<mapsto> True)"
  shows "effort watch a' ts' es w' < effort watch a ts (e # es) w"
proof -
  have "held watch a' w' = insert fd (held watch a w)" "fd \<notin> held watch a w"
    using assms(3,4,8,9) by (auto simp: held_def to_report_def accepted_def split: if_splits)
  with assms(2) have "card (held watch a' w') = Suc (card (held watch a w))" by simp
  with assms(1,5-8) show ?thesis by (cases "backlog a") (auto simp: effort_def accepted_def)
qed

lemma delivery_accept:
  assumes q: "quiet_sockets os nt lim sfd view watch" and E: "edge_epoll ep epfd sfd view watch" and ok: "requests_ok pr requests"
    and D: "delivery os sl lim sfd epfd view watch requests pr acc s (e # es) w" and e: "ev_type e = NewClient"
  shows "\<exists>acc' s' w'. Server_event (linux_calls os sl nt ep) e s w = (Inr (), s', w') \<and>
    delivery os sl lim sfd epfd view watch requests pr acc' s' es w' \<and> srv_running s' = srv_running s \<and>
    effort watch (view w') (srv_threads s') es w' < effort watch (view w) (srv_threads s) (e # es) w"
proof -
  let ?ts = "srv_threads s" and ?m = "manager_lookup thread_sessions (srv_threads s)" and ?d = "hd (backlog (view w))"
  note I = deliveryD [OF D]
  have b: "backlog (view w) \<noteq> []" using I(11) e by auto
  have "due (view w) [e]" using b e by (cases "backlog (view w)") (auto simp: due_def)
  from work_wait [OF I(8) this, of UNIV] have W: "work lim sfd requests pr acc UNIV [e] ?m (view w)" by simp
  have free: "card (opened (view w)) < lim" using I(8) b by (cases "backlog (view w)") (auto simp: work_def)
  obtain fd w1 where a: "TCPServer_accept os nt sfd w = (Inr fd, w1)" "fd \<notin> opened (view w)"
    "view w1 = accepted fd (view w)" "watch w1 = (watch w)(fd := None)" by (rule quiet_accept [OF q b free])
  note new = work_fresh [OF W a(2)]
  let ?x = "pr (TCPConnection fd)"
  have x: "session_fd ?x = fd" using ok by (simp add: requests_ok_def protocol_ok_def session_fd_def)
  obtain r ts w2 where add: "ThreadManager_add_session (Session_vtable os sl) ?x ?ts w1 = (r, ts, w2)" by (metis prod.exhaust)
  note A = sess.dyn.manager_add [OF I(13) add [unfolded ThreadManager_add_session_def]]
  have w2: "w2 = w1" and m: "manager_lookup thread_sessions ts = ?m(fd \<mapsto> ?x)"
    using A(3,4) new(3) x by (simp_all add: drop_session_def)
  note Q = add_session_queues [OF add [unfolded A(1)]]
  have "?d \<in> set requests" using I(8) b by (simp add: work_def)
  then have d: "?d \<noteq> ''''" using ok by (auto simp: requests_ok_def)
  then have "inbox (view w1) fd \<noteq> ''''" by (simp add: a(3) accepted_def)
  with E I(5) new(2) obtain w3 where p: "LinuxPoller_add_client os ep fd (srv_poller s) w1 = (Inr (), w3)"
    "view w3 = view w1" "watch w3 = (watch w1)(fd \<mapsto> True)" using edge_add [of ep "srv_poller s" sfd view watch fd w1 os] a(4) by auto
  let ?s = "s\<lparr>srv_threads := ts\<rparr>"
  have run: "Server_event (linux_calls os sl nt ep) e s w = (Inr (), ?s, w3)"
    using e I(1-3) a(1) add A(1) p(1) w2
    by (simp add: Server_event_def Server_new_client_def linux_calls_def LinuxPoller_def const_state_def)
  have "work lim sfd requests pr (acc @ [(fd, ?d)]) UNIV [] (?m(fd \<mapsto> ?x)) (accepted fd (view w))"
    using work_accept(1) [OF W e a(2), of UNIV] ok by (simp add: requests_ok_def)
  moreover have "one_token watch (accepted fd (view w)) ts es w3"
    by (rule one_token_accept [OF I(10) e new(4) d Q(1)]) (simp add: p(3) a(4))
  moreover have "dom (watch w3) = fst ` set (acc @ [(fd, ?d)])" using I(9) by (auto simp: p(3) a(4))
  moreover have "news es \<le> length (backlog (view w3))" using I(11) e by (simp add: p(2) a(3) accepted_def)
  ultimately have "delivery os sl lim sfd epfd view watch requests pr (acc @ [(fd, ?d)]) ?s es w3"
    using I A(5) m Q(2,3) by (simp add: delivery_def p(2) a(3))
  moreover have "effort watch (view w3) ts es w3 < effort watch (view w) ?ts (e # es) w"
    by (rule accept_effort [OF e _ new(4) d b _ Q(4)])
      (use held_finite [OF I(8)] I(11) in \<open>simp_all add: p(2,3) a(3,4)\<close>)
  ultimately show ?thesis using run by (intro exI [of _ "acc @ [(fd, ?d)]"] exI [of _ ?s] exI [of _ w3]) simp
qed

text \<open>A thread that keeps its sessions while tokens move between its queue and the batch.\<close>

lemma tokens_move:
  assumes D: "delivery os sl lim sfd epfd view watch requests pr acc s es w" and i: "i < length (srv_threads s)"
    and same: "thread_sessions t' = thread_sessions (srv_threads s ! i)" and al: "alive t'"
    and move: "\<And>z. count_list (thread_queue t') z + pending z es' = count_list (thread_queue (srv_threads s ! i)) z + pending z es"
    and es': "news es' = news es" "set es' \<subseteq> set es"
    and to: "\<And>fd. fd \<in> set (thread_queue t') \<Longrightarrow> fd \<in> set (thread_queue (srv_threads s ! i)) \<or> thread_index fd (length (srv_threads s)) = Inr i"
  shows "delivery os sl lim sfd epfd view watch requests pr acc (s\<lparr>srv_threads := (srv_threads s)[i := t']\<rparr>) es' w"
proof -
  let ?ts = "srv_threads s"
  note I = deliveryD [OF D]
  have "keys_ok (Session_vtable os sl) (thread_sessions (?ts ! i))" using I(6) i by (simp add: manager_inv_def)
  then have M: "manager_inv (Session_vtable os sl) thread_sessions (?ts[i := t'])"
    using same by (intro manager_same_dom(1) [OF I(6) i]) simp_all
  have "queued z (?ts[i := t']) + pending z es' = queued z ?ts + pending z es" for z
    using queued_update [OF i, of z t'] move [of z] by linarith
  with I(10) have "one_token watch (view w) (?ts[i := t']) es' w" by (simp add: one_token_def tokens_def)
  moreover have "jobs_routed (?ts[i := t'])" by (rule jobs_routed_update [OF I(7) to])
  ultimately show ?thesis using I M manager_lookup_same [where sess = thread_sessions, OF i same] es' alive_update [OF I(14) al, of i]
    by (auto simp: delivery_def)
qed

lemma delivery_data:
  assumes q: "quiet_sockets os nt lim sfd view watch" and ok: "requests_ok pr requests"
    and D: "delivery os sl lim sfd epfd view watch requests pr acc s (e # es) w" and e: "ev_type e = ClientDataReady"
  shows "\<exists>s' w'. Server_event (linux_calls os sl nt ep) e s w = (Inr (), s', w') \<and>
    delivery os sl lim sfd epfd view watch requests pr acc s' es w' \<and> srv_running s' = srv_running s \<and>
    effort watch (view w') (srv_threads s') es w' < effort watch (view w) (srv_threads s) (e # es) w"
proof -
  let ?ts = "srv_threads s" and ?fd = "ev_fd e" and ?vt = "Session_vtable os sl"
  note I = deliveryD [OF D]
  have tk: "0 < queued ?fd ?ts + pending ?fd (e # es)" using e by simp
  note ne = token_unread(1) [OF I(10) tk]
  obtain i where i: "i < length ?ts" "thread_index ?fd (length ?ts) = Inr i"
    and at: "at_thread ?fd (thread_data_available ?vt ?fd) ?ts w =
      (case thread_data_available ?vt ?fd (?ts ! i) w of (r, t', w') \<Rightarrow> (r, ?ts[i := t'], w'))"
    by (rule at_thread_eq [OF I(13)])
  have run: "Server_event (linux_calls os sl nt ep) e s w = (Inr (), s\<lparr>srv_threads := ?ts[i := t']\<rparr>, w')"
    if "thread_data_available ?vt ?fd (?ts ! i) w = (Inr (), t', w')" for t' w'
    using at that e by (simp add: Server_event_def linux_calls_def ThreadManager_data_available_def)
  show ?thesis
  proof (cases "?ts ! i")
    case (Single u)
    obtain x y w' where R: "sessions_iterate ?vt ?fd (thread_sessions (?ts ! i)) w = (Inr (), (thread_sessions (?ts ! i))(?fd \<mapsto> x), w')"
      "session_feed (pr (TCPConnection ?fd)) (inbox (view w) ?fd) = Some (y, x)"
      "view w' = handed_over ?fd y (received ?fd RECV_BUF_SZ (view w))" "dom (watch w') = dom (watch w)" "\<forall>z. z \<noteq> ?fd \<longrightarrow> watch w' z = watch w z"
      "inbox (view w') = (inbox (view w))(?fd := '''')" "backlog (view w') = backlog (view w)"
      by (rule read_job [OF q ok D i ne])
    let ?t = "Single (u\<lparr>ts_sessions := (thread_sessions (?ts ! i))(?fd \<mapsto> x)\<rparr>)"
    have "delivery os sl lim sfd epfd view watch requests pr acc (s\<lparr>srv_threads := ?ts[i := ?t]\<rparr>) es w'"
      by (rule read_done [OF D ok i ne _ _ R(2-5)]) (use R(1) e Single in auto)
    moreover have "thread_data_available ?vt ?fd (?ts ! i) w = (Inr (), ?t, w')"
      using R(1) Single by (simp add: ThreadSingle_data_available_def)
    moreover have "effort watch (view w') (?ts[i := ?t]) es w' < effort watch (view w) ?ts (e # es) w"
      by (rule read_effort [where es = "e # es" and es' = es, OF I(10) tk i(1) R(6,7,5)]) (use e Single in auto)
    ultimately show ?thesis using run by (intro exI [of _ "s\<lparr>srv_threads := ?ts[i := ?t]\<rparr>"] exI [of _ w']) simp
  next
    case (Multi u)
    let ?t = "Multi (ThreadMulti_data_available ?fd u)"
    have "alive (?ts ! i)" using I(14) i(1) by simp
    then have "delivery os sl lim sfd epfd view watch requests pr acc (s\<lparr>srv_threads := ?ts[i := ?t]\<rparr>) es w"
      by (intro tokens_move [OF D i(1)]) (use e Multi i in \<open>auto simp: ThreadMulti_data_available_def\<close>)
    moreover have "thread_data_available ?vt ?fd (?ts ! i) w = (Inr (), ?t, w)" using Multi by simp
    moreover have "effort watch (view w) (?ts[i := ?t]) es w < effort watch (view w) ?ts (e # es) w"
      using jobs_update [OF i(1), of ?t] e Multi by (simp add: effort_def ThreadMulti_data_available_def)
    ultimately show ?thesis using run by (intro exI [of _ "s\<lparr>srv_threads := ?ts[i := ?t]\<rparr>"] exI [of _ w]) simp
  qed
qed

lemma delivery_wake:
  assumes q: "quiet_sockets os nt lim sfd view watch" and ok: "requests_ok pr requests"
    and D: "delivery os sl lim sfd epfd view watch requests pr acc s es w"
    and i: "i < length (srv_threads s)" and t: "srv_threads s ! i = Multi t"
  shows "\<exists>t' w'. ThreadMulti_wake (Session_vtable os sl) t w = (Inr (), t', w') \<and>
    delivery os sl lim sfd epfd view watch requests pr acc (s\<lparr>srv_threads := (srv_threads s)[i := Multi t']\<rparr>) es w' \<and>
    (tm_queue t \<noteq> [] \<longrightarrow> effort watch (view w') ((srv_threads s)[i := Multi t']) es w' < effort watch (view w) (srv_threads s) es w)"
proof -
  let ?ts = "srv_threads s" and ?vt = "Session_vtable os sl"
  note I = deliveryD [OF D]
  have al: "alive (Multi t)" using I(14) i t by (metis nth_mem)
  show ?thesis
  proof (cases "tm_queue t")
    case Nil
    have "delivery os sl lim sfd epfd view watch requests pr acc (s\<lparr>srv_threads := (srv_threads s)[i := Multi (t\<lparr>worker := AtTest\<rparr>)]\<rparr>) es w"
      by (rule tokens_move [OF D i]) (use t al in auto)
    with Nil show ?thesis by (simp add: ThreadMulti_wake_def)
  next
    case (Cons fd js)
    have fd: "fd \<in> set (thread_queue (?ts ! i))" by (simp add: t Cons)
    then have r: "thread_index fd (length ?ts) = Inr i" using I(7) i by (simp add: jobs_routed_def)
    have "0 < queued fd ?ts" using queued_update [OF i, of fd "Multi (t\<lparr>tm_queue := []\<rparr>)"] t Cons by simp
    then have tk: "0 < queued fd ?ts + pending fd es" by simp
    note ne = token_unread(1) [OF I(10) tk]
    obtain x y w' where R: "sessions_iterate ?vt fd (thread_sessions (?ts ! i)) w = (Inr (), (thread_sessions (?ts ! i))(fd \<mapsto> x), w')"
      "session_feed (pr (TCPConnection fd)) (inbox (view w) fd) = Some (y, x)"
      "view w' = handed_over fd y (received fd RECV_BUF_SZ (view w))" "dom (watch w') = dom (watch w)" "\<forall>z. z \<noteq> fd \<longrightarrow> watch w' z = watch w z"
      "inbox (view w') = (inbox (view w))(fd := '''')" "backlog (view w') = backlog (view w)"
      by (rule read_job [OF q ok D i r ne])
    let ?t = "t\<lparr>tm_sessions := (tm_sessions t)(fd \<mapsto> x), tm_queue := js, worker := AtTest\<rparr>"
    have "delivery os sl lim sfd epfd view watch requests pr acc (s\<lparr>srv_threads := ?ts[i := Multi ?t]\<rparr>) es w'"
      by (rule read_done [OF D ok i r ne _ _ R(2-5)]) (use R(1) t Cons al in auto)
    moreover have "effort watch (view w') (?ts[i := Multi ?t]) es w' < effort watch (view w) ?ts es w"
      by (rule read_effort [OF I(10) tk i R(6,7,5)]) (use t Cons in auto)
    ultimately show ?thesis using R(1) t Cons by (simp add: ThreadMulti_wake_def)
  qed
qed

text \<open>A wait moves tokens from epoll to the batch.\<close>

lemma pending_data: "pending fd es = count_list (data_fds es) fd"
  by (induction es) auto

lemma one_token_wait:
  assumes "one_token watch a ts [] w" and "distinct (data_fds es)" and "\<forall>fd \<in> set (data_fds es). inbox a fd \<noteq> ''''"
    and "set (data_fds es) \<subseteq> to_report watch w" and "to_report watch w' = to_report watch w - set (data_fds es)"
  shows "one_token watch a ts es w'"
  unfolding one_token_def
proof
  fix fd
  have "tokens watch a ts [] w fd = (if inbox a fd \<noteq> '''' then 1 else 0)" using assms(1) by (simp add: one_token_def)
  with assms(3-5) count_list_distinct [OF assms(2), of fd] show "tokens watch a ts es w' fd = (if inbox a fd \<noteq> '''' then 1 else 0)"
    by (auto simp: tokens_def pending_data)
qed

lemma news_data_Nil: "due a es \<Longrightarrow> news es = 0 \<Longrightarrow> data_fds es = [] \<Longrightarrow> es = []"
proof (cases es)
  case (Cons e es')
  assume "due a es" "news es = 0" "data_fds es = []"
  with Cons show ?thesis by (cases "ev_type e") (auto simp: due_def)
qed simp

lemma wait_effort:
  assumes "due a es" and "finite (held watch a w)"
    and "set (data_fds es) \<subseteq> to_report watch w" and "to_report watch w' = to_report watch w - set (data_fds es)" and "es \<noteq> []"
  shows "effort watch a ts es w' < effort watch a ts [] w"
proof -
  have h: "held watch a w' = held watch a w - set (data_fds es)" "set (data_fds es) \<subseteq> held watch a w"
    using assms(1,3,4) by (auto simp: held_def due_def)
  have "card (set (data_fds es)) = length (data_fds es)" using assms(1) by (intro distinct_card) (simp add: due_def)
  then have c: "card (held watch a w') + length (data_fds es) = card (held watch a w)"
    using assms(2) h card_mono [OF assms(2) h(2)] by (simp add: card_Diff_subset)
  have "0 < news es + length (data_fds es)" using news_data_Nil [OF assms(1)] assms(5) by auto
  moreover have "news es \<le> length (backlog a)" using assms(1) by (simp add: due_def)
  ultimately show ?thesis using c unfolding effort_def event_list_simps(1,2) list.size by linarith
qed

lemma delivery_wait:
  assumes E: "edge_epoll ep epfd sfd view watch" and D: "delivery os sl lim sfd epfd view watch requests pr acc s [] w"
  shows "\<exists>es w'. LinuxPoller_wait os ep t (srv_poller s) w = (Inr es, w') \<and>
    delivery os sl lim sfd epfd view watch requests pr acc s es w' \<and> view w' = view w \<and>
    (if es = [] then backlog (view w) = [] \<and> to_report watch w = {}
     else effort watch (view w') (srv_threads s) es w' < effort watch (view w) (srv_threads s) [] w)"
proof -
  note I = deliveryD [OF D]
  have "quiet_epoll_wait ep (epoll_fd (srv_poller s)) (lp_server_fd (srv_poller s)) view watch"
    using E I(4,5) by (simp add: edge_epoll_def)
  then obtain evs w' where k: "ep_wait ep epfd EVENT_BUFFER_SZ (int_of_count t) w = ((int (length evs), evs), w')"
    and r: "LinuxPoller_wait os ep t (srv_poller s) w = (Inr (class_events (linux_class sfd) snd evs), w')"
    and c: "\<forall>x \<in> set evs. linux_class sfd x = Some (if snd x = sfd then NewClient else ClientDataReady)"
    and d: "due (view w) (class_events (linux_class sfd) snd evs)" and rep: "\<forall>x \<in> set evs. snd x \<noteq> sfd \<longrightarrow> snd x \<in> to_report watch w"
    and n: "evs = [] \<longrightarrow> backlog (view w) = [] \<and> to_report watch w = {}" and v: "view w' = view w" "dom (watch w') = dom (watch w)"
    and kept: "to_report watch w - snd ` set evs \<subseteq> to_report watch w'"
    by (rule LinuxPoller_wait_batch [where os = os and t = t and w = w]) (simp add: I(4,5))
  let ?es = "class_events (linux_class sfd) snd evs"
  note B = quiet_batch [OF c]
  have "sfd \<notin> to_report watch w" using I(8,9) by (auto simp: work_def to_report_def)
  moreover have "to_report watch w' \<subseteq> to_report watch w - snd ` set evs" using E k unfolding edge_epoll_def by blast
  ultimately have T: "to_report watch w' = to_report watch w - set (data_fds ?es)" using kept by (auto simp: B(1))
  have S: "set (data_fds ?es) \<subseteq> to_report watch w" using rep by (auto simp: B(1))
  note eff = wait_effort [OF d held_finite [OF I(8)] S T, of "srv_threads s"]
  have "one_token watch (view w) (srv_threads s) ?es w'" using d by (intro one_token_wait [OF I(10) _ _ S T]) (simp_all add: due_def)
  then have "delivery os sl lim sfd epfd view watch requests pr acc s ?es w'"
    using I B(3) d v by (auto simp: delivery_def due_def)
  with r n B(4) v eff show ?thesis by (intro exI [of _ ?es] exI [of _ w']) auto
qed

subsection \<open>Every interleaving\<close>

lemma delivery_event:
  assumes "quiet_sockets os nt lim sfd view watch" and "edge_epoll ep epfd sfd view watch" and "requests_ok pr requests"
    and "delivery os sl lim sfd epfd view watch requests pr acc s (e # es) w"
  shows "\<exists>acc' s' w'. Server_event (linux_calls os sl nt ep) e s w = (Inr (), s', w') \<and>
    delivery os sl lim sfd epfd view watch requests pr acc' s' es w' \<and> srv_running s' = srv_running s \<and>
    effort watch (view w') (srv_threads s') es w' < effort watch (view w) (srv_threads s) (e # es) w"
proof (cases "ev_type e")
  case NewClient
  then show ?thesis by (rule delivery_accept [OF assms])
next
  case ClientDataReady
  from delivery_data [OF assms(1,3,4) this, of ep] show ?thesis by blast
next
  case ClientDisconnected
  with deliveryD(12) [OF assms(4)] show ?thesis by simp
qed

lemma delivery_step:
  assumes q: "quiet_sockets os nt lim sfd view watch" and E: "edge_epoll ep epfd sfd view watch" and ok: "requests_ok pr requests"
    and step: "srv_step (linux_calls os sl nt ep) x y"
    and D: "case x of (s, es, w) \<Rightarrow> \<exists>acc. delivery os sl lim sfd epfd view watch requests pr acc s es w"
  shows "case y of (s, es, w) \<Rightarrow> \<exists>acc. delivery os sl lim sfd epfd view watch requests pr acc s es w"
  using step
proof (cases rule: srv_step.cases)
  case (poll s w evs p w')
  with D obtain acc where "delivery os sl lim sfd epfd view watch requests pr acc s [] w" by auto
  from delivery_wait [OF E this, of wait_timeout] poll(4) poll(2) show ?thesis
    by (auto simp: linux_calls_def LinuxPoller_def const_state_def split: prod.splits)
next
  case (handle e s w s' w' es)
  with D obtain acc where "delivery os sl lim sfd epfd view watch requests pr acc s (e # es) w" by auto
  from delivery_event [OF q E ok this] handle show ?thesis by auto
next
  case (worker_test i s t es w)
  with D obtain acc where J: "delivery os sl lim sfd epfd view watch requests pr acc s es w" by auto
  have "alive (Multi t)" using deliveryD(14) [OF J] worker_test(3,4) by (metis nth_mem)
  then have "delivery os sl lim sfd epfd view watch requests pr acc (s\<lparr>srv_threads := (srv_threads s)[i := Multi (ThreadMulti_test t)]\<rparr>) es w"
    by (intro tokens_move [OF J worker_test(3)]) (simp_all add: ThreadMulti_test_def worker_test(4))
  then show ?thesis by (auto simp: worker_test(2))
next
  case (worker_wake i s t w t' w' es)
  with D obtain acc where "delivery os sl lim sfd epfd view watch requests pr acc s es w" by auto
  from delivery_wake [OF q ok this worker_wake(3,4)] worker_wake show ?thesis by (auto simp: linux_calls_def)
next
  case (stop s es w)
  with D show ?thesis by (auto simp: delivery_def Server_stop_def)
qed

lemma delivery_reach:
  assumes "srv_reach (linux_calls os sl nt ep) (s, w) y"
    and "quiet_sockets os nt lim sfd view watch" and "edge_epoll ep epfd sfd view watch" and "requests_ok pr requests"
    and "delivery os sl lim sfd epfd view watch requests pr acc s [] w"
  shows "case y of (s, es, w) \<Rightarrow> \<exists>acc. delivery os sl lim sfd epfd view watch requests pr acc s es w"
  using assms(1)
proof (induction rule: srv_reach.induct)
  case reach_init
  with assms(5) show ?case by auto
next
  case (reach_step x y)
  with delivery_step [OF assms(2-4)] show ?case by blast
qed

text \<open>When nothing is left in a batch, in a queue or in epoll, everything was answered.\<close>

definition idle :: "('w, 'z) os_scheme \<Rightarrow> ('w, 'e) epoll_scheme \<Rightarrow> linux_poller server \<Rightarrow> Event list \<Rightarrow> 'w \<Rightarrow> bool" where
  "idle os ep s es w \<longleftrightarrow> es = [] \<and> (\<forall>t \<in> set (srv_threads s). thread_queue t = []) \<and>
     (\<exists>p w'. pl_wait (LinuxPoller os ep) (srv_poller s) w = (Inr [], p, w'))"

lemma delivery_idle:
  assumes E: "edge_epoll ep epfd sfd view watch" and ok: "requests_ok pr requests"
    and D: "delivery os sl lim sfd epfd view watch requests pr acc s es w" and i: "idle os ep s es w"
  shows "backlog (view w) = [] \<and> each_replied pr s (map fst acc) requests (outbox (view w))"
proof -
  have es: "es = []" using i by (simp add: idle_def)
  note J = D [unfolded es] and I = deliveryD [OF D [unfolded es]]
  have e: "backlog (view w) = []" "to_report watch w = {}"
    using delivery_wait [OF E J, of wait_timeout] i by (auto simp: idle_def LinuxPoller_def const_state_def split: prod.splits)
  have "queued fd (srv_threads s) = 0" for fd using i by (simp add: idle_def queued_def sum_list_eq_0_iff)
  with e(2) I(10) have "inbox (view w) fd = ''''" for fd by (simp add: one_token_def tokens_def split: if_splits)
  with e(1) have "work_left (view w) = 0" by (simp add: work_left_def)
  from work_replied [OF I(8) this ok] e(1) show ?thesis by blast
qed

text \<open>From every state an idle one can be reached.\<close>

lemma srv_reach_steps: "(srv_step pc)\<^sup>*\<^sup>* x y \<Longrightarrow> srv_reach pc init x \<Longrightarrow> srv_reach pc init y"
  by (induction rule: rtranclp_induct) (auto intro: reach_step)

lemma delivery_worker:
  assumes q: "quiet_sockets os nt lim sfd view watch" and ok: "requests_ok pr requests"
    and D: "delivery os sl lim sfd epfd view watch requests pr acc s es w"
    and t: "t \<in> set (srv_threads s)" "thread_queue t \<noteq> []" and r: "(srv_step (linux_calls os sl nt ep))\<^sup>*\<^sup>* x (s, es, w)"
  obtains s' w' where "(srv_step (linux_calls os sl nt ep))\<^sup>*\<^sup>* x (s', es, w')" and "delivery os sl lim sfd epfd view watch requests pr acc s' es w'"
    and "srv_running s' = srv_running s" and "effort watch (view w') (srv_threads s') es w' < effort watch (view w) (srv_threads s) es w"
proof -
  let ?ts = "srv_threads s" and ?pc = "linux_calls os sl nt ep"
  obtain u where u: "t = Multi u" using t(2) by (cases t) auto
  obtain i where i: "i < length ?ts" "?ts ! i = Multi u" using t(1) u by (metis in_set_conv_nth)
  have al: "\<not> stop_requested u" "worker u \<noteq> Exited" using deliveryD(14) [OF D] t(1) u by auto
  define v where "v = u\<lparr>worker := AtWait\<rparr>"
  define s1 where "s1 = s\<lparr>srv_threads := ?ts[i := Multi v]\<rparr>"
  have D1: "delivery os sl lim sfd epfd view watch requests pr acc s1 es w"
    unfolding s1_def by (rule tokens_move [OF D i(1)]) (use i(2) al in \<open>auto simp: v_def\<close>)
  have r1: "(srv_step ?pc)\<^sup>*\<^sup>* x (s1, es, w)"
  proof (cases "worker u")
    case AtTest
    from rtranclp.rtrancl_into_rtrancl [OF r worker_test [OF i AtTest]] al(1) show ?thesis by (simp add: ThreadMulti_test_def s1_def v_def)
  next
    case AtWait
    then have "v = u" by (simp add: v_def)
    then have "s1 = s" using i by (simp add: s1_def list_update_same_conv)
    with r show ?thesis by simp
  qed (use al in simp)
  have i1: "i < length (srv_threads s1)" "srv_threads s1 ! i = Multi v" "worker v = AtWait" "tm_queue v \<noteq> []"
    using i t(2) u by (auto simp: s1_def v_def)
  have e1: "effort watch (view w) (srv_threads s1) es w = effort watch (view w) ?ts es w"
    using jobs_update [OF i(1), of "Multi v"] i(2) by (simp add: effort_def s1_def v_def)
  obtain t' w' where k: "ThreadMulti_wake (pc_vt ?pc) v w = (Inr (), t', w')"
    "delivery os sl lim sfd epfd view watch requests pr acc (s1\<lparr>srv_threads := (srv_threads s1)[i := Multi t']\<rparr>) es w'"
    "effort watch (view w') ((srv_threads s1)[i := Multi t']) es w' < effort watch (view w) (srv_threads s1) es w"
    using delivery_wake [OF q ok D1 i1(1,2)] i1(4) by (auto simp: linux_calls_def)
  show ?thesis
    by (rule that [OF rtranclp.rtrancl_into_rtrancl [OF r1 worker_wake [OF i1(1-3) k(1)]] k(2)]) (use k(3) e1 in \<open>simp_all add: s1_def\<close>)
qed

lemma delivery_ends:
  assumes q: "quiet_sockets os nt lim sfd view watch" and E: "edge_epoll ep epfd sfd view watch" and ok: "requests_ok pr requests"
    and "delivery os sl lim sfd epfd view watch requests pr acc s es w" and "srv_running s"
    and "(srv_step (linux_calls os sl nt ep))\<^sup>*\<^sup>* x (s, es, w)"
  shows "\<exists>s' w'. (srv_step (linux_calls os sl nt ep))\<^sup>*\<^sup>* x (s', [], w') \<and> idle os ep s' [] w'"
  using assms(4-6)
proof (induction "effort watch (view w) (srv_threads s) es w" arbitrary: acc s es w rule: less_induct)
  case less
  note D = less.prems(1) and run = less.prems(2) and r = less.prems(3)
  show ?case
  proof (cases es)
    case (Cons e es')
    from delivery_event [OF q E ok D [unfolded Cons]] obtain acc' s' w' where
      h: "Server_event (linux_calls os sl nt ep) e s w = (Inr (), s', w')" "delivery os sl lim sfd epfd view watch requests pr acc' s' es' w'"
      "srv_running s' = srv_running s" "effort watch (view w') (srv_threads s') es' w' < effort watch (view w) (srv_threads s) es w"
      unfolding Cons by blast
    show ?thesis by (rule less.hyps [OF h(4,2)]) (use h(3) run rtranclp.rtrancl_into_rtrancl [OF r [unfolded Cons] handle [OF h(1)]] in simp_all)
  next
    case Nil
    show ?thesis
    proof (cases "\<exists>t \<in> set (srv_threads s). thread_queue t \<noteq> []")
      case True
      then obtain t where "t \<in> set (srv_threads s)" "thread_queue t \<noteq> []" by blast
      from delivery_worker [OF q ok D this r] less.hyps run show ?thesis by metis
    next
      case False
      from delivery_wait [OF E D [unfolded Nil], of wait_timeout] obtain es' w' where
        p: "LinuxPoller_wait os ep wait_timeout (srv_poller s) w = (Inr es', w')" "delivery os sl lim sfd epfd view watch requests pr acc s es' w'"
        "es' = [] \<or> effort watch (view w') (srv_threads s) es' w' < effort watch (view w) (srv_threads s) [] w" by metis
      have pl: "pl_wait (LinuxPoller os ep) (srv_poller s) w = (Inr es', srv_poller s, w')" by (simp add: LinuxPoller_def const_state_def p(1))
      show ?thesis
      proof (cases "es' = []")
        case True
        with False pl Nil r show ?thesis by (auto simp: idle_def)
      next
        case ne: False
        have "srv_step (linux_calls os sl nt ep) (s, [], w) (s\<lparr>srv_poller := srv_poller s\<rparr>, es', w')"
          by (rule poll [OF run]) (simp add: linux_calls_def pl)
        then have "(srv_step (linux_calls os sl nt ep))\<^sup>*\<^sup>* x (s, es', w')" using r Nil by (auto intro: rtranclp.rtrancl_into_rtrancl)
        from less.hyps [OF _ p(2) run this] p(3) ne Nil show ?thesis by blast
      qed
    qed
  qed
qed

subsection \<open>The theorems\<close>

text \<open>A TCP server with a valid number of threads that has accepted nobody yet.\<close>

definition fresh_server :: "thread_count \<Rightarrow> nat \<Rightarrow> 'p server \<Rightarrow> arrivals \<Rightarrow> bool" where
  "fresh_server n lim s a \<longleftrightarrow> srv_class s = TCPServer \<and> srv_threads s = ThreadManager_new n \<and>
     (case n of Threads_Single \<Rightarrow> True | Threads k \<Rightarrow> 0 < k \<and> k < 2 ^ 31) \<and>
     srv_fd s \<in> opened a \<and> inbox a = (\<lambda>fd. '''') \<and> card (opened a) + length (backlog a) \<le> lim"

lemma delivery_start:
  assumes "fresh_server n lim s (view w)" and "lp_server_fd (srv_poller s) = srv_fd s" and "watch w = Map.empty"
  shows "delivery os sl lim (srv_fd s) (epoll_fd (srv_poller s)) view watch (backlog (view w)) (srv_protocol s) [] s [] w"
proof -
  have ts: "srv_threads s = ThreadManager_new n" using assms(1) by (simp add: fresh_server_def)
  have M: "manager_inv (Session_vtable os sl) thread_sessions (srv_threads s)"
    using assms(1) unfolding ts by (intro manager_inv_new) (cases n; simp add: fresh_server_def)
  then have "manager_lookup thread_sessions (srv_threads s) = Map.empty"
    unfolding ts by (intro ext manager_lookup_new) (simp add: manager_inv_def)
  moreover have "thread_queue t = [] \<and> alive t" if "t \<in> set (srv_threads s)" for t
    using that unfolding ts by (cases n) (auto simp: ThreadMulti_new_def)
  ultimately show ?thesis
    using assms M by (auto simp: delivery_def fresh_server_def work_def due_def jobs_routed_def one_token_def tokens_def to_report_def
        simp del: ThreadManager_new.simps)
qed



subsection \<open>Two clients and two workers\<close>

text \<open>The second case of \<^verbatim>\<open>tests/tcpserver.cc\<close>: a server with two threads, and three clients that have sent a line each.\<close>

definition multi_world :: quiet_world where
  "multi_world = test_world\<lparr>qw_arrivals := (qw_arrivals test_world)\<lparr>backlog := [''hello'' @ crlf, ''hellw'' @ crlf, ''helly'' @ crlf]\<rparr>\<rparr>"

definition multi_server :: "linux_poller server" where
  "multi_server = sim_server\<lparr>srv_threads := ThreadManager_new (Threads 2)\<rparr>"

lemma quiet_world_edge: "edge_epoll quiet_ep 5 3 qw_arrivals qw_watched"
proof -
  have "to_report qw_watched w' \<subseteq> to_report qw_watched w - snd ` set evs" if "ep_wait quiet_ep 5 n t w = ((r, evs), w')" for n t w r evs w'
    using that by (force simp: quiet_ep_def Let_def qw_watched_report map_of_map_snd)
  moreover have "fl AND EPOLLIN \<noteq> 0 \<longrightarrow> (\<exists>w'. ep_ctl_add quiet_ep 5 fd fl fd w = (0, w') \<and> qw_arrivals w' = qw_arrivals w \<and>
      qw_watched w' = (qw_watched w)(fd \<mapsto> inbox (qw_arrivals w) fd \<noteq> ''''))" if "fd \<noteq> 3" "fd \<notin> dom (qw_watched w)" for fd fl w
    using quiet_world_epoll that unfolding quiet_epoll_def by blast
  moreover have "quiet_epoll_wait quiet_ep 5 3 qw_arrivals qw_watched" using quiet_world_epoll by (simp add: quiet_epoll_def)
  ultimately show ?thesis unfolding edge_epoll_def by blast
qed

lemma multi_environment:
  "quiet_sockets quiet_os quiet_nt 64 (srv_fd multi_server) qw_arrivals qw_watched"
  "edge_epoll quiet_ep (epoll_fd (srv_poller multi_server)) (srv_fd multi_server) qw_arrivals qw_watched"
  "lp_server_fd (srv_poller multi_server) = srv_fd multi_server" "qw_watched multi_world = Map.empty"
  "fresh_server (Threads 2) 64 multi_server (qw_arrivals multi_world)"
  "requests_ok (srv_protocol multi_server) (backlog (qw_arrivals multi_world))"
proof -
  have s: "srv_fd multi_server = 3" "srv_poller multi_server = \<lparr> lp_server_fd = 3, epoll_fd = 5 \<rparr>"
    "srv_protocol multi_server = TestProtocol_create_session" by (simp_all add: multi_server_def sim_server_def sim_linux_def)
  show "quiet_sockets quiet_os quiet_nt 64 (srv_fd multi_server) qw_arrivals qw_watched"
    "edge_epoll quiet_ep (epoll_fd (srv_poller multi_server)) (srv_fd multi_server) qw_arrivals qw_watched"
    "lp_server_fd (srv_poller multi_server) = srv_fd multi_server" by (simp_all add: s quiet_world_sockets quiet_world_edge)
  show "qw_watched multi_world = Map.empty" by (simp add: qw_watched_def multi_world_def test_world_def fun_eq_iff)
  show "fresh_server (Threads 2) 64 multi_server (qw_arrivals multi_world)"
    by (simp add: fresh_server_def s multi_world_def test_world_def) (simp add: multi_server_def sim_server_def)
  show "requests_ok (srv_protocol multi_server) (backlog (qw_arrivals multi_world))"
    unfolding s by (rule requests_ok_protocols) (simp_all add: multi_world_def test_world_def crlf_def RECV_BUF_SZ_def)
qed

abbreviation multi_calls :: "(linux_poller, quiet_world) platform_calls" where
  "multi_calls \<equiv> linux_calls quiet_os quiet_sl quiet_nt quiet_ep"

lemma multi_start: "srv_reach multi_calls (multi_server, multi_world) (multi_server, [], multi_world)"
  using reach_init [of multi_calls "(multi_server, multi_world)"] by simp

lemma multi_poll: "srv_reach multi_calls (multi_server, multi_world) (multi_server, [mk_Event NewClient 3], multi_world)"
proof -
  have "pl_wait (pc_poller multi_calls) (srv_poller multi_server) multi_world = (Inr [mk_Event NewClient 3], srv_poller multi_server, multi_world)"
    by (simp add: linux_calls_def LinuxPoller_def const_state_def LinuxPoller_wait_def io_bind_call quiet_ep_def qw_events_def Let_def
        linux_event_def multi_world_def test_world_def multi_server_def sim_server_def sim_linux_def EVENT_BUFFER_SZ_def)
  moreover have "srv_running multi_server" by (simp add: multi_server_def sim_server_def)
  ultimately have "srv_step multi_calls (multi_server, [], multi_world) (multi_server\<lparr>srv_poller := srv_poller multi_server\<rparr>, [mk_Event NewClient 3], multi_world)"
    by (intro poll)
  with multi_start show ?thesis by (auto intro: reach_step)
qed



end
