(* ===== verification/Windows.thy ===== *)
theory Windows
  imports Streams
begin

text \<open>
  The server on Windows (\<^verbatim>\<open>server/server.cc\<close> with \<^verbatim>\<open>server/poller/poller.win32.cpp\<close>), for every interleaving of the event loop
  with the workers. The poller keeps a list of the sockets it has been given and takes none off it: every session is on
  the list, and the list grows with every client that was ever accepted.
\<close>

subsection \<open>The sockets that are polled\<close>

definition polled_sockets :: "win32_poller \<Rightarrow> SOCKET list" where
  "polled_sockets p = map pfd_fd (wp_fds p)"

lemma polled_add [simp]: "polled_sockets (Win32Poller_add_client fd p) = polled_sockets p @ [fd]"
  by (simp add: polled_sockets_def Win32Poller_add_client_def poll_fd_def)

lemma polled_wait: "wsapoll_contract wsa \<Longrightarrow> Win32Poller_wait wsa t p w = (r, p', w') \<Longrightarrow> polled_sockets p' = polled_sockets p"
  using Win32Poller_wait_fds by (fastforce simp: polled_sockets_def)

lemma create_connection_fd:
  "create_connection os sl cls fd w = (Inr c, w') \<Longrightarrow> connection_fd c = fd"
  by (cases cls) (auto simp: SSLConnection_new_def io_bind_call split: prod.splits if_splits option.splits)

subsection \<open>The invariant\<close>

text \<open>\<open>first\<close> are the sockets polled at the beginning.\<close>

definition polled_inv ::
  "(win32_poller, 'w, 'x) platform_calls_scheme \<Rightarrow> SOCKET list \<Rightarrow> win32_poller server \<Rightarrow> bool" where
  "polled_inv pc first s \<longleftrightarrow> protocol_ok (srv_protocol s) \<and> manager_inv (pc_vt pc) thread_sessions (srv_threads s) \<and>
     (\<exists>later. polled_sockets (srv_poller s) = first @ later \<and>
        dom (manager_lookup thread_sessions (srv_threads s)) \<subseteq> set later)"

lemma polled_inv_threads:
  assumes "polled_inv pc first s" and "manager_inv (pc_vt pc) thread_sessions ts"
    and "dom (manager_lookup thread_sessions ts) \<subseteq> dom (manager_lookup thread_sessions (srv_threads s))"
  shows "polled_inv pc first (s\<lparr>srv_threads := ts\<rparr>)"
  using assms unfolding polled_inv_def by fastforce

lemma polled_event:
  assumes "polled_inv (win32_calls os sl nt wsa) first s"
    and run: "Server_event (win32_calls os sl nt wsa) e s w = (Inr (), s', w')"
  shows "polled_inv (win32_calls os sl nt wsa) first s'"
proof -
  let ?pc = "win32_calls os sl nt wsa"
  have M: "manager_inv (Session_vtable os sl) thread_sessions (srv_threads s)" and pr: "protocol_ok (srv_protocol s)"
    using assms(1) by (simp_all add: polled_inv_def win32_calls_def)
  then have ok: "manager_ok (srv_threads s)" by (simp add: manager_inv_def)
  show ?thesis
  proof (cases "ev_type e")
    case NewClient
    then obtain fd w1 c w2 ts w3 where acc: "TCPServer_accept os nt (srv_fd s) w = (Inr fd, w1)"
      and cc: "create_connection os sl (srv_class s) fd w1 = (Inr c, w2)"
      and add: "ThreadManager_add_session (Session_vtable os sl) (srv_protocol s c) (srv_threads s) w2 = (Inr (), ts, w3)"
      and s': "s' = s\<lparr>srv_threads := ts, srv_poller := Win32Poller_add_client fd (srv_poller s)\<rparr>"
      using run by (auto simp: Server_event_def Server_new_client_def win32_calls_def Win32Poller_def split: prod.splits sum.splits)
    note T = sess.dyn.manager_add [OF ok add [unfolded ThreadManager_add_session_def]]
    have "session_fd (srv_protocol s c) = fd" using pr create_connection_fd [OF cc] by (simp add: protocol_ok_def session_fd_def)
    with T(3,5) M assms(1) show ?thesis by (fastforce simp: polled_inv_def s' win32_calls_def)
  next
    case ClientDataReady
    then obtain ts where run': "ThreadManager_data_available (Session_vtable os sl) (ev_fd e) (srv_threads s) w = (Inr (), ts, w')"
      and s': "s' = s\<lparr>srv_threads := ts\<rparr>" using run by (auto simp: Server_event_def win32_calls_def split: prod.splits)
    note D = sess.dyn.manager_data [OF ok run' [unfolded ThreadManager_data_available_def]]
    from D(2) D(4) [OF M] show ?thesis unfolding s' by (intro polled_inv_threads [OF assms(1)]) (simp_all add: win32_calls_def)
  next
    case ClientDisconnected
    then obtain ts where run': "ThreadManager_remove_session (Session_vtable os sl) (ev_fd e) (srv_threads s) w = (Inr (), ts, w')"
      and s': "s' = s\<lparr>srv_threads := ts\<rparr>" using run by (auto simp: Server_event_def win32_calls_def split: prod.splits)
    note R = sess.dyn.manager_remove [OF ok run' [unfolded ThreadManager_remove_session_def]]
    from R(3) R(5) [OF M] show ?thesis unfolding s' by (intro polled_inv_threads [OF assms(1)]) (auto simp: win32_calls_def)
  qed
qed

text \<open>A worker keeps the keys of its map.\<close>

lemma polled_worker:
  assumes "polled_inv pc first s" and "i < length (srv_threads s)"
    and "dom (thread_sessions t') = dom (thread_sessions (srv_threads s ! i))" and "keys_ok (pc_vt pc) (thread_sessions t')"
  shows "polled_inv pc first (s\<lparr>srv_threads := (srv_threads s)[i := t']\<rparr>)"
proof -
  have "manager_inv (pc_vt pc) thread_sessions (srv_threads s)" using assms(1) by (simp add: polled_inv_def)
  from manager_same_dom [OF this assms(2-4)] show ?thesis by (intro polled_inv_threads [OF assms(1)]) simp_all
qed

lemma wake_keys:
  assumes "ThreadMulti_wake (Session_vtable os sl) t w = (r, t', w')" and "keys_ok (Session_vtable os sl) (tm_sessions t)"
  shows "dom (tm_sessions t') = dom (tm_sessions t)" and "keys_ok (Session_vtable os sl) (tm_sessions t')"
proof -
  have "tm_sessions t' = tm_sessions t \<or> (\<exists>fd q v. sessions_iterate (Session_vtable os sl) fd (tm_sessions t) w = (q, tm_sessions t', v))"
    using assms(1) by (auto simp: ThreadMulti_wake_def split: list.splits prod.splits)
  then show "dom (tm_sessions t') = dom (tm_sessions t)" and "keys_ok (Session_vtable os sl) (tm_sessions t')"
    using sess.iterate_keys(1,3) assms(2) by metis+
qed

lemma polled_step:
  assumes "wsapoll_contract wsa" and "srv_step (win32_calls os sl nt wsa) x y"
    and I: "case x of (s, es, w) \<Rightarrow> polled_inv (win32_calls os sl nt wsa) first s"
  shows "case y of (s, es, w) \<Rightarrow> polled_inv (win32_calls os sl nt wsa) first s"
  using assms(2)
proof (cases rule: srv_step.cases)
  case (poll s w evs p w')
  then have "Win32Poller_wait wsa wait_timeout (srv_poller s) w = (Inr evs, p, w')" by (simp add: win32_calls_def Win32Poller_def)
  from polled_wait [OF assms(1) this] I poll show ?thesis by (simp add: polled_inv_def)
next
  case (handle e s w s' w' es)
  with I polled_event [OF _ handle(3)] show ?thesis by simp
next
  case (worker_test i s t es w)
  with I have J: "polled_inv (win32_calls os sl nt wsa) first s" by simp
  then have "keys_ok (pc_vt (win32_calls os sl nt wsa)) (thread_sessions (srv_threads s ! i))"
    using nth_mem [OF worker_test(3)] by (simp add: polled_inv_def manager_inv_def)
  with polled_worker [OF J worker_test(3), of "Multi (ThreadMulti_test t)"] worker_test(2,4) show ?thesis by simp
next
  case (worker_wake i s t w t' w' es)
  with I have J: "polled_inv (win32_calls os sl nt wsa) first s" by simp
  then have k: "keys_ok (Session_vtable os sl) (tm_sessions t)"
    using nth_mem [OF worker_wake(3)] worker_wake(4) by (auto simp: polled_inv_def manager_inv_def win32_calls_def)
  have "ThreadMulti_wake (Session_vtable os sl) t w = (Inr (), t', w')" using worker_wake(6) by (simp add: win32_calls_def)
  from polled_worker [OF J worker_wake(3), of "Multi t'"] wake_keys [OF this k] worker_wake(2,4) show ?thesis
    by (simp add: win32_calls_def)
next
  case (stop s es w)
  with I show ?thesis by (simp add: polled_inv_def Server_stop_def)
qed

lemma polled_reach:
  assumes "wsapoll_contract wsa" and "polled_inv (win32_calls os sl nt wsa) first s"
    and "srv_reach (win32_calls os sl nt wsa) (s, w) y"
  shows "case y of (s', es, w') \<Rightarrow> polled_inv (win32_calls os sl nt wsa) first s'"
  using assms(3)
proof induction
  case reach_init
  with assms(2) show ?case by simp
next
  case (reach_step x y)
  from polled_step [OF assms(1) reach_step.hyps(2) reach_step.IH] show ?case .
qed

subsection \<open>The theorem\<close>

text \<open>
  C20. On Windows every client with a session is polled: in every state that the server reaches from its
  construction on, for every interleaving of the event loop with the workers and with stopping, the list that is handed to
  \<^verbatim>\<open>WSAPoll\<close> begins with the listening socket and contains the descriptor of every session after it.
  Nothing is asked of the system calls but that \<^verbatim>\<open>WSAPoll\<close> stores one result per entry.
\<close>

theorem Server_sessions_polled:
  assumes "wsapoll_contract wsa" and "protocol_ok (srv_protocol s)" and "srv_poller s = Win32Poller_new (srv_fd s)"
    and "srv_threads s = ThreadManager_new n" and "n = Threads_Single \<or> (\<exists>k. n = Threads k \<and> 0 < k \<and> k < 2 ^ 31)"
    and "srv_reach (win32_calls os sl nt wsa) (s, w) (s', es, w')"
  shows "\<exists>clients. polled_sockets (srv_poller s') = srv_fd s # clients \<and>
    dom (manager_lookup thread_sessions (srv_threads s')) \<subseteq> set clients"
proof -
  have M: "manager_inv (pc_vt (win32_calls os sl nt wsa)) thread_sessions (srv_threads s)"
    using manager_inv_new [OF assms(5)] by (simp add: assms(4))
  then have "manager_ok (srv_threads s)" by (simp add: manager_inv_def)
  then have "manager_lookup thread_sessions (srv_threads s) fd = None" for fd using manager_lookup_new [of n fd] assms(4) by simp
  with M assms(2,3) have "polled_inv (win32_calls os sl nt wsa) [srv_fd s] s"
    by (simp add: polled_inv_def polled_sockets_def Win32Poller_new_def poll_fd_def fun_eq_iff)
  from polled_reach [OF assms(1) this assms(6)] show ?thesis by (simp add: polled_inv_def)
qed

definition sim_win_calls :: "(win32_poller, sim_net) platform_calls" where
  "sim_win_calls = win32_calls sim_srv_os sim_ssl sim_nt sim_wsapoll"

definition sim_win_poller :: "16 word \<Rightarrow> win32_poller" where
  "sim_win_poller r = \<lparr> wp_server_fd = 3, wp_fds = [(poll_fd 3)\<lparr>pfd_revents := r\<rparr>] \<rparr>"

definition sim_win_server :: "win32_poller \<Rightarrow> session thread list \<Rightarrow> win32_poller server" where
  "sim_win_server p ts = \<lparr> srv_class = TCPServer, srv_fd = 3, srv_poller = p,
     srv_protocol = TestProtocol_create_session, srv_threads = ts, srv_running = True \<rparr>"

definition sim_win_world :: "SOCKET set \<Rightarrow> sim_net" where
  "sim_win_world F = sim_srv_world\<lparr>sim_revents := [POLLRDNORM], sim_open := F\<rparr>"

definition sim_win_served :: "session thread list" where
  "sim_win_served = [Single \<lparr> ts_sessions = [0 \<mapsto> sim_session 0] \<rparr>]"

lemma sim_win_poll:
  "srv_step sim_win_calls (sim_win_server (Win32Poller_new 3) (ThreadManager_new Threads_Single), [], sim_win_world {3, 5})
     (sim_win_server (sim_win_poller POLLRDNORM) (ThreadManager_new Threads_Single), [mk_Event NewClient 3], sim_win_world {3, 5})"
proof -
  let ?s = "\<lambda>p. sim_win_server p (ThreadManager_new Threads_Single)"
  have "pl_wait (pc_poller sim_win_calls) (srv_poller (?s (Win32Poller_new 3))) (sim_win_world {3, 5}) =
      (Inr [mk_Event NewClient 3], sim_win_poller POLLRDNORM, sim_win_world {3, 5})"
    by (simp add: sim_win_calls_def win32_calls_def Win32Poller_def Win32Poller_wait_def Win32Poller_new_def sim_win_server_def
        sim_win_poller_def sim_wsapoll_def sim_win_world_def POLLRDNORM_def poll_fd_def)
  from poll [OF _ this] show ?thesis by (simp add: sim_win_server_def)
qed

lemma sim_win_accept:
  "srv_step sim_win_calls (sim_win_server (sim_win_poller POLLRDNORM) (ThreadManager_new Threads_Single), [mk_Event NewClient 3], sim_win_world {3, 5})
     (sim_win_server (Win32Poller_add_client 0 (sim_win_poller POLLRDNORM)) sim_win_served, [], sim_win_world {0, 3, 5})"
proof -
  let ?w = "sim_win_world {0, 3, 5}"
  have q: "\<not> logging_verbose (sim_logger ?w)" using sim_quiet by (simp add: sim_win_world_def)
  have "sim_new_fd (sim_win_world {3, 5}) = (0, ?w)" by (simp add: sim_new_fd_def sim_win_world_def upt_conv_Cons)
  with q have acc: "TCPServer_accept sim_srv_os sim_nt 3 (sim_win_world {3, 5}) = (Inr 0, ?w)"
    by (simp add: TCPServer_accept_def io_bind_call sim_nt_def INVALID_SOCKET_def socket_mark_as_nonblocking_def
        sim_srv_os_def sim_os_def log_quiet)
  have add: "ThreadManager_add_session (Session_vtable sim_srv_os sim_ssl) (sim_session 0) (ThreadManager_new Threads_Single) ?w =
      (Inr (), sim_win_served, ?w)"
    by (simp add: ThreadManager_add_session_def at_thread_def thread_index_mod ThreadSingle_new_def ThreadSingle_add_session_def
        drop_session_def session_fd_def sim_win_served_def TestProtocol_create_session_def)
  have "Server_event sim_win_calls (mk_Event NewClient 3) (sim_win_server (sim_win_poller POLLRDNORM) (ThreadManager_new Threads_Single))
      (sim_win_world {3, 5}) = (Inr (), sim_win_server (Win32Poller_add_client 0 (sim_win_poller POLLRDNORM)) sim_win_served, ?w)"
    using acc add
    by (simp add: Server_event_def Server_new_client_def sim_win_calls_def win32_calls_def sim_win_server_def Win32Poller_def
        del: ThreadManager_new.simps)
  then show ?thesis by (rule handle)
qed

theorem Server_sessions_polled_witness:
  "\<exists>clients. polled_sockets (Win32Poller_add_client 0 (sim_win_poller POLLRDNORM)) = 3 # clients \<and> 0 \<in> set clients"
proof -
  let ?s = "sim_win_server (Win32Poller_new 3) (ThreadManager_new Threads_Single)"
  let ?s' = "sim_win_server (Win32Poller_add_client 0 (sim_win_poller POLLRDNORM)) sim_win_served"
  have "srv_reach sim_win_calls (?s, sim_win_world {3, 5}) (?s, [], sim_win_world {3, 5})"
    using reach_init [of sim_win_calls "(?s, sim_win_world {3, 5})"] by simp
  then have reach: "srv_reach sim_win_calls (?s, sim_win_world {3, 5}) (?s', [], sim_win_world {0, 3, 5})"
    by (rule reach_step [OF reach_step [OF _ sim_win_poll] sim_win_accept])
  have "\<exists>clients. polled_sockets (srv_poller ?s') = srv_fd ?s # clients \<and>
      dom (manager_lookup thread_sessions (srv_threads ?s')) \<subseteq> set clients"
    by (rule Server_sessions_polled [OF sim_wsapoll_contract _ _ _ _ reach [unfolded sim_win_calls_def], where n = Threads_Single])
      (simp_all add: sim_win_server_def protocol_ok_def TestProtocol_create_session_def del: ThreadManager_new.simps)
  moreover have "manager_lookup thread_sessions sim_win_served 0 = Some (sim_session 0)"
    by (simp add: manager_lookup_def thread_index_mod sim_win_served_def)
  ultimately show ?thesis by (auto simp: sim_win_server_def dom_def)
qed

end
