(* ===== verification/Initialisation.thy ===== *)
theory Initialisation
  imports Os
begin

text \<open>
  The static object that initialises the library (\<^verbatim>\<open>init.cc\<close>): the variables of the logger, Winsock
  on Windows, the limit of open files elsewhere, and OpenSSL.
\<close>

subsection \<open>Class Init\<close>

record rlimit =
  rlim_cur :: nat
  rlim_max :: nat

text \<open>
  The calls of the constructor. \<open>in_getrlimit\<close> returns the status and the contents of the structure
  after the call, which was filled with zeros before.
\<close>

record 'w init_calls =
  in_os :: "'w os"
  in_WSAStartup :: "'w \<Rightarrow> int \<times> 'w"
  in_WSACleanup :: "'w \<Rightarrow> int \<times> 'w"
  in_getrlimit :: "'w \<Rightarrow> (int \<times> rlimit) \<times> 'w"
  in_setrlimit :: "rlimit \<Rightarrow> 'w \<Rightarrow> int \<times> 'w"
  in_OPENSSL_init_ssl :: "'w \<Rightarrow> 'w"

definition desired_rl :: nat where "desired_rl = 65535"

text \<open>The four assignments to the logger's variables; what was written before stays written.\<close>

definition reset_logger :: "logger \<Rightarrow> logger" where
  "reset_logger lg = lg\<lparr>logging_color := ''0'', service_name := ''(undefined)'', logging_verbose := False,
     logging_dest := Stdout\<rparr>"

text \<open>The part that raises the number of files a process may open.\<close>

definition raise_file_limit :: "('w, 'i) init_calls_scheme \<Rightarrow> 'w \<Rightarrow> 'w" where
  "raise_file_limit ic w =
     (case in_getrlimit ic w of ((_, rl), w1) \<Rightarrow>
        if rlim_cur rl < desired_rl then
          (case in_setrlimit ic (rl\<lparr>rlim_cur := desired_rl\<rparr>) w1 of (r, w2) \<Rightarrow>
             if r \<noteq> 0
             then log_with (in_os ic)
               (LOG (''Could not set file limit: '' @ os_strerror (in_os ic) (os_errno (in_os ic) w2))) w2
             else w2)
        else w1)"

definition Init_new :: "('w, 'i) init_calls_scheme \<Rightarrow> (unit, 'w) io" where
  "Init_new ic =
     io_bind (io_do (log_with (in_os ic) reset_logger)) (\<lambda>_.
       case os_platform (in_os ic) of
         Win32 \<Rightarrow>
           io_bind (io_call (in_WSAStartup ic)) (\<lambda>result.
             if result \<noteq> 0 then io_throw (NonRecoverableException (''WSAStartup failed: '' @ show_int result))
             else io_do (in_OPENSSL_init_ssl ic))
       | Posix \<Rightarrow>
           io_bind (io_do (raise_file_limit ic)) (\<lambda>_. io_do (in_OPENSSL_init_ssl ic)))"

definition Init_destroy :: "('w, 'i) init_calls_scheme \<Rightarrow> 'w \<Rightarrow> 'w" where
  "Init_destroy ic w =
     (case os_platform (in_os ic) of Win32 \<Rightarrow> snd (in_WSACleanup ic w) | Posix \<Rightarrow> w)"

subsection \<open>Documented behaviour\<close>

text \<open>
  \<open>limit\<close> observes the limits of the process: reading returns them, setting a soft limit above the
  hard limit fails and changes nothing, other settings that keep the hard limit succeed. None of
  the calls prints, and printing changes no limit.
\<close>

definition rlimit_contract :: "('w, 'i) init_calls_scheme \<Rightarrow> ('w \<Rightarrow> rlimit) \<Rightarrow> bool" where
  [contract_defs]: "rlimit_contract ic limit \<longleftrightarrow>
     (\<forall>w. \<exists>w'. in_getrlimit ic w = ((0, limit w), w') \<and> limit w' = limit w) \<and>
     (\<forall>rl w r w'. in_setrlimit ic rl w = (r, w') \<longrightarrow> rlim_max rl = rlim_max (limit w) \<longrightarrow>
        (if rlim_cur rl \<le> rlim_max rl then r = 0 \<and> limit w' = rl else r \<noteq> 0 \<and> limit w' = limit w)) \<and>
     (\<forall>w. limit (in_OPENSSL_init_ssl ic w) = limit w) \<and>
     (\<forall>lg w. limit (os_set_logger (in_os ic) lg w) = limit w) \<and>
     keeps (os_logger (in_os ic)) (in_getrlimit ic) \<and> (\<forall>rl. keeps (os_logger (in_os ic)) (in_setrlimit ic rl)) \<and>
     (\<forall>w. os_logger (in_os ic) (in_OPENSSL_init_ssl ic w) = os_logger (in_os ic) w)"

subsection \<open>The theorem\<close>

text \<open>
  C36. The static initialiser and the limit of open files: a soft limit below 65535 becomes 65535 when
  the hard limit allows it; when the hard limit is lower the soft limit stays where it is, not
  raised to the hard limit, and one message says so. The hard limit is never changed.
\<close>

theorem Init_file_limit:
  assumes "rlimit_contract ic limit" and "logger_contract (in_os ic)" and "os_platform (in_os ic) = Posix"
    and "Init_new ic w = (res, w')"
  shows "res = Inr () \<and> rlim_max (limit w') = rlim_max (limit w) \<and>
    (if rlim_cur (limit w) < 65535 \<and> 65535 \<le> rlim_max (limit w)
     then rlim_cur (limit w') = 65535 \<and> written (os_logger (in_os ic) w') = written (os_logger (in_os ic) w)
     else rlim_cur (limit w') = rlim_cur (limit w) \<and>
       length (written (os_logger (in_os ic) w')) =
         length (written (os_logger (in_os ic) w)) + (if rlim_cur (limit w) < 65535 then 1 else 0))"
proof -
  let ?os = "in_os ic" and ?w = "log_with (in_os ic) reset_logger w"
  have lim: "limit (log_with ?os f v) = limit v" "limit (in_OPENSSL_init_ssl ic v) = limit v"
    "os_logger ?os (in_OPENSSL_init_ssl ic v) = os_logger ?os v" for f v
    using assms(1) by (simp_all add: rlimit_contract_def log_with_def)
  have lg: "os_logger ?os (log_with ?os f v) = f (os_logger ?os v)" for f v
    using assms(2) by (simp add: logger_contract_def log_with_def)
  obtain w1 where g: "in_getrlimit ic ?w = ((0, limit ?w), w1)" "limit w1 = limit ?w"
    using assms(1) unfolding rlimit_contract_def by blast
  let ?rl = "(limit w)\<lparr>rlim_cur := desired_rl\<rparr>"
  obtain r w2 where s: "in_setrlimit ic ?rl w1 = (r, w2)" by fastforce
  have "rlim_max ?rl = rlim_max (limit w1)" using g(2) lim by simp
  with s assms(1) have sr: "if rlim_cur ?rl \<le> rlim_max ?rl then r = 0 \<and> limit w2 = ?rl else r \<noteq> 0 \<and> limit w2 = limit w1"
    unfolding rlimit_contract_def by blast
  have "keeps (os_logger ?os) (in_getrlimit ic)" "keeps (os_logger ?os) (in_setrlimit ic ?rl)"
    using assms(1) unfolding rlimit_contract_def by blast+
  then have "os_logger ?os w1 = os_logger ?os ?w" "os_logger ?os w2 = os_logger ?os w1"
    using keepsD g(1) s by metis+
  then show ?thesis
    using assms(3,4) g s sr lim lg
    by (auto simp: Init_new_def raise_file_limit_def desired_rl_def LOG_def fprintf_def reset_logger_def split: if_splits)
qed

definition sim_init :: "(sim \<times> rlimit) init_calls" where
  "sim_init = \<lparr> in_os = \<lparr> os_platform = Posix, os_errno = (\<lambda>w. Errno 1), os_strerror = (\<lambda>e. ''error''),
       os_WSAGetLastError = (\<lambda>w. 0), os_recv = (\<lambda>fd n w. ((-1, ''''), w)), os_send = (\<lambda>fd d w. (-1, w)),
       os_close = (\<lambda>fd w. (0, w)), os_fcntl_getfl = (\<lambda>fd w. (2, w)), os_fcntl_setfl = (\<lambda>fd fl w. (0, w)),
       os_ioctl_fionbio = (\<lambda>fd w. (0, w)), os_O_NONBLOCK = 2048, os_logger = (\<lambda>(w, l). sim_logger w),
       os_set_logger = (\<lambda>lg (w, l). (w\<lparr>sim_logger := lg\<rparr>, l)), os_open = (\<lambda>w. {}), os_sent = (\<lambda>w fd. '''') \<rparr>,
     in_WSAStartup = (\<lambda>w. (0, w)), in_WSACleanup = (\<lambda>w. (0, w)), in_getrlimit = (\<lambda>(w, l). ((0, l), (w, l))),
     in_setrlimit = (\<lambda>rl (w, l). if rlim_cur rl \<le> rlim_max rl then (0, (w, rl)) else (-1, (w, l))),
     in_OPENSSL_init_ssl = (\<lambda>w. w) \<rparr>"

theorem Init_file_limit_witness:
  "rlim_cur (snd (snd (Init_new sim_init (sim_world, \<lparr> rlim_cur = 1024, rlim_max = 4096 \<rparr>)))) = 1024 \<and>
   rlim_cur (snd (snd (Init_new sim_init (sim_world, \<lparr> rlim_cur = 1024, rlim_max = 524288 \<rparr>)))) = 65535"
proof -
  have c: "rlimit_contract sim_init snd" "logger_contract (in_os sim_init)" "os_platform (in_os sim_init) = Posix"
    by (auto simp: rlimit_contract_def logger_contract_def sim_init_def keeps_def)
  note run = Init_file_limit [OF c, where res = "fst (Init_new sim_init w)" and w' = "snd (Init_new sim_init w)" for w, OF prod.collapse [symmetric]]
  from run [of "(sim_world, \<lparr> rlim_cur = 1024, rlim_max = 4096 \<rparr>)"]
    run [of "(sim_world, \<lparr> rlim_cur = 1024, rlim_max = 524288 \<rparr>)"]
  show ?thesis by auto
qed

end
