(* ===== verification/Spec2Isabelle.thy ===== *)
theory Spec2Isabelle
  imports EndToEnd Answers Lifetime Delivery Windows Initialisation
begin

text \<open>
  A verification development of neblina2, an event driven internet server with TCP and TLS
  connections, its client library and its load test (\<^verbatim>\<open>src/\<close>).

  \<^bold>\<open>The program.\<close> A \<^verbatim>\<open>Server\<close> owns a listening socket, a \<^verbatim>\<open>Poller\<close> (epoll, kqueue or WSAPoll), a
  \<^verbatim>\<open>Protocol\<close> and a \<^verbatim>\<open>ThreadManager\<close>. Its loop asks the poller for events: a new client is accepted,
  wrapped in a \<^verbatim>\<open>Connection\<close> (\<^verbatim>\<open>TCPConnection\<close> or \<^verbatim>\<open>SSLConnection\<close>) and in a \<^verbatim>\<open>Session\<close> of the
  protocol, which the manager gives to the thread the descriptor selects; data makes that thread
  run an iteration of the session, in place (\<^verbatim>\<open>ThreadSingle\<close>) or by a worker with a queue
  (\<^verbatim>\<open>ThreadMulti\<close>); a disconnection removes the session. A \<^verbatim>\<open>LineSession\<close> cuts its input at a separator
  and answers each line with \<^verbatim>\<open>process\<close>. A \<^verbatim>\<open>Client\<close> connects, sends and spins for an answer. The load
  test parses its command line with a getopt of its own, may start the echo server as a process,
  makes requests from many threads, checks that each line comes back, and reports.

  \<^bold>\<open>The theories\<close>, each with the code it models:
  \<^item> \<open>Prelude\<close>, \<open>CxxString\<close>: failures as values, effectful calls \<open>('a, 'w) io\<close> on a world of
    arbitrary type, theorem collections; the operations of \<^verbatim>\<open>std::string\<close>.
  \<^item> \<open>Log\<close> (\<^verbatim>\<open>util/log.hh\<close>, \<^verbatim>\<open>log.cc\<close>): the three functions on the logger's global variables. These are part
    of the world: server, pollers and client log where the code does (\<open>log_with\<close>), with the same text.
  \<^item> \<open>Os\<close> (\<^verbatim>\<open>util/socket\<close>), \<open>Net\<close>: the system calls as records of functions, which are parameters of
    every definition that calls them, and contracts that state their documented behaviour.
  \<^item> \<open>Connection\<close> (\<^verbatim>\<open>server/connection.hh\<close>, \<^verbatim>\<open>tcpconnection.cc\<close>, \<^verbatim>\<open>sslconnection.cc\<close>): what \<^verbatim>\<open>recv\<close> returns, what
    \<^verbatim>\<open>send\<close> hands to the peer, construction and destruction; locales \<open>connection_class\<close> and
    \<open>connection_frame\<close> with the dispatching connection as their interpretation.
  \<^item> \<open>Session\<close> (\<^verbatim>\<open>protocol/\<close>): the framing loop against a reference framing, conservation of the
    stream, termination, and where the loop departs from the reference.
  \<^item> \<open>Threads\<close> (\<^verbatim>\<open>thread/\<close>): both kinds of threads and the manager; the worker's queue is a FIFO under
    every interleaving, a worker refines the single thread, a stop is answered in two steps.
  \<^item> \<open>Poller\<close> (\<^verbatim>\<open>server/poller/\<close>): the three pollers, locales \<open>poller_class\<close>, \<open>exact_poller\<close> and
    \<open>event_step\<close> with their interpretations for Linux and BSD, what the Windows poller keeps.
  \<^item> \<open>Server\<close> (\<^verbatim>\<open>server/\<close>): the event loop as a function and as a step relation that interleaves it with
    the workers and with stopping; the invariant that the descriptors with a session are the
    clients of the poller, proved once in the locale \<open>server_env\<close> and interpreted for two pollers.
  \<^item> \<open>Streams\<close>, \<open>Answers\<close>: what each client has been answered. In every state that a server reaches,
    with workers or without, on TCP or TLS, each session is what the pieces received on its connection
    make of a new one, and what was sent is the answer to them; locale \<open>server_streams\<close>, interpreted
    for both kinds of connections and independent of the poller.
  \<^item> \<open>Lifetime\<close>: constructor, run and destructor of a server together. Locale \<open>server_life\<close>, interpreted
    for Linux and BSD: the destructor restores the open descriptors.
  \<^item> \<open>Notifications\<close>: how much is read for each notification of the poller; locale \<open>notified_reads\<close>.
  \<^item> \<open>Progress\<close>: a bounded number of iterations accepts and answers all clients that have connected and
    sent a request. What has arrived is a record \<open>arrivals\<close>, the work that is left a measure on it; locale
    \<open>server_progress\<close>, interpreted for the three pollers. The witness is the first case of \<^verbatim>\<open>tests/tcpserver.cc\<close>.
  \<^item> \<open>Delivery\<close>: the same with workers and every interleaving, on Linux. With edge-triggered registration each request that
    was not read yet has exactly one token, in epoll, in the batch or in a queue (\<open>one_token\<close>); every step moves tokens
    towards a session (\<open>effort\<close>), so no request is lost. The witness is the second case of \<^verbatim>\<open>tests/tcpserver.cc\<close>.
  \<^item> \<open>Windows\<close>: on the poller that never forgets a socket, every session is polled in every reachable state.
  \<^item> \<open>Client\<close> (\<^verbatim>\<open>client/\<close>): connecting, the handshake, \<^verbatim>\<open>recv_spinlock\<close> and \<^verbatim>\<open>recv_future\<close>; locale
    \<open>client_class\<close>, interpreted for both classes and for the dispatch.
  \<^item> \<open>Getopt\<close> (\<^verbatim>\<open>loadtest/ya_getopt.c\<close>): the parser on its global variables; its permutation is a
    rotation of blocks, every call makes progress; locale \<open>option_parser\<close>, the induction for loops
    over the options.
  \<^item> \<open>LoadTestArgs\<close>, \<open>LoadTest\<close> (\<^verbatim>\<open>loadtest/loadtest.cc\<close>): the command line against a reference reader, its
    round trip; the server process, the attempts, the threads under a schedule, the report and \<^verbatim>\<open>main\<close>.
  \<^item> \<open>Programs\<close> (\<^verbatim>\<open>main.cc\<close>, \<^verbatim>\<open>demo/\<close>, \<^verbatim>\<open>loadtest/server.cc\<close>), \<open>Initialisation\<close> (\<^verbatim>\<open>init.cc\<close>).
  \<^item> \<open>EndToEnd\<close>: the load test, its client and the server's session composed over a network that cuts
    the bytes into arbitrary pieces; all requests succeed.
  \<^item> This theory: the data events of a client through the server's event loop, the thread manager, the
    session and the connection refine the framing of the client's input.

  \<^bold>\<open>Loops.\<close> Loops that need not end (the framing loop, the send loops, the spinning receive, the
  handshake, \<^verbatim>\<open>Server::run\<close>, the loop of \<^verbatim>\<open>parse_args\<close>) are partial functions into \<open>option\<close>; that they
  return is a theorem of its own (\<open>LineSession_feed_returns\<close>, \<open>recv_spinlock_returns\<close>,
  \<open>parse_args_returns\<close>, \<open>Server_run_stops\<close>), and where they do not it is one too. The other loops are
  recursive functions with a measure. The only fuel is the number of steps \<open>stop_fuel\<close> of a
  worker that is being joined, which \<open>ThreadMulti_stops\<close> shows to be enough.

  \<^bold>\<open>Integers.\<close> Descriptors are 32 bit words (of a Windows socket handle the low 32 bits), ports 16 bit words, the conversion \<^verbatim>\<open>(int) size\<close> and the
  thread index are computed at their widths, the counts of the load test are 64 bit words as
  \<^verbatim>\<open>strtoull\<close> returns them. Sizes of strings are natural numbers.

  \<^bold>\<open>Concurrency.\<close> A step under a mutex is atomic. One step of the load test's schedule is one
  attempt: attempts of different threads share only the vector of results and the static TLS
  context, both under a mutex.

  \<^bold>\<open>Not modelled.\<close> The floating point text of the report's times (the microseconds are modelled);
  OpenSSL, the operating system and the C++ library's threads, which are parameters or steps; data
  races on objects that are already destroyed; the unit tests and the build files.
\<close>


subsection \<open>Data events through the server\<close>

text \<open>
  The pieces that wait to be received on a descriptor, observed by \<open>inq\<close>: a receive takes the next
  one, a send hands over all of its data, and neither disturbs the other side.
\<close>

definition stream_env :: "('w, 'z) os_scheme \<Rightarrow> SOCKET \<Rightarrow> ('w \<Rightarrow> string list) \<Rightarrow> bool" where
  [contract_defs]: "stream_env os fd inq \<longleftrightarrow>
     (\<forall>w c cs. inq w = c # cs \<longrightarrow> c \<noteq> '''' \<longrightarrow> length c \<le> RECV_BUF_SZ \<longrightarrow>
        (\<exists>w'. os_recv os fd RECV_BUF_SZ w = ((int (length c), c), w') \<and> inq w' = cs \<and> os_sent os w' = os_sent os w)) \<and>
     (\<forall>data w. \<exists>w'. os_send os fd data w = (int (length data), w') \<and> inq w' = inq w \<and>
        os_sent os w' = (os_sent os w)(fd := os_sent os w fd @ data))"

lemma stream_recv:
  assumes "stream_env os fd inq" and "inq w = c # cs" and "c \<noteq> ''''" and "length c \<le> RECV_BUF_SZ"
  obtains w' where "connection_recv os sl (TCPConnection fd) w = (Inr c, w')" and "inq w' = cs" and "os_sent os w' = os_sent os w"
proof -
  obtain w' where w': "os_recv os fd RECV_BUF_SZ w = ((int (length c), c), w')" "inq w' = cs" "os_sent os w' = os_sent os w"
    using assms unfolding stream_env_def by blast
  have "TCPConnection_recv os fd w = (Inr c, w')"
    using assms(3) by (simp add: TCPConnection_recv_def io_bind_call w'(1) recv_result_data)
  with w' show ?thesis using that by simp
qed

lemma stream_send:
  assumes "stream_env os fd inq"
  obtains w' where "connection_send os sl (TCPConnection fd) d w = (Inr (), w')" and "inq w' = inq w"
    and "os_sent os w' fd = os_sent os w fd @ d"
proof (cases "d = ''''")
  case True
  then have "TCPConnection_send os fd d w = (Inr (), w)" by (simp add: TCPConnection_send_def send_loop_done)
  with True show ?thesis using that by simp
next
  case False
  obtain w' where w': "os_send os fd d w = (int (length d), w')" "inq w' = inq w"
    "os_sent os w' = (os_sent os w)(fd := os_sent os w fd @ d)"
    using assms unfolding stream_env_def by blast
  have "0 < length d" using False by simp
  from send_loop_round [where call = "os_send os fd d", OF this w'(1)]
  have "send_loop (os_send os fd d) (send_error os) (length d) 0 w = Some (Inr (), w')" by (simp add: send_loop_done)
  with w' show ?thesis using that by (simp add: TCPConnection_send_def)
qed

text \<open>One event: the session reads one piece, answers what it completes and keeps the rest.\<close>

lemma Server_data_event:
  assumes env: "stream_env (pc_os pc) fd inq" and "srv_threads s = [Single t]"
    and "ts_sessions t fd = Some (LineSession (TCPConnection fd) p ls)"
    and "inq w = c # cs" and "c \<noteq> ''''" and "length c \<le> RECV_BUF_SZ"
    and "LineSession_feed p ls c = Some (resp, ls')"
  obtains w' where "Server_event pc (mk_Event ClientDataReady fd) s w =
      (Inr (), s\<lparr>srv_threads := [Single (t\<lparr>ts_sessions := (ts_sessions t)(fd \<mapsto> LineSession (TCPConnection fd) p ls')\<rparr>)]\<rparr>, w')"
    and "inq w' = cs" and "os_sent (pc_os pc) w' fd = os_sent (pc_os pc) w fd @ resp"
proof -
  obtain w1 where r: "connection_recv (pc_os pc) (pc_ssl pc) (TCPConnection fd) w = (Inr c, w1)" "inq w1 = cs"
    "os_sent (pc_os pc) w1 = os_sent (pc_os pc) w"
    by (rule stream_recv [OF env assms(4-6)])
  obtain w2 where s: "connection_send (pc_os pc) (pc_ssl pc) (TCPConnection fd) resp w1 = (Inr (), w2)" "inq w2 = inq w1"
    "os_sent (pc_os pc) w2 fd = os_sent (pc_os pc) w1 fd @ resp"
    by (rule stream_send [OF env])
  have "session_iteration (pc_os pc) (pc_ssl pc) (LineSession (TCPConnection fd) p ls) w =
      (Inr (), LineSession (TCPConnection fd) p ls', w2)"
    using r(1) s(1) assms(7) by (simp add: LineSession_iteration_def)
  then have "Server_event pc (mk_Event ClientDataReady fd) s w =
      (Inr (), s\<lparr>srv_threads := [Single (t\<lparr>ts_sessions := (ts_sessions t)(fd \<mapsto> LineSession (TCPConnection fd) p ls')\<rparr>)]\<rparr>, w2)"
    using assms(2,3) by (simp add: Server_event_def mk_Event_def ThreadManager_single_dispatch)
  then show ?thesis using r s that by simp
qed


lemma sim_stream_env: "stream_env (sim_os\<lparr>os_send := \<lambda>fd d w. (int (length d), w\<lparr>sim_out := (sim_out w)(fd := sim_out w fd @ d)\<rparr>)\<rparr>) fd sim_recvs"
  by (auto simp: stream_env_def sim_os_def sim_recv_def)

definition sim_stream_calls :: "(linux_poller, sim_net) platform_calls" where
  "sim_stream_calls = sim_calls\<lparr>pc_os := sim_os\<lparr>os_send := \<lambda>fd d w. (int (length d), w\<lparr>sim_out := (sim_out w)(fd := sim_out w fd @ d)\<rparr>)\<rparr>\<rparr>"

definition sim_stream_thread :: "session thread_single" where
  "sim_stream_thread = \<lparr> ts_sessions = [9 \<mapsto> LineSession (TCPConnection 9) (\<lambda>d. d) (LineSession_new True lf)] \<rparr>"


end
